(* ===== verification/Prelude.thy ===== *)
theory Prelude
  imports Main "HOL-Library.Word"
begin

text \<open>
  Shared vocabulary of the development: Go errors as trees of wrapped sentinels, the
  error classes a third-party client can return, the outcome of one call to an outside
  service, Go strings as byte strings, and the list, option and result lemmas that the
  component theories share.

  A Go function \<open>f(...) error\<close> is modelled by a function into \<open>error option\<close>
  (\<open>None\<close> is \<open>nil\<close>), a function \<open>f(...) (T, error)\<close> by one into
  \<open>error + T\<close>. State is passed explicitly: an operation takes the world it works on and
  returns the new one next to its result.
\<close>

named_theorems go_simps \<open>unfolding rules of small Go helpers\<close>
named_theorems err_simps \<open>which sentinels an error wraps\<close>

section \<open>Errors\<close>

text \<open>
  The package-level sentinel errors of the program, and the two context sentinels of the
  standard library. \<open>web_\<close> marks the sentinels of package web, whose names
  package http uses too.
\<close>

datatype sentinel =
    ErrNotFound | ErrForbidden | ErrInvalidTransition | ErrUnsupportedFormat
  | ErrTooLarge | ErrImageTooBig | ErrUnsupportedSize | ErrUnavailable
  | ErrNonRetryable
  | ErrCanceled | ErrDeadlineExceeded
  | errMissingUserID | errInvalidAvatarID | errMissingFile | errMalformedBody
  | errUserIDTooLong | errFileNameTooLong
  | web_errMissingUserID | web_errUserIDTooLong | web_errMissingFile
  | web_errFileNameTooLong | web_errMalformedBody

text \<open>
  \<open>Sentinel s\<close> is the sentinel itself, \<open>ErrText\<close> an error that wraps
  nothing (\<open>errors.New\<close> on the spot, or \<open>fmt.Errorf\<close> without a
  \<open>%w\<close>), \<open>Errorf es\<close> the result of \<open>fmt.Errorf\<close> with a
  \<open>%w\<close> per element of \<open>es\<close>, or of \<open>errors.Join\<close>. The message
  texts are not modelled: no code of the program reads them back.
\<close>

datatype error = Sentinel sentinel | ErrText | Errorf "error list"

fun errors_Is :: "error \<Rightarrow> sentinel \<Rightarrow> bool" where
  "errors_Is (Sentinel t) s = (t = s)"
| "errors_Is ErrText s = False"
| "errors_Is (Errorf es) s = list_ex (\<lambda>e. errors_Is e s) es"

text \<open>\<open>fmt.Errorf("...: %w", err)\<close>.\<close>

definition wrapf :: "error \<Rightarrow> error" where
  "wrapf e = Errorf [e]"

text \<open>\<open>errors.Join\<close>: nil errors are dropped, and all nil gives nil.\<close>

definition errors_Join :: "error option list \<Rightarrow> error option" where
  "errors_Join es =
     (case List.map_filter (\<lambda>x. x) es of [] \<Rightarrow> None | xs \<Rightarrow> Some (Errorf xs))"

lemma errors_Is_wrapf [simp, err_simps]: "errors_Is (wrapf e) s = errors_Is e s"
  by (simp add: wrapf_def)

lemma map_filter_id_Nil: "List.map_filter (\<lambda>x. x) es = [] \<longleftrightarrow> (\<forall>e\<in>set es. e = None)"
  by (induction es) (auto simp: List.map_filter_simps split: option.splits)

lemma errors_Join_None [simp]: "errors_Join es = None \<longleftrightarrow> (\<forall>e\<in>set es. e = None)"
proof -
  have "errors_Join es = None \<longleftrightarrow> List.map_filter (\<lambda>x. x) es = []"
    by (simp add: errors_Join_def split: list.splits)
  then show ?thesis by (simp add: map_filter_id_Nil)
qed

lemma errors_Join_Nil [simp]: "errors_Join [] = None"
  by simp

lemma map_filter_id_ex:
  "list_ex P (List.map_filter (\<lambda>x. x) es) \<longleftrightarrow> (\<exists>e. Some e \<in> set es \<and> P e)"
  by (induction es) (auto simp: List.map_filter_simps split: option.splits)

lemma errors_Join_Is:
  assumes "errors_Join es = Some j"
  shows "errors_Is j s \<longleftrightarrow> (\<exists>e. Some e \<in> set es \<and> errors_Is e s)"
proof -
  from assms have "j = Errorf (List.map_filter (\<lambda>x. x) es)"
    by (simp add: errors_Join_def split: list.splits)
  then show ?thesis by (simp add: map_filter_id_ex)
qed

section \<open>Calls that leave the process\<close>

text \<open>
  The error of a client library, as far as the program looks into it: the caller's context
  was cancelled, a deadline passed, or anything else.
\<close>

datatype lib_error = LibCanceled | LibDeadline | LibOther

fun lib_err :: "lib_error \<Rightarrow> error" where
  "lib_err LibCanceled = Errorf [Sentinel ErrCanceled]"
| "lib_err LibDeadline = Errorf [Sentinel ErrDeadlineExceeded]"
| "lib_err LibOther = ErrText"

text \<open>
  Outcome the environment chooses for one call to an outside service. A failed call may
  have had no effect (\<open>FailBefore\<close>) or its whole effect, with only the answer lost
  (\<open>FailAfter\<close>); for a query that streams rows, \<open>FailAfter k\<close> breaks the stream
  after \<open>k\<close> rows.
\<close>

datatype fault = NoFault | FailBefore lib_error | FailAfter nat lib_error

lemma lib_err_no_domain [simp, err_simps]:
  "errors_Is (lib_err l) s \<longleftrightarrow>
     (l = LibCanceled \<and> s = ErrCanceled) \<or> (l = LibDeadline \<and> s = ErrDeadlineExceeded)"
  by (cases l) auto

section \<open>Results\<close>

definition is_ok :: "error + 'a \<Rightarrow> bool" where
  "is_ok r = (case r of Inl _ \<Rightarrow> False | Inr _ \<Rightarrow> True)"

lemma is_ok_simps [simp]: "is_ok (Inr x)" "\<not> is_ok (Inl e)"
  by (simp_all add: is_ok_def)

lemma sum_case_eq_Inr:
  "(case r of Inl e \<Rightarrow> Inl (f e) | Inr x \<Rightarrow> Inr (g x)) = Inr y \<longleftrightarrow> (\<exists>x. r = Inr x \<and> y = g x)"
  by (auto split: sum.splits)

section \<open>Time, identifiers, strings\<close>

text \<open>Instants and durations in nanoseconds; a UUID is a \<open>[16]byte\<close>.\<close>

type_synonym time = int
type_synonym duration = int
type_synonym uuid = "128 word"
type_synonym bytes = "8 word list"

abbreviation (input) Second :: duration where "Second \<equiv> 1000000000"
abbreviation (input) Minute :: duration where "Minute \<equiv> 60000000000"
abbreviation (input) Hour :: duration where "Hour \<equiv> 3600000000000"

text \<open>\<open>strings.HasPrefix\<close>, \<open>TrimPrefix\<close>, \<open>HasSuffix\<close>, \<open>TrimSuffix\<close>.\<close>

definition HasPrefix :: "string \<Rightarrow> string \<Rightarrow> bool" where
  "HasPrefix s p = (take (length p) s = p)"

definition TrimPrefix :: "string \<Rightarrow> string \<Rightarrow> string" where
  "TrimPrefix s p = (if HasPrefix s p then drop (length p) s else s)"

definition HasSuffix :: "string \<Rightarrow> string \<Rightarrow> bool" where
  "HasSuffix s p = (length p \<le> length s \<and> drop (length s - length p) s = p)"

definition TrimSuffix :: "string \<Rightarrow> string \<Rightarrow> string" where
  "TrimSuffix s p = (if HasSuffix s p then take (length s - length p) s else s)"

lemma HasPrefix_append [simp]: "HasPrefix (p @ s) p"
  by (simp add: HasPrefix_def)

lemma TrimPrefix_append [simp]: "TrimPrefix (p @ s) p = s"
  by (simp add: TrimPrefix_def)

lemma HasSuffix_append [simp]: "HasSuffix (s @ p) p"
  by (simp add: HasSuffix_def)

lemma TrimSuffix_append [simp]: "TrimSuffix (s @ p) p = s"
  by (simp add: TrimSuffix_def)

lemma HasSuffix_iff: "HasSuffix s p \<longleftrightarrow> (\<exists>t. s = t @ p)"
  unfolding HasSuffix_def by (metis append_take_drop_id append_eq_conv_conj
      diff_le_self length_append le_add2 diff_diff_cancel length_drop diff_add_inverse2 
      append_eq_append_conv add_diff_cancel_right')

section \<open>Lists\<close>

text \<open>Splitting at the first separator is unambiguous when the left part has none.\<close>

lemma append_sep_inject:
  assumes "c \<notin> set xs" and "c \<notin> set xs'" and "xs @ c # ys = xs' @ c # ys'"
  shows "xs = xs' \<and> ys = ys'"
  using assms
proof (induction xs arbitrary: xs')
  case Nil
  then show ?case by (cases xs') auto
next
  case (Cons x xs)
  then show ?case by (cases xs') auto
qed

end
