(* ===== verification/Domain.thy ===== *)
theory Domain
  imports Prelude
begin

text \<open>
  Package \<open>internal/domain\<close>: the avatar record, the two status machines, the thumbnail
  sizes and the storage keys. The textual form of a UUID comes from a third-party package
  and is a parameter, \<open>us\<close>, of every definition that prints one; the interface
  \<open>uuid_text\<close> states what the program relies on.
\<close>

section \<open>Statuses\<close>

datatype UploadStatus = UploadStatusUploading | UploadStatusUploaded | UploadStatusFailed

definition UploadStatus_AllowedFrom :: "UploadStatus \<Rightarrow> UploadStatus list" where
  "UploadStatus_AllowedFrom s =
     (case s of
        UploadStatusUploaded \<Rightarrow> [UploadStatusUploading]
      | UploadStatusFailed \<Rightarrow> [UploadStatusUploading]
      | _ \<Rightarrow> [])"

datatype ProcessingStatus =
    ProcessingStatusPending | ProcessingStatusProcessing
  | ProcessingStatusCompleted | ProcessingStatusFailed

definition ProcessingStatus_AllowedFrom :: "ProcessingStatus \<Rightarrow> ProcessingStatus list" where
  "ProcessingStatus_AllowedFrom s =
     (case s of
        ProcessingStatusProcessing \<Rightarrow> [ProcessingStatusPending, ProcessingStatusProcessing]
      | ProcessingStatusCompleted \<Rightarrow> [ProcessingStatusProcessing]
      | ProcessingStatusFailed \<Rightarrow> [ProcessingStatusPending, ProcessingStatusProcessing]
      | _ \<Rightarrow> [])"

section \<open>Thumbnail sizes\<close>

text \<open>A size is its text, as in the source; the empty text stands for the original.\<close>

type_synonym ThumbnailSize = string

definition ThumbnailSmall :: ThumbnailSize where "ThumbnailSmall = ''100x100''"
definition ThumbnailMedium :: ThumbnailSize where "ThumbnailMedium = ''300x300''"
definition SizeOriginal :: string where "SizeOriginal = ''original''"

definition smallSide :: int where "smallSide = 100"
definition mediumSide :: int where "mediumSide = 300"

definition ThumbnailSizes :: "ThumbnailSize list" where
  "ThumbnailSizes = [ThumbnailSmall, ThumbnailMedium]"

definition Dimensions :: "ThumbnailSize \<Rightarrow> int \<times> int" where
  "Dimensions s =
     (if s = ThumbnailSmall then (smallSide, smallSide)
      else if s = ThumbnailMedium then (mediumSide, mediumSide)
      else (0, 0))"

definition ParseThumbnailSize :: "string \<Rightarrow> error + ThumbnailSize" where
  "ParseThumbnailSize v =
     (if v = '''' \<or> v = SizeOriginal then Inr ''''
      else if v = ThumbnailSmall then Inr ThumbnailSmall
      else if v = ThumbnailMedium then Inr ThumbnailMedium
      else Inl (wrapf (Sentinel ErrUnsupportedSize)))"

section \<open>Storage keys\<close>

definition originalsPrefix :: string where "originalsPrefix = ''originals''"
definition thumbnailsPrefix :: string where "thumbnailsPrefix = ''thumbnails''"

definition OriginalKey :: "(uuid \<Rightarrow> string) \<Rightarrow> uuid \<Rightarrow> string" where
  "OriginalKey us i = originalsPrefix @ ''/'' @ us i"

definition ThumbnailKey :: "(uuid \<Rightarrow> string) \<Rightarrow> uuid \<Rightarrow> ThumbnailSize \<Rightarrow> string" where
  "ThumbnailKey us i sz = thumbnailsPrefix @ ''/'' @ us i @ ''/'' @ sz"

section \<open>Records\<close>

record Avatar =
  ID :: uuid
  UserID :: string
  FileName :: string
  MimeType :: string
  SizeBytes :: int
  Width :: int
  Height :: int
  S3Key :: string
  ThumbnailKeys :: "ThumbnailSize \<rightharpoonup> string"
  AvUploadStatus :: UploadStatus
  AvProcessingStatus :: ProcessingStatus
  RetryCount :: int
  CreatedAt :: time
  UpdatedAt :: time

record NewAvatar =
  n_ID :: uuid
  n_UserID :: string
  n_FileName :: string
  n_MimeType :: string
  n_SizeBytes :: int
  n_Width :: int
  n_Height :: int
  n_S3Key :: string

text \<open>
  An object opened for reading: the bytes a read of the body delivers, and the error that
  ends the stream early, if any.
\<close>

record StoredObject =
  Body :: bytes
  BodyErr :: "lib_error option"
  ETag :: string
  ContentType :: string
  Size :: int

text \<open>\<open>Avatar.Thumbnail\<close>: \<open>None\<close> is the second result \<open>false\<close>.\<close>

definition Thumbnail :: "Avatar \<Rightarrow> ThumbnailSize \<Rightarrow> string option" where
  "Thumbnail a sz =
     (if AvProcessingStatus a \<noteq> ProcessingStatusCompleted then None
      else ThumbnailKeys a sz)"

definition StorageKeys :: "(uuid \<Rightarrow> string) \<Rightarrow> Avatar \<Rightarrow> string list" where
  "StorageKeys us a = S3Key a # map (ThumbnailKey us (ID a)) ThumbnailSizes"

lemmas status_defs = UploadStatus_AllowedFrom_def ProcessingStatus_AllowedFrom_def
lemmas size_defs = ThumbnailSizes_def ThumbnailSmall_def ThumbnailMedium_def SizeOriginal_def
lemmas key_defs = OriginalKey_def ThumbnailKey_def originalsPrefix_def thumbnailsPrefix_def

section \<open>The status machines\<close>

text \<open>
  One step of each status column: a status may be entered from the statuses its
  \<open>AllowedFrom\<close> lists.
\<close>

inductive upload_step :: "UploadStatus \<Rightarrow> UploadStatus \<Rightarrow> bool" where
  "s \<in> set (UploadStatus_AllowedFrom t) \<Longrightarrow> upload_step s t"

inductive processing_step :: "ProcessingStatus \<Rightarrow> ProcessingStatus \<Rightarrow> bool" where
  "s \<in> set (ProcessingStatus_AllowedFrom t) \<Longrightarrow> processing_step s t"

inductive_simps upload_step_iff: "upload_step s t"
inductive_simps processing_step_iff: "processing_step s t"

lemma upload_step_terminal:
  "upload_step s t \<Longrightarrow> s = UploadStatusUploading \<and> t \<noteq> UploadStatusUploading"
  by (cases t) (auto simp: upload_step_iff status_defs)

lemma processing_step_terminal:
  assumes "processing_step s t"
  shows "s \<noteq> ProcessingStatusCompleted \<and> s \<noteq> ProcessingStatusFailed
    \<and> t \<noteq> ProcessingStatusPending"
  using assms by (cases t) (auto simp: processing_step_iff status_defs)

lemma upload_run_terminal:
  assumes "upload_step\<^sup>*\<^sup>* s t" and "s \<noteq> UploadStatusUploading"
  shows "t = s"
  using assms by (induction rule: converse_rtranclp_induct) (auto dest: upload_step_terminal)

lemma processing_run_terminal:
  assumes "processing_step\<^sup>*\<^sup>* s t"
    and "s = ProcessingStatusCompleted \<or> s = ProcessingStatusFailed"
  shows "t = s"
  using assms by (induction rule: converse_rtranclp_induct) (auto dest: processing_step_terminal)

text \<open>Every run into \<open>completed\<close> passes through \<open>processing\<close>.\<close>

lemma processing_run_completed:
  assumes "processing_step\<^sup>*\<^sup>* s ProcessingStatusCompleted" and "s \<noteq> ProcessingStatusCompleted"
  shows "processing_step\<^sup>*\<^sup>* s ProcessingStatusProcessing"
proof -
  from assms obtain t where run: "processing_step\<^sup>*\<^sup>* s t"
    and last: "processing_step t ProcessingStatusCompleted"
    by (auto elim: rtranclp.cases)
  from last have "t = ProcessingStatusProcessing"
    by (simp add: processing_step_iff status_defs)
  with run show ?thesis by simp
qed

section \<open>Sizes\<close>

lemma ThumbnailSizes_set [simp]:
  "sz \<in> set ThumbnailSizes \<longleftrightarrow> sz = ThumbnailSmall \<or> sz = ThumbnailMedium"
  by (simp add: ThumbnailSizes_def)

lemma sizes_distinct [simp]:
  "ThumbnailSmall \<noteq> ThumbnailMedium" "ThumbnailMedium \<noteq> ThumbnailSmall"
  "ThumbnailSmall \<noteq> []" "ThumbnailMedium \<noteq> []" "ThumbnailSmall \<noteq> SizeOriginal"
  "ThumbnailMedium \<noteq> SizeOriginal" "[] \<noteq> ThumbnailSmall" "[] \<noteq> ThumbnailMedium"
  by (simp_all add: size_defs)

lemma ParseThumbnailSize_cases:
  "ParseThumbnailSize v = Inr sz \<longleftrightarrow>
     (v \<in> {'''', SizeOriginal} \<and> sz = '''') \<or> (v \<in> set ThumbnailSizes \<and> sz = v)"
  by (auto simp: ParseThumbnailSize_def)

lemma ParseThumbnailSize_error:
  "ParseThumbnailSize v = Inl e \<Longrightarrow> errors_Is e s \<longleftrightarrow> s = ErrUnsupportedSize"
  by (auto simp: ParseThumbnailSize_def split: if_splits)

section \<open>Keys\<close>

text \<open>
  What the program relies on in \<open>google/uuid\<close>: parsing the printed form gives the
  identifier back, and the printed form has no slash.
\<close>

locale uuid_text =
  fixes us :: "uuid \<Rightarrow> string" and up :: "string \<Rightarrow> uuid option"
  assumes parse_String: "up (us i) = Some i"
    and String_no_slash: "CHR ''/'' \<notin> set (us i)"
begin

lemma String_inject [simp]: "us i = us j \<longleftrightarrow> i = j"
  by (metis option.inject parse_String)

lemma OriginalKey_inject: "OriginalKey us i = OriginalKey us j \<longleftrightarrow> i = j"
  by (simp add: OriginalKey_def)

lemma ThumbnailKey_inject:
  "ThumbnailKey us i s = ThumbnailKey us j t \<longleftrightarrow> i = j \<and> s = t"
proof
  assume "ThumbnailKey us i s = ThumbnailKey us j t"
  then have "us i @ CHR ''/'' # s = us j @ CHR ''/'' # t"
    by (simp add: ThumbnailKey_def)
  then show "i = j \<and> s = t"
    using append_sep_inject [OF String_no_slash String_no_slash] by simp
qed simp

lemma OriginalKey_ThumbnailKey: "OriginalKey us i \<noteq> ThumbnailKey us j s"
  by (simp add: key_defs)

lemma StorageKeys_distinct:
  assumes "S3Key a = OriginalKey us (ID a)"
  shows "distinct (StorageKeys us a)"
  using assms
  by (auto simp: StorageKeys_def ThumbnailSizes_def ThumbnailKey_inject OriginalKey_ThumbnailKey)

lemma StorageKeys_disjoint:
  assumes "S3Key a = OriginalKey us (ID a)" and "S3Key b = OriginalKey us (ID b)"
    and "ID a \<noteq> ID b"
  shows "set (StorageKeys us a) \<inter> set (StorageKeys us b) = {}"
  using assms OriginalKey_ThumbnailKey OriginalKey_ThumbnailKey [symmetric]
  by (auto simp: StorageKeys_def ThumbnailSizes_def ThumbnailKey_inject OriginalKey_inject)

end

lemma StorageKeys_set:
  "set (StorageKeys us a) = insert (S3Key a) (ThumbnailKey us (ID a) ` set ThumbnailSizes)"
  by (simp add: StorageKeys_def)

subsection \<open>The documented form of a UUID\<close>

text \<open>
  RFC 4122 prints a UUID as 32 hexadecimal digits in groups of 8, 4, 4, 4 and 12 with dashes
  between them. This instance shows that the interface above can be met; the model itself
  never uses it.
\<close>

unbundle bit_operations_syntax

definition hexdigits :: string where "hexdigits = ''0123456789abcdef''"

definition hexdigit :: "nat \<Rightarrow> char" where "hexdigit n = hexdigits ! n"

definition nibbles :: "nat \<Rightarrow> uuid \<Rightarrow> nat list" where
  "nibbles n u = map (\<lambda>k. unat (take_bit 4 (drop_bit (4 * k) u))) (rev [0..<n])"

definition rfc4122_String :: "uuid \<Rightarrow> string" where
  "rfc4122_String u =
     (let h = map hexdigit (nibbles 32 u)
      in take 8 h @ ''-'' @ take 4 (drop 8 h) @ ''-'' @ take 4 (drop 12 h) @ ''-''
         @ take 4 (drop 16 h) @ ''-'' @ drop 20 h)"

fun hexvalue :: "char \<Rightarrow> nat option" where
  "hexvalue c = (let n = length (takeWhile (\<lambda>d. d \<noteq> c) hexdigits)
                 in if n < 16 then Some n else None)"

fun horner16 :: "uuid \<Rightarrow> nat list \<Rightarrow> uuid" where
  "horner16 acc [] = acc"
| "horner16 acc (d # ds) = horner16 (push_bit 4 acc OR of_nat d) ds"

definition rfc4122_Parse :: "string \<Rightarrow> uuid option" where
  "rfc4122_Parse s =
     map_option (horner16 0) (those (map hexvalue (filter (\<lambda>c. c \<noteq> CHR ''-'') s)))"

lemma nibbles_Suc: "nibbles (Suc n) u = unat (take_bit 4 (drop_bit (4 * n) u)) # nibbles n u"
  by (simp add: nibbles_def)

lemma horner16_nibbles:
  "horner16 acc (nibbles n u) = push_bit (4 * n) acc OR take_bit (4 * n) u"
proof (induction n arbitrary: acc)
  case 0
  then show ?case by (simp add: nibbles_def)
next
  case (Suc n)
  have "horner16 acc (nibbles (Suc n) u) =
      push_bit (4 * n) (push_bit 4 acc OR take_bit 4 (drop_bit (4 * n) u)) OR take_bit (4 * n) u"
    by (simp add: nibbles_Suc Suc.IH)
  also have "\<dots> = push_bit (4 * Suc n) acc OR take_bit (4 * Suc n) u"
  proof (rule bit_eqI)
    fix m
    show "bit (push_bit (4 * n) (push_bit 4 acc OR take_bit 4 (drop_bit (4 * n) u))
        OR take_bit (4 * n) u) m = bit (push_bit (4 * Suc n) acc OR take_bit (4 * Suc n) u) m"
      by (cases "m < 4 * n"; cases "m < 4 * n + 4") (auto simp: bit_simps add.commute dest: bit_imp_le_length)
  qed
  finally show ?case .
qed

lemma nibble_less: "d \<in> set (nibbles n u) \<Longrightarrow> d < 16"
proof -
  have "unat (take_bit 4 w) < 16" for w :: uuid
    using take_bit_nat_less_exp [of 4 "unat w"] by (simp add: unsigned_take_bit_eq)
  then show "d \<in> set (nibbles n u) \<Longrightarrow> d < 16" by (auto simp: nibbles_def)
qed

lemma hexdigit_range:
  assumes "n < 16"
  shows "hexvalue (hexdigit n) = Some n \<and> hexdigit n \<noteq> CHR ''-'' \<and> hexdigit n \<noteq> CHR ''/''"
proof -
  have "\<forall>n\<in>set [0..<16].
      hexvalue (hexdigit n) = Some n \<and> hexdigit n \<noteq> CHR ''-'' \<and> hexdigit n \<noteq> CHR ''/''"
    by code_simp
  with assms show ?thesis by simp
qed

lemma filter_rfc4122:
  "filter (\<lambda>c. c \<noteq> CHR ''-'') (rfc4122_String u) = map hexdigit (nibbles 32 u)"
proof -
  let ?h = "map hexdigit (nibbles 32 u)"
  have nodash: "c \<noteq> CHR ''-''" if "c \<in> set ?h" for c
  proof -
    from that obtain d where "d \<in> set (nibbles 32 u)" and c: "c = hexdigit d" by auto
    then have "d < 16" by (blast intro: nibble_less)
    with c show ?thesis by (simp only: hexdigit_range not_False_eq_True)
  qed
  have clean: "filter (\<lambda>c. c \<noteq> CHR ''-'') xs = xs" if "set xs \<subseteq> set ?h" for xs
  proof (rule filter_True, rule ballI)
    fix c
    assume "c \<in> set xs"
    with that have "c \<in> set ?h" by (rule subsetD)
    then show "c \<noteq> CHR ''-''" by (rule nodash)
  qed
  have sub: "set (take k (drop m ?h)) \<subseteq> set ?h" for k m
    by (meson set_take_subset set_drop_subset subset_trans)
  have step: "drop m xs = take k (drop m xs) @ drop (k + m) xs" for m k and xs :: string
    by (metis append_take_drop_id drop_drop)
  have cut: "?h = take 8 ?h @ take 4 (drop 8 ?h) @ take 4 (drop 12 ?h) @ take 4 (drop 16 ?h)
      @ drop 20 ?h"
    using step [of 0 ?h 8] step [of 8 ?h 4] step [of 12 ?h 4] step [of 16 ?h 4] by simp
  have "filter (\<lambda>c. c \<noteq> CHR ''-'') (rfc4122_String u) =
      take 8 ?h @ take 4 (drop 8 ?h) @ take 4 (drop 12 ?h) @ take 4 (drop 16 ?h) @ drop 20 ?h"
    using clean [OF sub [of 8 0]] clean [OF sub [of 4 8]] clean [OF sub [of 4 12]]
      clean [OF sub [of 4 16]] clean [OF set_drop_subset [of 20 ?h]]
    by (simp add: rfc4122_String_def Let_def)
  with cut show ?thesis by simp
qed

lemma those_map_hexvalue:
  "list_all (\<lambda>n. n < 16) ds \<Longrightarrow> those (map hexvalue (map hexdigit ds)) = Some ds"
  by (induction ds) (auto simp: hexdigit_range simp del: hexvalue.simps)

lemma rfc4122_Parse_String: "rfc4122_Parse (rfc4122_String u) = Some u"
proof -
  have "those (map hexvalue (map hexdigit (nibbles 32 u))) = Some (nibbles 32 u)"
    by (rule those_map_hexvalue) (auto simp: list_all_iff intro: nibble_less)
  moreover have "horner16 0 (nibbles 32 u) = u"
    unfolding horner16_nibbles by (rule bit_eqI) (auto simp: bit_simps)
  ultimately show ?thesis
    unfolding rfc4122_Parse_def filter_rfc4122 by simp
qed

lemma rfc4122_no_slash: "CHR ''/'' \<notin> set (rfc4122_String u)"
proof
  assume "CHR ''/'' \<in> set (rfc4122_String u)"
  then have "CHR ''/'' \<in> set (filter (\<lambda>c. c \<noteq> CHR ''-'') (rfc4122_String u))" by simp
  then obtain d where "d \<in> set (nibbles 32 u)" and c: "hexdigit d = CHR ''/''"
    unfolding filter_rfc4122 by (metis imageE set_map)
  then have "d < 16" by (blast intro: nibble_less)
  with c hexdigit_range [of d] show False by blast
qed

interpretation rfc4122: uuid_text rfc4122_String rfc4122_Parse
  by unfold_locales (simp_all add: rfc4122_Parse_String rfc4122_no_slash)

section \<open>Properties\<close>

text \<open>
  Two avatars never share a file: the keys one avatar's files are stored and removed under
  are pairwise distinct, and disjoint from those of any other avatar, so removing the files of
  one leaves every other alone.
\<close>

theorem storage_keys_disjoint:
  assumes "uuid_text us parse"
    and "S3Key a = OriginalKey us (ID a)" and "S3Key b = OriginalKey us (ID b)" and "ID a \<noteq> ID b"
  shows "distinct (StorageKeys us a) \<and> set (StorageKeys us a) \<inter> set (StorageKeys us b) = {}
    \<and> length (StorageKeys us a) = Suc (length ThumbnailSizes)"
  using uuid_text.StorageKeys_distinct [OF assms(1,2)] uuid_text.StorageKeys_disjoint [OF assms]
  by (simp add: StorageKeys_def)

definition avatar0 :: "uuid \<Rightarrow> Avatar" where
  "avatar0 i = \<lparr>ID = i, UserID = ''alice'', FileName = ''a.jpg'', MimeType = ''image/jpeg'', SizeBytes = 7,
     Width = 1, Height = 1, S3Key = OriginalKey rfc4122_String i, ThumbnailKeys = Map.empty,
     AvUploadStatus = UploadStatusUploaded, AvProcessingStatus = ProcessingStatusPending, RetryCount = 0,
     CreatedAt = 0, UpdatedAt = 0\<rparr>"

theorem storage_keys_disjoint_witness:
  "distinct (StorageKeys rfc4122_String (avatar0 1))
   \<and> set (StorageKeys rfc4122_String (avatar0 1)) \<inter> set (StorageKeys rfc4122_String (avatar0 2)) = {}"
  using storage_keys_disjoint [OF rfc4122.uuid_text_axioms, of "avatar0 1" "avatar0 2"]
  by (simp add: avatar0_def)

text \<open>
  The size a client may ask for: the empty text and \<open>original\<close> mean the original, the two
  thumbnail sizes mean themselves and have positive dimensions, and everything else is refused
  with exactly the error that is reported as an unsupported size.
\<close>

theorem ParseThumbnailSize_exact:
  "case ParseThumbnailSize v of
     Inr sz \<Rightarrow> (v \<in> {'''', SizeOriginal} \<and> sz = '''')
       \<or> (v \<in> set ThumbnailSizes \<and> sz = v \<and> 0 < fst (Dimensions sz) \<and> 0 < snd (Dimensions sz))
   | Inl e \<Rightarrow> v \<notin> {'''', SizeOriginal} \<union> set ThumbnailSizes \<and> {s. errors_Is e s} = {ErrUnsupportedSize}"
  by (auto simp: ParseThumbnailSize_def Dimensions_def smallSide_def mediumSide_def split: if_splits)

end
