(* ===== verification/Postgres.thy ===== *)
theory Postgres
  imports Domain "HOL-Library.Multiset"
begin

text \<open>
  Package \<open>internal/repository/postgres\<close>: the table of avatars, one definition per SQL
  statement of \<open>avatars.go\<close>, the helpers of \<open>postgres.go\<close> that run a statement, and
  the repository's methods.

  The state \<open>pg\<close> is the table together with the environment's answers, indexed by a
  counter of statements: what other processes did to the table before the n-th statement
  (\<open>pg_other\<close>), the value of \<open>NOW()\<close>, whether the statement fails, and the order in which the
  planner hands rows to a sort (\<open>pg_plan\<close>; SQL leaves the order of equal keys open).
  Statements are atomic, as PostgreSQL runs a single statement in its own transaction.
\<close>

section \<open>The table\<close>

record row =
  row_id :: uuid
  user_id :: string
  file_name :: string
  mime_type :: string
  size_bytes :: int
  width :: "int option"
  height :: "int option"
  s3_key :: string
  thumbnail_s3_keys :: "(ThumbnailSize \<rightharpoonup> string) option"
  upload_status :: UploadStatus
  processing_status :: ProcessingStatus
  retry_count :: int
  created_at :: time
  updated_at :: time
  deleted_at :: "time option"
  files_removed_at :: "time option"

type_synonym table = "row list"

text \<open>
  The column limits of the migration: \<open>VARCHAR(n)\<close> counts characters, that is, bytes
  that do not continue a UTF-8 sequence; \<open>INT\<close> and \<open>BIGINT\<close> are signed 32 and 64 bits.
\<close>

definition utf8_length :: "string \<Rightarrow> nat" where
  "utf8_length s = length (filter (\<lambda>c. \<not> ((128::nat) \<le> of_char c \<and> of_char c < (192::nat))) s)"

definition varchar :: "nat \<Rightarrow> string \<Rightarrow> bool" where
  "varchar n s = (utf8_length s \<le> n)"

definition signed_range :: "nat \<Rightarrow> int \<Rightarrow> bool" where
  "signed_range w x = (- (2 ^ (w - 1)) \<le> x \<and> x < 2 ^ (w - 1))"

definition columns_ok :: "NewAvatar \<Rightarrow> bool" where
  "columns_ok a = (varchar 255 (n_UserID a) \<and> varchar 255 (n_FileName a)
     \<and> varchar 100 (n_MimeType a) \<and> varchar 500 (n_S3Key a)
     \<and> signed_range 64 (n_SizeBytes a) \<and> signed_range 32 (n_Width a)
     \<and> signed_range 32 (n_Height a))"

text \<open>
  \<open>avatarColumns\<close> and \<open>scanAvatar\<close>: a row read into the domain record; NULL in the JSON
  column reads as a nil map.
\<close>

definition scanAvatar :: "row \<Rightarrow> Avatar" where
  "scanAvatar r =
     \<lparr>ID = row_id r, UserID = user_id r, FileName = file_name r, MimeType = mime_type r,
      SizeBytes = size_bytes r,
      Width = (case width r of None \<Rightarrow> 0 | Some w \<Rightarrow> w),
      Height = (case height r of None \<Rightarrow> 0 | Some h \<Rightarrow> h),
      S3Key = s3_key r,
      ThumbnailKeys = (case thumbnail_s3_keys r of None \<Rightarrow> Map.empty | Some m \<Rightarrow> m),
      AvUploadStatus = upload_status r, AvProcessingStatus = processing_status r,
      RetryCount = retry_count r, CreatedAt = created_at r, UpdatedAt = updated_at r\<rparr>"

section \<open>SQL statements\<close>

definition live :: "row \<Rightarrow> bool" where
  "live r = (deleted_at r = None)"

text \<open>\<open>UPDATE avatars SET f WHERE P\<close>, with the number of rows affected.\<close>

definition update_where :: "(row \<Rightarrow> bool) \<Rightarrow> (row \<Rightarrow> row) \<Rightarrow> table \<Rightarrow> table \<times> nat" where
  "update_where P f t = (map (\<lambda>r. if P r then f r else r) t, length (filter P t))"

text \<open>The row an insert creates: the columns it leaves out take their defaults.\<close>

definition new_row :: "time \<Rightarrow> NewAvatar \<Rightarrow> row" where
  "new_row now a =
     \<lparr>row_id = n_ID a, user_id = n_UserID a, file_name = n_FileName a, mime_type = n_MimeType a,
      size_bytes = n_SizeBytes a, width = Some (n_Width a), height = Some (n_Height a),
      s3_key = n_S3Key a, thumbnail_s3_keys = None,
      upload_status = UploadStatusUploading, processing_status = ProcessingStatusPending,
      retry_count = 0, created_at = now, updated_at = now,
      deleted_at = None, files_removed_at = None\<rparr>"

text \<open>\<open>None\<close>: the primary key or a column limit refuses the row, the table is unchanged.\<close>

definition createAvatarQuery :: "NewAvatar \<Rightarrow> time \<Rightarrow> table \<Rightarrow> (table \<times> row) option" where
  "createAvatarQuery a now t =
     (if n_ID a \<in> row_id ` set t \<or> \<not> columns_ok a then None
      else Some (t @ [new_row now a], new_row now a))"

definition getAvatarQuery :: "uuid \<Rightarrow> table \<Rightarrow> row list" where
  "getAvatarQuery i t = filter (\<lambda>r. row_id r = i \<and> live r) t"

definition user_rows :: "string \<Rightarrow> UploadStatus \<Rightarrow> table \<Rightarrow> row list" where
  "user_rows u s t = filter (\<lambda>r. user_id r = u \<and> live r \<and> upload_status r = s) t"

definition listUserAvatarsQuery ::
  "(row list \<Rightarrow> row list) \<Rightarrow> string \<Rightarrow> UploadStatus \<Rightarrow> table \<Rightarrow> row list" where
  "listUserAvatarsQuery plan u s t = sort_key (\<lambda>r. - created_at r) (plan (user_rows u s t))"

definition getCurrentAvatarQuery ::
  "(row list \<Rightarrow> row list) \<Rightarrow> string \<Rightarrow> UploadStatus \<Rightarrow> table \<Rightarrow> row list" where
  "getCurrentAvatarQuery plan u s t =
     take 1 (sort_key (\<lambda>r. - created_at r) (plan (user_rows u s t)))"

definition is_stuck :: "UploadStatus \<Rightarrow> ProcessingStatus \<Rightarrow> time \<Rightarrow> row \<Rightarrow> bool" where
  "is_stuck s p before r =
     (upload_status r = s \<and> processing_status r = p \<and> live r \<and> updated_at r < before)"

definition selectStuckQuery ::
  "(row list \<Rightarrow> row list) \<Rightarrow> UploadStatus \<Rightarrow> ProcessingStatus \<Rightarrow> time \<Rightarrow> int \<Rightarrow> table \<Rightarrow> row list" where
  "selectStuckQuery plan s p before limit t =
     take (nat limit) (sort_key updated_at (plan (filter (is_stuck s p before) t)))"

definition is_uncleaned :: "time \<Rightarrow> row \<Rightarrow> bool" where
  "is_uncleaned before r =
     (files_removed_at r = None \<and> (deleted_at r \<noteq> None \<or> upload_status r = UploadStatusFailed)
      \<and> updated_at r < before)"

definition selectUncleanedQuery ::
  "(row list \<Rightarrow> row list) \<Rightarrow> time \<Rightarrow> int \<Rightarrow> table \<Rightarrow> row list" where
  "selectUncleanedQuery plan before limit t =
     take (nat limit) (sort_key updated_at (plan (filter (is_uncleaned before) t)))"

definition failStaleUploadsQuery ::
  "UploadStatus \<Rightarrow> UploadStatus \<Rightarrow> time \<Rightarrow> time \<Rightarrow> table \<Rightarrow> table \<times> nat" where
  "failStaleUploadsQuery to from before now =
     update_where (\<lambda>r. upload_status r = from \<and> live r \<and> updated_at r < before)
       (\<lambda>r. r\<lparr>upload_status := to, updated_at := now\<rparr>)"

definition markFilesRemovedQuery :: "uuid \<Rightarrow> time \<Rightarrow> table \<Rightarrow> table \<times> nat" where
  "markFilesRemovedQuery i now =
     update_where (\<lambda>r. row_id r = i)
       (\<lambda>r. r\<lparr>files_removed_at :=
          (case files_removed_at r of Some s \<Rightarrow> Some s | None \<Rightarrow> Some now)\<rparr>)"

definition setUploadStatusQuery ::
  "uuid \<Rightarrow> UploadStatus \<Rightarrow> UploadStatus list \<Rightarrow> time \<Rightarrow> table \<Rightarrow> table \<times> nat" where
  "setUploadStatusQuery i s from now =
     update_where (\<lambda>r. row_id r = i \<and> live r \<and> upload_status r \<in> set from)
       (\<lambda>r. r\<lparr>upload_status := s, updated_at := now\<rparr>)"

definition setProcessingStatusQuery ::
  "uuid \<Rightarrow> ProcessingStatus \<Rightarrow> ProcessingStatus list \<Rightarrow> time \<Rightarrow> table \<Rightarrow> table \<times> nat" where
  "setProcessingStatusQuery i s from now =
     update_where (\<lambda>r. row_id r = i \<and> live r \<and> processing_status r \<in> set from)
       (\<lambda>r. r\<lparr>processing_status := s, updated_at := now\<rparr>)"

definition completeProcessingQuery ::
  "uuid \<Rightarrow> (ThumbnailSize \<rightharpoonup> string) \<Rightarrow> ProcessingStatus \<Rightarrow> ProcessingStatus list
     \<Rightarrow> time \<Rightarrow> table \<Rightarrow> table \<times> nat" where
  "completeProcessingQuery i keys s from now =
     update_where (\<lambda>r. row_id r = i \<and> live r \<and> processing_status r \<in> set from)
       (\<lambda>r. r\<lparr>thumbnail_s3_keys := Some keys, processing_status := s, updated_at := now\<rparr>)"

definition avatarExistsQuery :: "uuid \<Rightarrow> table \<Rightarrow> row list" where
  "avatarExistsQuery i t = filter (\<lambda>r. row_id r = i \<and> live r) t"

definition incrementRetryQuery :: "uuid \<Rightarrow> time \<Rightarrow> table \<Rightarrow> table \<times> nat" where
  "incrementRetryQuery i now =
     update_where (\<lambda>r. row_id r = i \<and> live r)
       (\<lambda>r. r\<lparr>retry_count := retry_count r + 1, updated_at := now\<rparr>)"

definition softDeleteQuery :: "uuid \<Rightarrow> time \<Rightarrow> table \<Rightarrow> table \<times> nat" where
  "softDeleteQuery i now =
     update_where (\<lambda>r. row_id r = i \<and> live r)
       (\<lambda>r. r\<lparr>deleted_at := Some now, updated_at := now\<rparr>)"

definition storageBytesQuery :: "table \<Rightarrow> int" where
  "storageBytesQuery t = sum_list (map size_bytes (filter live t))"

lemmas sql_defs = failStaleUploadsQuery_def markFilesRemovedQuery_def setUploadStatusQuery_def
  setProcessingStatusQuery_def completeProcessingQuery_def incrementRetryQuery_def
  softDeleteQuery_def

section \<open>Running a statement\<close>

record pg =
  pg_tbl :: table
  pg_other :: "nat \<Rightarrow> table \<Rightarrow> table"
  pg_now :: "nat \<Rightarrow> time"
  pg_fault :: "nat \<Rightarrow> fault"
  pg_plan :: "nat \<Rightarrow> row list \<Rightarrow> row list"
  pg_tick :: nat

text \<open>The table the next statement sees.\<close>

definition snapshot :: "pg \<Rightarrow> table" where
  "snapshot p = pg_other p (pg_tick p) (pg_tbl p)"

definition pg_next :: "table \<Rightarrow> pg \<Rightarrow> pg" where
  "pg_next t p = p\<lparr>pg_tbl := t, pg_tick := Suc (pg_tick p)\<rparr>"

text \<open>\<open>pool.Exec\<close> on an update: the number of rows affected, or the driver's error.\<close>

definition pool_Exec :: "(time \<Rightarrow> table \<Rightarrow> table \<times> nat) \<Rightarrow> pg \<Rightarrow> (error + nat) \<times> pg" where
  "pool_Exec stmt p =
     (let t = snapshot p; (t', n) = stmt (pg_now p (pg_tick p)) t
      in case pg_fault p (pg_tick p) of
           NoFault \<Rightarrow> (Inr n, pg_next t' p)
         | FailBefore e \<Rightarrow> (Inl (lib_err e), pg_next t p)
         | FailAfter _ e \<Rightarrow> (Inl (lib_err e), pg_next t' p))"

text \<open>
  \<open>pool.QueryRow(...).Scan\<close> on a select: the first row of the result, \<open>None\<close> for
  \<open>pgx.ErrNoRows\<close>, or the driver's error.
\<close>

definition pool_QueryRow :: "((row list \<Rightarrow> row list) \<Rightarrow> table \<Rightarrow> row list) \<Rightarrow> pg
    \<Rightarrow> (error + row option) \<times> pg" where
  "pool_QueryRow q p =
     (let t = snapshot p
      in case pg_fault p (pg_tick p) of
           NoFault \<Rightarrow>
             (Inr (case q (pg_plan p (pg_tick p)) t of [] \<Rightarrow> None | r # _ \<Rightarrow> Some r), pg_next t p)
         | FailBefore e \<Rightarrow> (Inl (lib_err e), pg_next t p)
         | FailAfter _ e \<Rightarrow> (Inl (lib_err e), pg_next t p))"

definition exec :: "(time \<Rightarrow> table \<Rightarrow> table \<times> nat) \<Rightarrow> pg \<Rightarrow> error option \<times> pg" where
  "exec stmt p =
     (case pool_Exec stmt p of
        (Inl e, p') \<Rightarrow> (Some e, p')
      | (Inr n, p') \<Rightarrow> (if n = 0 then Some (Sentinel ErrNotFound) else None, p'))"

definition transitionError :: "uuid \<Rightarrow> pg \<Rightarrow> error option \<times> pg" where
  "transitionError i p =
     (case pool_QueryRow (\<lambda>_. avatarExistsQuery i) p of
        (Inr None, p') \<Rightarrow> (Some (Sentinel ErrNotFound), p')
      | (Inl e, p') \<Rightarrow> (Some e, p')
      | (Inr (Some _), p') \<Rightarrow> (Some (Sentinel ErrInvalidTransition), p'))"

definition execTransition ::
  "uuid \<Rightarrow> (time \<Rightarrow> table \<Rightarrow> table \<times> nat) \<Rightarrow> pg \<Rightarrow> error option \<times> pg" where
  "execTransition i stmt p =
     (let (err, p') = exec stmt p
      in case err of
           None \<Rightarrow> (None, p')
         | Some e \<Rightarrow> if errors_Is e ErrNotFound then transitionError i p' else (Some e, p'))"

definition queryOne :: "((row list \<Rightarrow> row list) \<Rightarrow> table \<Rightarrow> row list) \<Rightarrow> pg
    \<Rightarrow> (error + Avatar) \<times> pg" where
  "queryOne q p =
     (case pool_QueryRow q p of
        (Inl e, p') \<Rightarrow> (Inl (wrapf e), p')
      | (Inr None, p') \<Rightarrow> (Inl (Sentinel ErrNotFound), p')
      | (Inr (Some r), p') \<Rightarrow> (Inr (scanAvatar r), p'))"

text \<open>
  \<open>queryMany\<close>: the sequence of values the iterator yields. The rows are those of the
  snapshot the query saw; an error ends the sequence.
\<close>

definition queryMany :: "((row list \<Rightarrow> row list) \<Rightarrow> table \<Rightarrow> row list) \<Rightarrow> pg
    \<Rightarrow> (error + Avatar) list \<times> pg" where
  "queryMany q p =
     (let t = snapshot p; avs = map (\<lambda>r. Inr (scanAvatar r)) (q (pg_plan p (pg_tick p)) t)
      in case pg_fault p (pg_tick p) of
           NoFault \<Rightarrow> (avs, pg_next t p)
         | FailBefore e \<Rightarrow> ([Inl (wrapf (lib_err e))], pg_next t p)
         | FailAfter k e \<Rightarrow> (take k avs @ [Inl (wrapf (lib_err e))], pg_next t p))"

definition failedSeq :: "error \<Rightarrow> (error + Avatar) list" where
  "failedSeq e = [Inl e]"

text \<open>\<open>fmt.Errorf("...: %w", err)\<close> around a non-nil error.\<close>

definition wrap_opt :: "error option \<times> 'w \<Rightarrow> error option \<times> 'w" where
  "wrap_opt r = (map_option wrapf (fst r), snd r)"

definition wrap_res :: "(error + 'a) \<times> 'w \<Rightarrow> (error + 'a) \<times> 'w" where
  "wrap_res r = ((case fst r of Inl e \<Rightarrow> Inl (wrapf e) | Inr x \<Rightarrow> Inr x), snd r)"

section \<open>The repository's methods\<close>

definition pg_Create :: "NewAvatar \<Rightarrow> pg \<Rightarrow> (error + Avatar) \<times> pg" where
  "pg_Create a p =
     (let t = snapshot p; q = createAvatarQuery a (pg_now p (pg_tick p)) t
      in case pg_fault p (pg_tick p) of
           NoFault \<Rightarrow>
             (case q of None \<Rightarrow> (Inl (wrapf (wrapf ErrText)), pg_next t p)
              | Some (t', r) \<Rightarrow> (Inr (scanAvatar r), pg_next t' p))
         | FailBefore e \<Rightarrow> (Inl (wrapf (wrapf (lib_err e))), pg_next t p)
         | FailAfter _ e \<Rightarrow>
             (Inl (wrapf (wrapf (lib_err e))),
              pg_next (case q of None \<Rightarrow> t | Some (t', r) \<Rightarrow> t') p))"

definition pg_Get :: "uuid \<Rightarrow> pg \<Rightarrow> (error + Avatar) \<times> pg" where
  "pg_Get i p = wrap_res (queryOne (\<lambda>_. getAvatarQuery i) p)"

definition pg_GetCurrent :: "string \<Rightarrow> pg \<Rightarrow> (error + Avatar) \<times> pg" where
  "pg_GetCurrent u p =
     wrap_res (queryOne (\<lambda>plan. getCurrentAvatarQuery plan u UploadStatusUploaded) p)"

definition pg_ListByUser :: "string \<Rightarrow> pg \<Rightarrow> (error + Avatar) list \<times> pg" where
  "pg_ListByUser u p = queryMany (\<lambda>plan. listUserAvatarsQuery plan u UploadStatusUploaded) p"

definition pg_SelectStuck :: "time \<Rightarrow> int \<Rightarrow> pg \<Rightarrow> (error + Avatar) list \<times> pg" where
  "pg_SelectStuck before limit p =
     (if limit \<le> 0 then (failedSeq ErrText, p)
      else queryMany (\<lambda>plan. selectStuckQuery plan UploadStatusUploaded
             ProcessingStatusPending before limit) p)"

definition pg_SelectUncleaned :: "time \<Rightarrow> int \<Rightarrow> pg \<Rightarrow> (error + Avatar) list \<times> pg" where
  "pg_SelectUncleaned before limit p =
     (if limit \<le> 0 then (failedSeq ErrText, p)
      else queryMany (\<lambda>plan. selectUncleanedQuery plan before limit) p)"

definition pg_FailStaleUploads :: "time \<Rightarrow> pg \<Rightarrow> (error + nat) \<times> pg" where
  "pg_FailStaleUploads before p =
     wrap_res (pool_Exec
       (failStaleUploadsQuery UploadStatusFailed UploadStatusUploading before) p)"

definition pg_MarkFilesRemoved :: "uuid \<Rightarrow> pg \<Rightarrow> error option \<times> pg" where
  "pg_MarkFilesRemoved i p = wrap_opt (exec (markFilesRemovedQuery i) p)"

definition pg_SetUploadStatus :: "uuid \<Rightarrow> UploadStatus \<Rightarrow> pg \<Rightarrow> error option \<times> pg" where
  "pg_SetUploadStatus i s p =
     wrap_opt (execTransition i (setUploadStatusQuery i s (UploadStatus_AllowedFrom s)) p)"

definition pg_SetProcessingStatus :: "uuid \<Rightarrow> ProcessingStatus \<Rightarrow> pg \<Rightarrow> error option \<times> pg" where
  "pg_SetProcessingStatus i s p =
     wrap_opt (execTransition i (setProcessingStatusQuery i s (ProcessingStatus_AllowedFrom s)) p)"

definition pg_CompleteProcessing ::
  "uuid \<Rightarrow> (ThumbnailSize \<rightharpoonup> string) \<Rightarrow> pg \<Rightarrow> error option \<times> pg" where
  "pg_CompleteProcessing i keys p =
     wrap_opt (execTransition i
       (completeProcessingQuery i keys ProcessingStatusCompleted
          (ProcessingStatus_AllowedFrom ProcessingStatusCompleted)) p)"

definition pg_IncrementRetry :: "uuid \<Rightarrow> pg \<Rightarrow> error option \<times> pg" where
  "pg_IncrementRetry i p = wrap_opt (exec (incrementRetryQuery i) p)"

definition pg_SoftDelete :: "uuid \<Rightarrow> pg \<Rightarrow> error option \<times> pg" where
  "pg_SoftDelete i p = wrap_opt (exec (softDeleteQuery i) p)"

definition pg_StorageBytes :: "pg \<Rightarrow> (error + int) \<times> pg" where
  "pg_StorageBytes p =
     (case pg_fault p (pg_tick p) of
        NoFault \<Rightarrow> (Inr (storageBytesQuery (snapshot p)), pg_next (snapshot p) p)
      | FailBefore e \<Rightarrow> (Inl (wrapf (lib_err e)), pg_next (snapshot p) p)
      | FailAfter _ e \<Rightarrow> (Inl (wrapf (lib_err e)), pg_next (snapshot p) p))"


section \<open>Statements as steps of the table\<close>

text \<open>
  Every statement the program runs against the table, whichever process runs it. A step
  picks a statement and the value of \<open>NOW()\<close>; a schedule of any number of processes is
  a sequence of steps.
\<close>

datatype statement =
    StCreate NewAvatar
  | StFailStale time
  | StMarkRemoved uuid
  | StSetUpload uuid UploadStatus
  | StSetProcessing uuid ProcessingStatus
  | StComplete uuid "ThumbnailSize \<rightharpoonup> string"
  | StIncrementRetry uuid
  | StSoftDelete uuid

fun statement_effect :: "statement \<Rightarrow> time \<Rightarrow> table \<Rightarrow> table" where
  "statement_effect (StCreate a) now t =
     (case createAvatarQuery a now t of None \<Rightarrow> t | Some (t', _) \<Rightarrow> t')"
| "statement_effect (StFailStale before) now t =
     fst (failStaleUploadsQuery UploadStatusFailed UploadStatusUploading before now t)"
| "statement_effect (StMarkRemoved i) now t = fst (markFilesRemovedQuery i now t)"
| "statement_effect (StSetUpload i s) now t =
     fst (setUploadStatusQuery i s (UploadStatus_AllowedFrom s) now t)"
| "statement_effect (StSetProcessing i s) now t =
     fst (setProcessingStatusQuery i s (ProcessingStatus_AllowedFrom s) now t)"
| "statement_effect (StComplete i keys) now t =
     fst (completeProcessingQuery i keys ProcessingStatusCompleted
       (ProcessingStatus_AllowedFrom ProcessingStatusCompleted) now t)"
| "statement_effect (StIncrementRetry i) now t = fst (incrementRetryQuery i now t)"
| "statement_effect (StSoftDelete i) now t = fst (softDeleteQuery i now t)"

text \<open>
  The callers never ask for \<open>completed\<close> through \<open>SetProcessingStatus\<close>: the worker calls it
  with \<open>processing\<close> and \<open>failed\<close> only, and completes with \<open>CompleteProcessing\<close>.
\<close>

fun issued :: "statement \<Rightarrow> bool" where
  "issued (StSetProcessing i s) = (s \<noteq> ProcessingStatusCompleted)"
| "issued _ = True"

inductive db_step :: "table \<Rightarrow> table \<Rightarrow> bool" where
  db_step: "issued st \<Longrightarrow> db_step t (statement_effect st now t)"

inductive_cases db_stepE: "db_step t t'"

section \<open>Updates by condition\<close>

lemma update_where_fst [simp]:
  "fst (update_where P f t) = map (\<lambda>r. if P r then f r else r) t"
  by (simp add: update_where_def)

lemma update_where_snd [simp]: "snd (update_where P f t) = length (filter P t)"
  by (simp add: update_where_def)

definition find_row :: "uuid \<Rightarrow> table \<Rightarrow> row option" where
  "find_row i t = find (\<lambda>r. row_id r = i) t"

definition ids_distinct :: "table \<Rightarrow> bool" where
  "ids_distinct t = distinct (map row_id t)"

lemma find_row_Some: "find_row i t = Some r \<Longrightarrow> r \<in> set t \<and> row_id r = i"
  by (auto simp: find_row_def find_Some_iff)

lemma find_row_None: "find_row i t = None \<longleftrightarrow> i \<notin> row_id ` set t"
  by (auto simp: find_row_def find_None_iff)

lemma find_row_member:
  "ids_distinct t \<Longrightarrow> r \<in> set t \<Longrightarrow> find_row (row_id r) t = Some r"
  by (induction t) (auto simp: find_row_def ids_distinct_def image_iff)

lemma ids_distinct_map [simp]:
  "(\<And>r. row_id (f r) = row_id r) \<Longrightarrow> ids_distinct (map f t) = ids_distinct t"
  by (simp add: ids_distinct_def comp_def)

lemma find_row_map:
  "(\<And>r. row_id (f r) = row_id r) \<Longrightarrow> find_row i (map f t) = map_option f (find_row i t)"
  by (induction t) (auto simp: find_row_def)

lemma find_row_snoc:
  "find_row i (t @ [r]) =
     (case find_row i t of Some x \<Rightarrow> Some x | None \<Rightarrow> if row_id r = i then Some r else None)"
  by (induction t) (auto simp: find_row_def)

lemma filter_by_id:
  assumes "ids_distinct t"
  shows "filter (\<lambda>r. row_id r = i \<and> P r) t =
    (case find_row i t of Some r \<Rightarrow> if P r then [r] else [] | None \<Rightarrow> [])"
  using assms
proof (induction t)
  case Nil
  then show ?case by (simp add: find_row_def)
next
  case (Cons x t)
  show ?case
  proof (cases "row_id x = i")
    case True
    with Cons.prems have "filter (\<lambda>r. row_id r = i \<and> P r) t = []"
      by (auto simp: ids_distinct_def filter_empty_conv image_iff)
    with True show ?thesis by (simp add: find_row_def)
  next
    case False
    with Cons show ?thesis by (simp add: find_row_def ids_distinct_def)
  qed
qed

lemma row_id_updates [simp]:
  "row_id (if P r then f r else r) = row_id r \<longleftrightarrow> (P r \<longrightarrow> row_id (f r) = row_id r)"
  by simp

section \<open>The life of a row\<close>

text \<open>
  How one row may evolve: the columns written at creation never change, each status moves
  along its machine and only while the row is live, a deletion mark and a clean-up mark stay,
  the thumbnails are written together with \<open>completed\<close> and stay as written.
\<close>

definition row_evolves :: "row \<Rightarrow> row \<Rightarrow> bool" where
  "row_evolves r r' \<longleftrightarrow>
     row_id r' = row_id r \<and> user_id r' = user_id r \<and> file_name r' = file_name r
   \<and> mime_type r' = mime_type r \<and> size_bytes r' = size_bytes r
   \<and> width r' = width r \<and> height r' = height r
   \<and> s3_key r' = s3_key r \<and> created_at r' = created_at r
   \<and> upload_step\<^sup>*\<^sup>* (upload_status r) (upload_status r')
   \<and> processing_step\<^sup>*\<^sup>* (processing_status r) (processing_status r')
   \<and> (deleted_at r \<noteq> None \<longrightarrow> deleted_at r' = deleted_at r \<and> upload_status r' = upload_status r
        \<and> processing_status r' = processing_status r \<and> retry_count r' = retry_count r)
   \<and> (files_removed_at r \<noteq> None \<longrightarrow> files_removed_at r' = files_removed_at r)
   \<and> retry_count r \<le> retry_count r'
   \<and> (processing_status r = ProcessingStatusCompleted \<longrightarrow>
        thumbnail_s3_keys r' = thumbnail_s3_keys r)"

lemma row_evolves_refl [simp, intro]: "row_evolves r r"
  by (simp add: row_evolves_def)

lemma row_evolves_trans [trans]:
  assumes "row_evolves r s" and "row_evolves s t"
  shows "row_evolves r t"
proof -
  have "upload_step\<^sup>*\<^sup>* (upload_status r) (upload_status t)"
    and "processing_step\<^sup>*\<^sup>* (processing_status r) (processing_status t)"
    using assms unfolding row_evolves_def by (meson rtranclp_trans)+
  moreover have "processing_status r = ProcessingStatusCompleted \<Longrightarrow>
      thumbnail_s3_keys t = thumbnail_s3_keys r"
    using assms processing_run_terminal unfolding row_evolves_def by metis
  ultimately show ?thesis
    using assms unfolding row_evolves_def by auto
qed

definition rows_evolve :: "table \<Rightarrow> table \<Rightarrow> bool" where
  "rows_evolve t t' \<longleftrightarrow>
     (\<forall>i r. find_row i t = Some r \<longrightarrow> (\<exists>r'. find_row i t' = Some r' \<and> row_evolves r r'))"

lemma rows_evolve_trans:
  "rows_evolve t u \<Longrightarrow> rows_evolve u v \<Longrightarrow> rows_evolve t v"
  unfolding rows_evolve_def by (meson row_evolves_trans)

lemma rows_evolve_update:
  assumes "\<And>r. P r \<Longrightarrow> row_evolves r (f r)"
  shows "rows_evolve t (fst (update_where P f t))"
proof -
  have ev: "row_evolves r (if P r then f r else r)" for r
    using assms by simp
  then have "row_id (if P r then f r else r) = row_id r" for r
    unfolding row_evolves_def by blast
  then have "find_row i (fst (update_where P f t)) =
      map_option (\<lambda>r. if P r then f r else r) (find_row i t)" for i
    unfolding update_where_fst by (rule find_row_map)
  with ev show ?thesis by (simp add: rows_evolve_def)
qed

lemma upload_step_run:
  "s \<in> set (UploadStatus_AllowedFrom t) \<Longrightarrow> upload_step\<^sup>*\<^sup>* s t"
  by (blast intro: upload_step.intros r_into_rtranclp)

lemma processing_step_run:
  "s \<in> set (ProcessingStatus_AllowedFrom t) \<Longrightarrow> processing_step\<^sup>*\<^sup>* s t"
  by (blast intro: processing_step.intros r_into_rtranclp)

lemma allowed_not_completed:
  "ProcessingStatusCompleted \<notin> set (ProcessingStatus_AllowedFrom s)"
  by (cases s) (simp_all add: status_defs)

lemma uploading_to_failed: "upload_step\<^sup>*\<^sup>* UploadStatusUploading UploadStatusFailed"
  by (rule upload_step_run) (simp add: status_defs)

lemma statement_rows_evolve: "rows_evolve t (statement_effect st now t)"
proof (cases st)
  case (StCreate a)
  then show ?thesis
    by (auto simp: createAvatarQuery_def rows_evolve_def find_row_snoc)
next
  case (StFailStale before)
  then show ?thesis
    by (auto simp: sql_defs row_evolves_def live_def uploading_to_failed
        simp del: update_where_fst intro!: rows_evolve_update)
next
  case (StSetUpload i s)
  then show ?thesis
    by (auto simp: sql_defs row_evolves_def live_def
        simp del: update_where_fst intro!: rows_evolve_update upload_step_run)
next
  case (StSetProcessing i s)
  then show ?thesis
    by (auto simp: sql_defs row_evolves_def live_def
        simp del: update_where_fst intro!: rows_evolve_update processing_step_run)
next
  case (StComplete i keys)
  then show ?thesis
    using allowed_not_completed [of ProcessingStatusCompleted]
    by (auto simp: sql_defs row_evolves_def live_def
        simp del: update_where_fst intro!: rows_evolve_update processing_step_run)
qed (auto simp: sql_defs row_evolves_def live_def simp del: update_where_fst
       intro!: rows_evolve_update split: option.splits)

lemma db_steps_rows_evolve: "db_step\<^sup>*\<^sup>* t t' \<Longrightarrow> rows_evolve t t'"
proof (induction rule: rtranclp_induct)
  case base
  then show ?case by (simp add: rows_evolve_def)
next
  case (step u v)
  from step.hyps(2) have "rows_evolve u v"
    by (auto elim!: db_stepE intro: statement_rows_evolve)
  with step.IH show ?case by (rule rows_evolve_trans)
qed

section \<open>The table invariant\<close>

text \<open>
  Identifiers are unique, thumbnails are recorded exactly for completed rows, and the retry
  counter never goes below zero.
\<close>

definition row_ok :: "row \<Rightarrow> bool" where
  "row_ok r \<longleftrightarrow>
     (processing_status r = ProcessingStatusCompleted \<longleftrightarrow> thumbnail_s3_keys r \<noteq> None)
   \<and> 0 \<le> retry_count r"

definition table_ok :: "table \<Rightarrow> bool" where
  "table_ok t \<longleftrightarrow> ids_distinct t \<and> (\<forall>r\<in>set t. row_ok r)"

lemma table_ok_update:
  assumes "table_ok t" and "\<And>r. P r \<Longrightarrow> row_id (f r) = row_id r"
    and "\<And>r. P r \<Longrightarrow> row_ok r \<Longrightarrow> row_ok (f r)"
  shows "table_ok (fst (update_where P f t))"
  using assms by (auto simp: table_ok_def)

lemma table_ok_snoc:
  "table_ok t \<Longrightarrow> row_id r \<notin> row_id ` set t \<Longrightarrow> row_ok r \<Longrightarrow> table_ok (t @ [r])"
  by (auto simp: table_ok_def ids_distinct_def)

lemma statement_table_ok:
  assumes "table_ok t" and "issued st"
  shows "table_ok (statement_effect st now t)"
proof (cases st)
  case (StCreate a)
  with assms show ?thesis
    by (auto simp: createAvatarQuery_def new_row_def row_ok_def intro!: table_ok_snoc)
next
  case (StSetProcessing i s)
  with assms allowed_not_completed [of s] show ?thesis
    by (auto simp: sql_defs row_ok_def simp del: update_where_fst intro!: table_ok_update)
qed (use assms in \<open>auto simp: sql_defs row_ok_def simp del: update_where_fst
       intro!: table_ok_update\<close>)

lemma db_steps_table_ok: "db_step\<^sup>*\<^sup>* t t' \<Longrightarrow> table_ok t \<Longrightarrow> table_ok t'"
  by (induction rule: rtranclp_induct) (auto elim!: db_stepE intro: statement_table_ok)


section \<open>What the methods do\<close>

text \<open>
  The other processes run the same statements: before each statement they may have taken any
  number of steps.
\<close>

definition rely :: "pg \<Rightarrow> bool" where
  "rely p = (\<forall>n t. db_step\<^sup>*\<^sup>* t (pg_other p n t))"

lemma pg_next_simps [simp]:
  "pg_tbl (pg_next t p) = t" "pg_other (pg_next t p) = pg_other p"
  "pg_now (pg_next t p) = pg_now p" "pg_fault (pg_next t p) = pg_fault p"
  "pg_plan (pg_next t p) = pg_plan p" "pg_tick (pg_next t p) = Suc (pg_tick p)"
  "rely (pg_next t p) = rely p"
  by (simp_all add: pg_next_def rely_def)

lemma snapshot_next: "rely p \<Longrightarrow> db_step\<^sup>*\<^sup>* t (snapshot (pg_next t p))"
  by (simp add: snapshot_def rely_def)

lemma wrap_opt_simps [simp]:
  "fst (wrap_opt r) = map_option wrapf (fst r)" "snd (wrap_opt r) = snd r"
  by (simp_all add: wrap_opt_def)

lemma wrap_res_simps [simp]:
  "snd (wrap_res r) = snd r"
  "fst (wrap_res r) = Inr x \<longleftrightarrow> fst r = Inr x"
  "fst (wrap_res r) = Inl e \<longleftrightarrow> (\<exists>e'. fst r = Inl e' \<and> e = wrapf e')"
  by (auto simp: wrap_res_def split: sum.splits)

subsection \<open>Reads\<close>

lemma queryOne_spec:
  assumes "queryOne q p = (res, p')"
  shows "p' = pg_next (snapshot p) p"
    and "res = Inr a \<Longrightarrow> \<exists>r rs. q (pg_plan p (pg_tick p)) (snapshot p) = r # rs \<and> a = scanAvatar r"
    and "res = Inl e \<Longrightarrow> errors_Is e s \<Longrightarrow>
      (s = ErrNotFound \<and> q (pg_plan p (pg_tick p)) (snapshot p) = [])
      \<or> s = ErrCanceled \<or> s = ErrDeadlineExceeded"
  using assms
  by (auto simp: queryOne_def pool_QueryRow_def Let_def split: fault.splits list.splits)

lemma queryOne_total:
  assumes "pg_fault p (pg_tick p) = NoFault"
  shows "fst (queryOne q p) =
    (case q (pg_plan p (pg_tick p)) (snapshot p) of
       [] \<Rightarrow> Inl (Sentinel ErrNotFound) | r # _ \<Rightarrow> Inr (scanAvatar r))"
  using assms by (simp add: queryOne_def pool_QueryRow_def Let_def split: list.splits)

lemma queryMany_spec:
  assumes "queryMany q p = (ys, p')"
  shows "p' = pg_next (snapshot p) p"
    and "\<exists>k tail. ys = map (\<lambda>r. Inr (scanAvatar r)) (take k (q (pg_plan p (pg_tick p)) (snapshot p)))
           @ tail \<and> (tail = [] \<and> length (q (pg_plan p (pg_tick p)) (snapshot p)) \<le> k
                      \<or> (\<exists>l. tail = [Inl (wrapf (lib_err l))]))"
proof -
  let ?rs = "q (pg_plan p (pg_tick p)) (snapshot p)"
  show "p' = pg_next (snapshot p) p"
    using assms by (auto simp: queryMany_def Let_def split: fault.splits)
  show "\<exists>k tail. ys = map (\<lambda>r. Inr (scanAvatar r)) (take k ?rs) @ tail
      \<and> (tail = [] \<and> length ?rs \<le> k \<or> (\<exists>l. tail = [Inl (wrapf (lib_err l))]))"
  proof (cases "pg_fault p (pg_tick p)")
    case NoFault
    with assms have "ys = map (\<lambda>r. Inr (scanAvatar r)) (take (length ?rs) ?rs) @ []"
      by (simp add: queryMany_def Let_def)
    then show ?thesis by blast
  next
    case (FailBefore l)
    with assms have "ys = map (\<lambda>r. Inr (scanAvatar r)) (take 0 ?rs) @ [Inl (wrapf (lib_err l))]"
      by (simp add: queryMany_def Let_def)
    then show ?thesis by blast
  next
    case (FailAfter k l)
    with assms have "ys = map (\<lambda>r. Inr (scanAvatar r)) (take k ?rs) @ [Inl (wrapf (lib_err l))]"
      by (simp add: queryMany_def Let_def take_map)
    then show ?thesis by blast
  qed
qed

subsection \<open>Writes\<close>

lemma exec_spec:
  assumes "exec stmt p = (res, p')"
  defines "t \<equiv> snapshot p" and "t' \<equiv> fst (stmt (pg_now p (pg_tick p)) (snapshot p))"
  shows "(res = None \<and> 0 < snd (stmt (pg_now p (pg_tick p)) t) \<and> p' = pg_next t' p)
    \<or> (res = Some (Sentinel ErrNotFound) \<and> snd (stmt (pg_now p (pg_tick p)) t) = 0
        \<and> p' = pg_next t' p)
    \<or> (\<exists>l. res = Some (lib_err l) \<and> (p' = pg_next t p \<or> p' = pg_next t' p))"
  using assms
  by (auto simp: exec_def pool_Exec_def Let_def split: fault.splits prod.splits if_splits)

lemma transitionError_spec:
  assumes "transitionError i p = (res, p')"
  shows "p' = pg_next (snapshot p) p
    \<and> (res = Some (Sentinel ErrNotFound) \<and> avatarExistsQuery i (snapshot p) = []
      \<or> res = Some (Sentinel ErrInvalidTransition) \<and> avatarExistsQuery i (snapshot p) \<noteq> []
      \<or> (\<exists>l. res = Some (lib_err l)))"
  using assms
  by (auto simp: transitionError_def pool_QueryRow_def Let_def split: fault.splits list.splits)

text \<open>
  A guarded update that reports no rows leaves the table as it was; so a transition either
  applies the statement in one step and succeeds, or fails, with the table before or after
  the statement if only the answer was lost.
\<close>

lemma update_none: "snd (update_where P f t) = 0 \<Longrightarrow> fst (update_where P f t) = t"
  by (auto simp: filter_empty_conv intro!: map_idI)

lemma execTransition_spec:
  assumes ex: "execTransition i (\<lambda>now. update_where P (f now)) p = (res, p')"
  defines "t \<equiv> snapshot p" and "t' \<equiv> fst (update_where P (f (pg_now p (pg_tick p))) (snapshot p))"
  shows "(res = None \<and> filter P t \<noteq> [] \<and> p' = pg_next t' p)
    \<or> (\<exists>p1. p1 = pg_next t p \<and> filter P t = [] \<and> p' = pg_next (snapshot p1) p1
        \<and> (res = Some (Sentinel ErrNotFound) \<and> avatarExistsQuery i (snapshot p1) = []
          \<or> res = Some (Sentinel ErrInvalidTransition) \<and> avatarExistsQuery i (snapshot p1) \<noteq> []
          \<or> (\<exists>l. res = Some (lib_err l))))
    \<or> (\<exists>l. res = Some (lib_err l) \<and> (p' = pg_next t p \<or> p' = pg_next t' p))"
proof -
  let ?stmt = "\<lambda>now. update_where P (f now)"
  obtain r1 p1 where e1: "exec ?stmt p = (r1, p1)" by fastforce
  from exec_spec [OF e1] consider
      (ok) "r1 = None" "filter P t \<noteq> []" "p1 = pg_next t' p"
    | (none) "r1 = Some (Sentinel ErrNotFound)" "filter P t = []" "p1 = pg_next t' p"
    | (lib) l where "r1 = Some (lib_err l)" "p1 = pg_next t p \<or> p1 = pg_next t' p"
    unfolding t_def t'_def by auto
  then show ?thesis
  proof cases
    case ok
    with ex e1 show ?thesis by (simp add: execTransition_def)
  next
    case none
    then have "t' = t"
      unfolding t_def t'_def using update_none [of P "f (pg_now p (pg_tick p))" "snapshot p"] by simp
    with none ex e1 transitionError_spec [of i "pg_next t p" res p'] show ?thesis
      by (auto simp: execTransition_def)
  next
    case lib
    with ex e1 show ?thesis by (auto simp: execTransition_def)
  qed
qed

section \<open>Properties\<close>

text \<open>
  (C17) However the statements of any number of processes interleave, the table keeps its
  invariant: identifiers are unique, thumbnails are recorded exactly for completed rows, retry
  counters are not negative.
\<close>

theorem table_invariant:
  assumes "db_step\<^sup>*\<^sup>* t t'" and "table_ok t"
  shows "table_ok t'"
  by (rule db_steps_table_ok [OF assms])

definition new0 :: NewAvatar where
  "new0 = \<lparr>n_ID = 1, n_UserID = ''alice'', n_FileName = ''a.jpg'', n_MimeType = ''image/jpeg'',
     n_SizeBytes = 7, n_Width = 1, n_Height = 1, n_S3Key = ''originals/1''\<rparr>"

definition table1 :: table where "table1 = statement_effect (StCreate new0) 10 []"
definition table2 :: table where
  "table2 = statement_effect (StSetUpload 1 UploadStatusUploaded) 20 table1"

lemma sample_steps: "db_step\<^sup>*\<^sup>* [] table1" "db_step\<^sup>*\<^sup>* table1 table2"
  unfolding table1_def table2_def by (rule r_into_rtranclp, rule db_step, simp)+

lemma table1_row: "table1 = [new_row 10 new0]"
  by (simp add: table1_def createAvatarQuery_def columns_ok_def new0_def varchar_def utf8_length_def
      signed_range_def)

theorem table_invariant_witness: "db_step\<^sup>*\<^sup>* [] table1 \<and> table1 \<noteq> [] \<and> table_ok table1"
proof (intro conjI)
  show "db_step\<^sup>*\<^sup>* [] table1" by (rule sample_steps)
  show "table1 \<noteq> []" by (simp add: table1_row)
  show "table_ok table1"
    by (rule table_invariant [OF sample_steps(1)]) (simp add: table_ok_def ids_distinct_def)
qed

text \<open>
  (C16) A row only moves forward under any interleaving: its identity, owner, file and creation
  time never change, both statuses follow their machines and stand still once the row is
  deleted, marks of deletion and clean-up stay, the thumbnails of a completed row stay as written.
\<close>

theorem rows_move_forward:
  assumes "db_step\<^sup>*\<^sup>* t t'" and "find_row i t = Some r"
  shows "\<exists>r'. find_row i t' = Some r' \<and> row_evolves r r'"
  using db_steps_rows_evolve [OF assms(1)] assms(2) unfolding rows_evolve_def by blast

theorem rows_move_forward_witness:
  "\<exists>r'. find_row 1 table2 = Some r' \<and> row_evolves (new_row 10 new0) r'"
  by (rule rows_move_forward [OF sample_steps(2)])
    (simp add: table1_row find_row_def new_row_def new0_def)

end
