(* ===== verification/Events.thy ===== *)
theory Events
  imports Domain
begin

text \<open>
  \<open>internal/broker/events.go\<close> and the part of \<open>encoding/json\<close> the two event types use. A
  message body is modelled by its JSON value, \<open>None\<close> standing for bytes that are not one JSON
  text; strings in a value are already decoded. Encoding replaces ill-formed UTF-8 in a
  string by U+FFFD, decoding matches member names exactly or up to case, ignores unknown
  members and refuses members of a wrong type.
\<close>

section \<open>Events\<close>

definition RoutingKeyUploaded :: string where "RoutingKeyUploaded = ''avatar.uploaded''"
definition RoutingKeyDeleted :: string where "RoutingKeyDeleted = ''avatar.deleted''"

record AvatarUploadEvent =
  ue_MessageID :: string
  ue_AvatarID :: string
  ue_UserID :: string
  ue_S3Key :: string

record AvatarDeleteEvent =
  de_MessageID :: string
  de_AvatarID :: string
  de_S3Keys :: "string list"

datatype Event = UploadEvent AvatarUploadEvent | DeleteEvent AvatarDeleteEvent

text \<open>\<open>mid\<close> is the value of \<open>uuid.NewString()\<close>.\<close>

definition NewUploadEvent ::
  "(uuid \<Rightarrow> string) \<Rightarrow> string \<Rightarrow> uuid \<Rightarrow> string \<Rightarrow> string \<Rightarrow> AvatarUploadEvent" where
  "NewUploadEvent us mid avatarID userID s3Key =
     \<lparr>ue_MessageID = mid, ue_AvatarID = us avatarID, ue_UserID = userID, ue_S3Key = s3Key\<rparr>"

definition NewDeleteEvent ::
  "(uuid \<Rightarrow> string) \<Rightarrow> string \<Rightarrow> uuid \<Rightarrow> string list \<Rightarrow> AvatarDeleteEvent" where
  "NewDeleteEvent us mid avatarID s3Keys =
     \<lparr>de_MessageID = mid, de_AvatarID = us avatarID, de_S3Keys = s3Keys\<rparr>"

fun Event_ID :: "Event \<Rightarrow> string" where
  "Event_ID (UploadEvent e) = ue_MessageID e"
| "Event_ID (DeleteEvent e) = de_MessageID e"

fun RoutingKey :: "Event \<Rightarrow> string" where
  "RoutingKey (UploadEvent e) = RoutingKeyUploaded"
| "RoutingKey (DeleteEvent e) = RoutingKeyDeleted"

section \<open>JSON\<close>

datatype json =
    JNull | JBool bool | JNumber string | JString string
  | JArray "json list" | JObject "(string \<times> json) list"

text \<open>
  The coercion of a Go string to UTF-8 by the encoder: a byte that does not start or complete
  a well-formed sequence becomes the three bytes of U+FFFD.
\<close>

definition byte :: "char \<Rightarrow> nat" where "byte c = of_char c"

definition cont :: "char \<Rightarrow> bool" where "cont c = (128 \<le> byte c \<and> byte c < 192)"

definition starts2 :: "char \<Rightarrow> char \<Rightarrow> bool" where
  "starts2 a b = (194 \<le> byte a \<and> byte a \<le> 223 \<and> cont b)"

definition starts3 :: "char \<Rightarrow> char \<Rightarrow> char \<Rightarrow> bool" where
  "starts3 a b c = (224 \<le> byte a \<and> byte a \<le> 239 \<and> cont b \<and> cont c
     \<and> (byte a = 224 \<longrightarrow> 160 \<le> byte b) \<and> (byte a = 237 \<longrightarrow> byte b < 160))"

definition starts4 :: "char \<Rightarrow> char \<Rightarrow> char \<Rightarrow> char \<Rightarrow> bool" where
  "starts4 a b c d = (240 \<le> byte a \<and> byte a \<le> 244 \<and> cont b \<and> cont c \<and> cont d
     \<and> (byte a = 240 \<longrightarrow> 144 \<le> byte b) \<and> (byte a = 244 \<longrightarrow> byte b < 144))"

definition replacement :: string where
  "replacement = map char_of [239, 191, 189 :: nat]"

fun utf8_fix :: "string \<Rightarrow> string" where
  "utf8_fix [] = []"
| "utf8_fix (a # s) =
     (if byte a < 128 then a # utf8_fix s
      else case s of
        b # c # d # s' \<Rightarrow>
          if starts2 a b then a # b # utf8_fix (c # d # s')
          else if starts3 a b c then a # b # c # utf8_fix (d # s')
          else if starts4 a b c d then a # b # c # d # utf8_fix s'
          else replacement @ utf8_fix s
      | [b, c] \<Rightarrow>
          if starts2 a b then a # b # utf8_fix [c]
          else if starts3 a b c then [a, b, c]
          else replacement @ utf8_fix s
      | [b] \<Rightarrow> if starts2 a b then [a, b] else replacement @ utf8_fix s
      | [] \<Rightarrow> replacement)"

definition Marshal :: "Event \<Rightarrow> json" where
  "Marshal ev =
     (case ev of
        UploadEvent e \<Rightarrow>
          JObject [(''message_id'', JString (utf8_fix (ue_MessageID e))),
                   (''avatar_id'', JString (utf8_fix (ue_AvatarID e))),
                   (''user_id'', JString (utf8_fix (ue_UserID e))),
                   (''s3_key'', JString (utf8_fix (ue_S3Key e)))]
      | DeleteEvent e \<Rightarrow>
          JObject [(''message_id'', JString (utf8_fix (de_MessageID e))),
                   (''avatar_id'', JString (utf8_fix (de_AvatarID e))),
                   (''s3_keys'', JArray (map (\<lambda>k. JString (utf8_fix k)) (de_S3Keys e)))])"

text \<open>
  Member names up to case: the folding maps ASCII letters to upper case, U+017F to S and
  U+212A to K, the only other code points that fold to ASCII.
\<close>

definition upper :: "char \<Rightarrow> char" where
  "upper c = (if 97 \<le> byte c \<and> byte c \<le> 122 then char_of (byte c - 32) else c)"

fun foldName :: "string \<Rightarrow> string" where
  "foldName [] = []"
| "foldName (a # s) =
     (case s of
        b # c # s' \<Rightarrow>
          if byte a = 197 \<and> byte b = 191 then CHR ''S'' # foldName (c # s')
          else if byte a = 226 \<and> byte b = 132 \<and> byte c = 170 then CHR ''K'' # foldName s'
          else upper a # foldName s
      | [b] \<Rightarrow> if byte a = 197 \<and> byte b = 191 then [CHR ''S''] else upper a # foldName s
      | [] \<Rightarrow> [upper a])"

text \<open>The field of a struct with fields \<open>fs\<close> that a member name selects.\<close>

definition select_field :: "string list \<Rightarrow> string \<Rightarrow> string option" where
  "select_field fs name =
     (if name \<in> set fs then Some name else find (\<lambda>f. foldName f = foldName name) fs)"

text \<open>A member into a string field: null leaves the field alone, another type is an error.\<close>

definition put_string :: "string \<Rightarrow> json \<Rightarrow> string option" where
  "put_string old v = (case v of JString s \<Rightarrow> Some s | JNull \<Rightarrow> Some old | _ \<Rightarrow> None)"

definition put_strings :: "json \<Rightarrow> string list option" where
  "put_strings v =
     (case v of
        JArray xs \<Rightarrow> those (map (put_string '''') xs)
      | JNull \<Rightarrow> Some []
      | _ \<Rightarrow> None)"

text \<open>
  The members in order; \<open>None\<close> once a member had a wrong type, since \<open>Unmarshal\<close> then
  returns that error whatever follows.
\<close>

fun upload_members :: "(string \<times> json) list \<Rightarrow> AvatarUploadEvent \<Rightarrow> AvatarUploadEvent option" where
  "upload_members [] e = Some e"
| "upload_members ((name, v) # ms) e =
     (case select_field [''message_id'', ''avatar_id'', ''user_id'', ''s3_key''] name of
        None \<Rightarrow> upload_members ms e
      | Some f \<Rightarrow>
          (if f = ''message_id'' then
             case put_string (ue_MessageID e) v of None \<Rightarrow> None
             | Some s \<Rightarrow> upload_members ms (e\<lparr>ue_MessageID := s\<rparr>)
           else if f = ''avatar_id'' then
             case put_string (ue_AvatarID e) v of None \<Rightarrow> None
             | Some s \<Rightarrow> upload_members ms (e\<lparr>ue_AvatarID := s\<rparr>)
           else if f = ''user_id'' then
             case put_string (ue_UserID e) v of None \<Rightarrow> None
             | Some s \<Rightarrow> upload_members ms (e\<lparr>ue_UserID := s\<rparr>)
           else
             case put_string (ue_S3Key e) v of None \<Rightarrow> None
             | Some s \<Rightarrow> upload_members ms (e\<lparr>ue_S3Key := s\<rparr>)))"

fun delete_members :: "(string \<times> json) list \<Rightarrow> AvatarDeleteEvent \<Rightarrow> AvatarDeleteEvent option" where
  "delete_members [] e = Some e"
| "delete_members ((name, v) # ms) e =
     (case select_field [''message_id'', ''avatar_id'', ''s3_keys''] name of
        None \<Rightarrow> delete_members ms e
      | Some f \<Rightarrow>
          (if f = ''message_id'' then
             case put_string (de_MessageID e) v of None \<Rightarrow> None
             | Some s \<Rightarrow> delete_members ms (e\<lparr>de_MessageID := s\<rparr>)
           else if f = ''avatar_id'' then
             case put_string (de_AvatarID e) v of None \<Rightarrow> None
             | Some s \<Rightarrow> delete_members ms (e\<lparr>de_AvatarID := s\<rparr>)
           else
             case put_strings v of None \<Rightarrow> None
             | Some ks \<Rightarrow> delete_members ms (e\<lparr>de_S3Keys := ks\<rparr>)))"

text \<open>\<open>json.Unmarshal(body, &event)\<close> into a zero event; a top-level null changes nothing.\<close>

definition UnmarshalUpload :: "json option \<Rightarrow> error + AvatarUploadEvent" where
  "UnmarshalUpload body =
     (let zero = \<lparr>ue_MessageID = '''', ue_AvatarID = '''', ue_UserID = '''', ue_S3Key = ''''\<rparr>
      in case body of
           Some (JObject ms) \<Rightarrow>
             (case upload_members ms zero of None \<Rightarrow> Inl ErrText | Some e \<Rightarrow> Inr e)
         | Some JNull \<Rightarrow> Inr zero
         | _ \<Rightarrow> Inl ErrText)"

definition UnmarshalDelete :: "json option \<Rightarrow> error + AvatarDeleteEvent" where
  "UnmarshalDelete body =
     (let zero = \<lparr>de_MessageID = '''', de_AvatarID = '''', de_S3Keys = []\<rparr>
      in case body of
           Some (JObject ms) \<Rightarrow>
             (case delete_members ms zero of None \<Rightarrow> Inl ErrText | Some e \<Rightarrow> Inr e)
         | Some JNull \<Rightarrow> Inr zero
         | _ \<Rightarrow> Inl ErrText)"

text \<open>What identifies an event on the wire: its type, its id and its body.\<close>

type_synonym content = "string \<times> string \<times> json option"

definition wire :: "Event \<Rightarrow> content" where
  "wire ev = (RoutingKey ev, Event_ID ev, Some (Marshal ev))"

section \<open>Round trips\<close>

definition well_formed :: "string \<Rightarrow> bool" where
  "well_formed s = (utf8_fix s = s)"

lemma ascii_well_formed: "(\<forall>c\<in>set s. byte c < 128) \<Longrightarrow> well_formed s"
  unfolding well_formed_def by (induction s) auto

lemma put_string_JString [simp]: "put_string old (JString s) = Some s"
  by (simp add: put_string_def)

lemma put_strings_JArray [simp]:
  "put_strings (JArray (map (\<lambda>k. JString (f k)) ks)) = Some (map f ks)"
  unfolding put_strings_def by (induction ks) simp_all

lemma select_exact [simp]: "name \<in> set fs \<Longrightarrow> select_field fs name = Some name"
  by (simp add: select_field_def)

lemma UnmarshalUpload_Marshal:
  "UnmarshalUpload (Some (Marshal (UploadEvent e))) =
     Inr \<lparr>ue_MessageID = utf8_fix (ue_MessageID e), ue_AvatarID = utf8_fix (ue_AvatarID e),
          ue_UserID = utf8_fix (ue_UserID e), ue_S3Key = utf8_fix (ue_S3Key e)\<rparr>"
  by (simp add: UnmarshalUpload_def Marshal_def)

lemma UnmarshalDelete_Marshal:
  "UnmarshalDelete (Some (Marshal (DeleteEvent e))) =
     Inr \<lparr>de_MessageID = utf8_fix (de_MessageID e), de_AvatarID = utf8_fix (de_AvatarID e),
          de_S3Keys = map utf8_fix (de_S3Keys e)\<rparr>"
  by (simp add: UnmarshalDelete_def Marshal_def)

section \<open>Properties\<close>


lemma printable_well_formed: "(\<forall>c\<in>set s. byte c < 128) \<Longrightarrow> utf8_fix s = s"
  using ascii_well_formed unfolding well_formed_def .

lemma storage_keys_ascii:
  assumes "\<forall>c\<in>set (us (ID a)). byte c < 128" and "S3Key a = OriginalKey us (ID a)"
  shows "map utf8_fix (StorageKeys us a) = StorageKeys us a"
proof (rule map_idI, rule printable_well_formed, rule ballI)
  fix k c
  assume "k \<in> set (StorageKeys us a)" "c \<in> set k"
  moreover have "\<forall>c\<in>set ThumbnailSmall \<union> set ThumbnailMedium \<union> set ''/'' \<union> set originalsPrefix
      \<union> set thumbnailsPrefix. byte c < 128"
    by (auto simp: size_defs key_defs byte_def)
  ultimately show "byte c < 128" using assms
    by (auto simp: StorageKeys_def ThumbnailSizes_def OriginalKey_def ThumbnailKey_def)
qed

text \<open>
  For the texts the program generates itself nothing is coerced: if the printed identifiers
  are ASCII, an avatar's delete event comes back with the very keys it was built from.
\<close>

theorem delete_event_exact:
  assumes "\<forall>i. \<forall>c\<in>set (us i). byte c < 128" and "\<forall>c\<in>set mid. byte c < 128"
    and "S3Key a = OriginalKey us (ID a)"
  shows "UnmarshalDelete (Some (Marshal (DeleteEvent (NewDeleteEvent us mid (ID a) (StorageKeys us a)))))
    = Inr (NewDeleteEvent us mid (ID a) (StorageKeys us a))"
  using assms(1,2) storage_keys_ascii [OF _ assms(3)]
  by (simp add: UnmarshalDelete_Marshal NewDeleteEvent_def printable_well_formed)

theorem delete_event_exact_witness:
  "UnmarshalDelete (Some (Marshal (DeleteEvent (NewDeleteEvent (\<lambda>_. ''id'') ''m'' 1
      (StorageKeys (\<lambda>_. ''id'') ((avatar0 1)\<lparr>S3Key := ''originals/id''\<rparr>))))))
   = Inr (NewDeleteEvent (\<lambda>_. ''id'') ''m'' 1 (StorageKeys (\<lambda>_. ''id'') ((avatar0 1)\<lparr>S3Key := ''originals/id''\<rparr>)))"
  using delete_event_exact [of "\<lambda>_. ''id''" "''m''" "(avatar0 1)\<lparr>S3Key := ''originals/id''\<rparr>"]
  by (simp add: avatar0_def OriginalKey_def originalsPrefix_def byte_def)

end
