(* ===== verification/Interfaces.thy ===== *)
theory Interfaces
  imports Postgres Events
begin

text \<open>
  The interfaces the program's layers declare towards each other, as records of operations on
  a world \<open>'w\<close>, and what their consumers rely on, as locales. The consumers (service,
  worker handler, reconciler) are proved against the locales; the theories of the providers
  interpret them.

  The repository laws speak about the table as the next statement will see it, and allow any
  number of database steps of other processes between two calls. The storage laws speak about
  the stored objects, the publisher laws about the events the broker has accepted.
\<close>

section \<open>Operations\<close>

record 'w service_Repository =
  sr_Create :: "NewAvatar \<Rightarrow> 'w \<Rightarrow> (error + Avatar) \<times> 'w"
  sr_Get :: "uuid \<Rightarrow> 'w \<Rightarrow> (error + Avatar) \<times> 'w"
  sr_GetCurrent :: "string \<Rightarrow> 'w \<Rightarrow> (error + Avatar) \<times> 'w"
  sr_ListByUser :: "string \<Rightarrow> 'w \<Rightarrow> (error + Avatar) list \<times> 'w"
  sr_SetUploadStatus :: "uuid \<Rightarrow> UploadStatus \<Rightarrow> 'w \<Rightarrow> error option \<times> 'w"
  sr_SoftDelete :: "uuid \<Rightarrow> 'w \<Rightarrow> error option \<times> 'w"
  sr_MarkFilesRemoved :: "uuid \<Rightarrow> 'w \<Rightarrow> error option \<times> 'w"

record 'w handler_Repository =
  hr_Get :: "uuid \<Rightarrow> 'w \<Rightarrow> (error + Avatar) \<times> 'w"
  hr_SetProcessingStatus :: "uuid \<Rightarrow> ProcessingStatus \<Rightarrow> 'w \<Rightarrow> error option \<times> 'w"
  hr_CompleteProcessing :: "uuid \<Rightarrow> (ThumbnailSize \<rightharpoonup> string) \<Rightarrow> 'w \<Rightarrow> error option \<times> 'w"
  hr_IncrementRetry :: "uuid \<Rightarrow> 'w \<Rightarrow> error option \<times> 'w"
  hr_MarkFilesRemoved :: "uuid \<Rightarrow> 'w \<Rightarrow> error option \<times> 'w"

record 'w reconciler_Repository =
  rr_SelectStuck :: "time \<Rightarrow> int \<Rightarrow> 'w \<Rightarrow> (error + Avatar) list \<times> 'w"
  rr_SelectUncleaned :: "time \<Rightarrow> int \<Rightarrow> 'w \<Rightarrow> (error + Avatar) list \<times> 'w"
  rr_FailStaleUploads :: "time \<Rightarrow> 'w \<Rightarrow> (error + nat) \<times> 'w"

text \<open>Put takes the key, the bytes the reader delivers, the announced size and the type.\<close>

record 'w Storage =
  st_Put :: "string \<Rightarrow> bytes \<Rightarrow> int \<Rightarrow> string \<Rightarrow> 'w \<Rightarrow> error option \<times> 'w"
  st_Get :: "string \<Rightarrow> 'w \<Rightarrow> (error + StoredObject) \<times> 'w"
  st_DeleteMany :: "string list \<Rightarrow> 'w \<Rightarrow> error option \<times> 'w"

record 'w Publisher =
  pub_Publish :: "Event \<Rightarrow> 'w \<Rightarrow> error option \<times> 'w"

text \<open>A stored object: content, content type and entity tag.\<close>

record blob =
  bl_data :: bytes
  bl_type :: string
  bl_etag :: string

section \<open>Repository contracts\<close>

text \<open>
  \<open>tbl w\<close> is the table the next statement will see. A call reads or updates it in one
  atomic statement; then other processes may take steps.
\<close>

definition live_row :: "uuid \<Rightarrow> table \<Rightarrow> row option" where
  "live_row i t = (case filter (\<lambda>r. row_id r = i \<and> live r) t of [] \<Rightarrow> None | r # _ \<Rightarrow> Some r)"

text \<open>A guarded status change: what a nil and a non-nil result say.\<close>

definition transition_law ::
  "('w \<Rightarrow> table) \<Rightarrow> uuid \<Rightarrow> (row \<Rightarrow> bool) \<Rightarrow> (time \<Rightarrow> row \<Rightarrow> row) \<Rightarrow> 'w \<Rightarrow> error option \<Rightarrow> 'w \<Rightarrow> bool"
where
  "transition_law tbl i P f w res w' =
     (case res of
        None \<Rightarrow> \<exists>now. filter (\<lambda>r. row_id r = i \<and> live r \<and> P r) (tbl w) \<noteq> []
          \<and> db_step\<^sup>*\<^sup>* (fst (update_where (\<lambda>r. row_id r = i \<and> live r \<and> P r) (f now) (tbl w))) (tbl w')
      | Some e \<Rightarrow> db_step\<^sup>*\<^sup>* (tbl w) (tbl w')
          \<and> (errors_Is e ErrNotFound \<longrightarrow> (\<exists>t. db_step\<^sup>*\<^sup>* (tbl w) t \<and> db_step\<^sup>*\<^sup>* t (tbl w') \<and> live_row i t = None))
          \<and> (errors_Is e ErrInvalidTransition \<longrightarrow>
               filter (\<lambda>r. row_id r = i \<and> live r \<and> P r) (tbl w) = []
             \<and> (\<exists>t. db_step\<^sup>*\<^sup>* (tbl w) t \<and> db_step\<^sup>*\<^sup>* t (tbl w') \<and> live_row i t \<noteq> None))
          \<and> \<not> errors_Is e ErrNonRetryable)"

definition set_upload :: "UploadStatus \<Rightarrow> time \<Rightarrow> row \<Rightarrow> row" where
  "set_upload s now r = r\<lparr>upload_status := s, updated_at := now\<rparr>"

definition set_processing :: "ProcessingStatus \<Rightarrow> time \<Rightarrow> row \<Rightarrow> row" where
  "set_processing s now r = r\<lparr>processing_status := s, updated_at := now\<rparr>"

definition set_completed :: "(ThumbnailSize \<rightharpoonup> string) \<Rightarrow> time \<Rightarrow> row \<Rightarrow> row" where
  "set_completed keys now r =
     r\<lparr>thumbnail_s3_keys := Some keys, processing_status := ProcessingStatusCompleted,
       updated_at := now\<rparr>"

locale reads_avatar =
  fixes Get :: "uuid \<Rightarrow> 'w \<Rightarrow> (error + Avatar) \<times> 'w"
    and tbl :: "'w \<Rightarrow> table" and fair :: "'w \<Rightarrow> bool"
  assumes Get_fair: "fair w \<Longrightarrow> Get i w = (res, w') \<Longrightarrow> fair w'"
    and Get_steps: "fair w \<Longrightarrow> Get i w = (res, w') \<Longrightarrow> db_step\<^sup>*\<^sup>* (tbl w) (tbl w')"
    and Get_ok: "fair w \<Longrightarrow> Get i w = (Inr a, w') \<Longrightarrow>
      \<exists>r. live_row i (tbl w) = Some r \<and> a = scanAvatar r"
    and Get_err: "fair w \<Longrightarrow> Get i w = (Inl e, w') \<Longrightarrow> errors_Is e sn \<Longrightarrow>
      (sn = ErrNotFound \<and> live_row i (tbl w) = None) \<or> sn = ErrCanceled \<or> sn = ErrDeadlineExceeded"

locale marks_files =
  fixes MarkFilesRemoved :: "uuid \<Rightarrow> 'w \<Rightarrow> error option \<times> 'w"
    and tbl :: "'w \<Rightarrow> table" and fair :: "'w \<Rightarrow> bool"
  assumes Mark_fair: "fair w \<Longrightarrow> MarkFilesRemoved i w = (res, w') \<Longrightarrow> fair w'"
    and Mark_steps: "fair w \<Longrightarrow> MarkFilesRemoved i w = (res, w') \<Longrightarrow> db_step\<^sup>*\<^sup>* (tbl w) (tbl w')"
    and Mark_ok: "fair w \<Longrightarrow> MarkFilesRemoved i w = (None, w') \<Longrightarrow>
      \<exists>r. find_row i (tbl w') = Some r \<and> files_removed_at r \<noteq> None"
    and Mark_err: "fair w \<Longrightarrow> MarkFilesRemoved i w = (Some e, w') \<Longrightarrow> errors_Is e sn \<Longrightarrow>
      (sn = ErrNotFound \<and> find_row i (tbl w) = None) \<or> sn = ErrCanceled \<or> sn = ErrDeadlineExceeded"

locale service_repo =
  reads_avatar "sr_Get R" tbl fair + marks_files "sr_MarkFilesRemoved R" tbl fair
  for R :: "'w service_Repository" and tbl :: "'w \<Rightarrow> table" and fair :: "'w \<Rightarrow> bool" +
  assumes Create_fair: "fair w \<Longrightarrow> sr_Create R a w = (res, w') \<Longrightarrow> fair w'"
    and Create_ok: "fair w \<Longrightarrow> sr_Create R a w = (Inr av, w') \<Longrightarrow>
      \<exists>now t. createAvatarQuery a now (tbl w) = Some (t, new_row now a)
        \<and> av = scanAvatar (new_row now a) \<and> db_step\<^sup>*\<^sup>* t (tbl w')"
    and Create_err: "fair w \<Longrightarrow> sr_Create R a w = (Inl e, w') \<Longrightarrow>
      db_step\<^sup>*\<^sup>* (tbl w) (tbl w') \<and> (errors_Is e sn \<longrightarrow> sn = ErrCanceled \<or> sn = ErrDeadlineExceeded)"
    and SetUpload_fair: "fair w \<Longrightarrow> sr_SetUploadStatus R i s w = (res', w') \<Longrightarrow> fair w'"
    and SetUpload_law: "fair w \<Longrightarrow> sr_SetUploadStatus R i s w = (res', w') \<Longrightarrow>
      transition_law tbl i (\<lambda>r. upload_status r \<in> set (UploadStatus_AllowedFrom s))
        (set_upload s) w res' w'"
    and SoftDelete_fair: "fair w \<Longrightarrow> sr_SoftDelete R i w = (res', w') \<Longrightarrow> fair w'"
    and SoftDelete_steps: "fair w \<Longrightarrow> sr_SoftDelete R i w = (res', w') \<Longrightarrow> db_step\<^sup>*\<^sup>* (tbl w) (tbl w')"
    and SoftDelete_ok: "fair w \<Longrightarrow> sr_SoftDelete R i w = (None, w') \<Longrightarrow>
      live_row i (tbl w) \<noteq> None
      \<and> (\<exists>r. find_row i (tbl w') = Some r \<and> deleted_at r \<noteq> None)"
    and SoftDelete_err: "fair w \<Longrightarrow> sr_SoftDelete R i w = (Some e, w') \<Longrightarrow> errors_Is e sn \<Longrightarrow>
      (sn = ErrNotFound \<and> live_row i (tbl w) = None) \<or> sn = ErrCanceled \<or> sn = ErrDeadlineExceeded"
    and GetCurrent_fair: "fair w \<Longrightarrow> sr_GetCurrent R u w = (res, w') \<Longrightarrow> fair w'"
    and GetCurrent_steps: "fair w \<Longrightarrow> sr_GetCurrent R u w = (res, w') \<Longrightarrow> db_step\<^sup>*\<^sup>* (tbl w) (tbl w')"
    and GetCurrent_ok: "fair w \<Longrightarrow> sr_GetCurrent R u w = (Inr av, w') \<Longrightarrow>
      \<exists>r\<in>set (user_rows u UploadStatusUploaded (tbl w)). av = scanAvatar r
        \<and> (\<forall>r'\<in>set (user_rows u UploadStatusUploaded (tbl w)). created_at r' \<le> created_at r)"
    and GetCurrent_err: "fair w \<Longrightarrow> sr_GetCurrent R u w = (Inl e, w') \<Longrightarrow> errors_Is e sn \<Longrightarrow>
      (sn = ErrNotFound \<and> user_rows u UploadStatusUploaded (tbl w) = [])
      \<or> sn = ErrCanceled \<or> sn = ErrDeadlineExceeded"
    and List_fair: "fair w \<Longrightarrow> sr_ListByUser R u w = (ys, w') \<Longrightarrow> fair w'"
    and List_ok: "fair w \<Longrightarrow> sr_ListByUser R u w = (ys, w') \<Longrightarrow>
      \<exists>rs k tail. mset rs = mset (user_rows u UploadStatusUploaded (tbl w))
        \<and> sorted_wrt (\<lambda>r r'. created_at r' \<le> created_at r) rs
        \<and> ys = map (\<lambda>r. Inr (scanAvatar r)) (take k rs) @ tail
        \<and> (tail = [] \<and> length rs \<le> k \<or> (\<exists>l. tail = [Inl (wrapf (lib_err l))]))"

locale handler_repo =
  reads_avatar "hr_Get R" tbl fair + marks_files "hr_MarkFilesRemoved R" tbl fair
  for R :: "'w handler_Repository" and tbl :: "'w \<Rightarrow> table" and fair :: "'w \<Rightarrow> bool" +
  assumes SetProcessing_fair: "fair w \<Longrightarrow> hr_SetProcessingStatus R i s w = (res', w') \<Longrightarrow> fair w'"
    and SetProcessing_law: "fair w \<Longrightarrow> s \<noteq> ProcessingStatusCompleted \<Longrightarrow>
      hr_SetProcessingStatus R i s w = (res', w') \<Longrightarrow>
      transition_law tbl i (\<lambda>r. processing_status r \<in> set (ProcessingStatus_AllowedFrom s))
        (set_processing s) w res' w'"
    and Complete_fair: "fair w \<Longrightarrow> hr_CompleteProcessing R i keys w = (res', w') \<Longrightarrow> fair w'"
    and Complete_law: "fair w \<Longrightarrow> hr_CompleteProcessing R i keys w = (res', w') \<Longrightarrow>
      transition_law tbl i
        (\<lambda>r. processing_status r \<in> set (ProcessingStatus_AllowedFrom ProcessingStatusCompleted))
        (set_completed keys) w res' w'"
    and Increment_fair: "fair w \<Longrightarrow> hr_IncrementRetry R i w = (res', w') \<Longrightarrow> fair w'"
    and Increment_steps: "fair w \<Longrightarrow> hr_IncrementRetry R i w = (res', w') \<Longrightarrow> db_step\<^sup>*\<^sup>* (tbl w) (tbl w')"

locale reconciler_repo =
  fixes R :: "'w reconciler_Repository" and tbl :: "'w \<Rightarrow> table" and fair :: "'w \<Rightarrow> bool"
  assumes Stuck_fair: "fair w \<Longrightarrow> rr_SelectStuck R before limit w = (ys, w') \<Longrightarrow> fair w'"
    and Stuck_ok: "fair w \<Longrightarrow> 0 < limit \<Longrightarrow> rr_SelectStuck R before limit w = (ys, w') \<Longrightarrow>
      \<exists>rs k tail. mset rs = mset (filter
            (is_stuck UploadStatusUploaded ProcessingStatusPending before) (tbl w))
        \<and> sorted (map updated_at rs)
        \<and> ys = map (\<lambda>r. Inr (scanAvatar r)) (take k (take (nat limit) rs)) @ tail
        \<and> (tail = [] \<and> length (take (nat limit) rs) \<le> k
           \<or> (\<exists>l. tail = [Inl (wrapf (lib_err l))]))"
    and Stuck_steps: "fair w \<Longrightarrow> rr_SelectStuck R before limit w = (ys, w') \<Longrightarrow> db_step\<^sup>*\<^sup>* (tbl w) (tbl w')"
    and Stuck_limit: "limit \<le> 0 \<Longrightarrow> rr_SelectStuck R before limit w = ([Inl ErrText], w)"
    and Uncleaned_fair: "fair w \<Longrightarrow> rr_SelectUncleaned R before limit w = (ys, w') \<Longrightarrow> fair w'"
    and Uncleaned_ok: "fair w \<Longrightarrow> 0 < limit \<Longrightarrow> rr_SelectUncleaned R before limit w = (ys, w') \<Longrightarrow>
      \<exists>rs k tail. mset rs = mset (filter (is_uncleaned before) (tbl w))
        \<and> sorted (map updated_at rs)
        \<and> ys = map (\<lambda>r. Inr (scanAvatar r)) (take k (take (nat limit) rs)) @ tail
        \<and> (tail = [] \<and> length (take (nat limit) rs) \<le> k
           \<or> (\<exists>l. tail = [Inl (wrapf (lib_err l))]))"
    and Uncleaned_steps: "fair w \<Longrightarrow> rr_SelectUncleaned R before limit w = (ys, w') \<Longrightarrow>
      db_step\<^sup>*\<^sup>* (tbl w) (tbl w')"
    and Uncleaned_limit: "limit \<le> 0 \<Longrightarrow> rr_SelectUncleaned R before limit w = ([Inl ErrText], w)"
    and FailStale_fair: "fair w \<Longrightarrow> rr_FailStaleUploads R before w = (res, w') \<Longrightarrow> fair w'"
    and FailStale_ok: "fair w \<Longrightarrow> rr_FailStaleUploads R before w = (Inr n, w') \<Longrightarrow>
      \<exists>now. db_step\<^sup>*\<^sup>* (fst (failStaleUploadsQuery UploadStatusFailed UploadStatusUploading
                          before now (tbl w))) (tbl w')
        \<and> n = length (filter (\<lambda>r. upload_status r = UploadStatusUploading \<and> live r
                          \<and> updated_at r < before) (tbl w))"
    and FailStale_err: "fair w \<Longrightarrow> rr_FailStaleUploads R before w = (Inl e, w') \<Longrightarrow>
      db_step\<^sup>*\<^sup>* (tbl w) (tbl w')"

section \<open>Storage and publisher contracts\<close>

locale object_store =
  fixes S :: "'w Storage" and objs :: "'w \<Rightarrow> string \<rightharpoonup> blob"
  assumes Put_ok: "st_Put S k d n ct w = (None, w') \<Longrightarrow> n = int (length d) \<Longrightarrow>
      \<exists>et ct'. objs w' = (objs w)(k \<mapsto> \<lparr>bl_data = d, bl_type = ct', bl_etag = et\<rparr>)
        \<and> (ct \<noteq> '''' \<longrightarrow> ct' = ct)"
    and Put_frame: "st_Put S k d n ct w = (res, w') \<Longrightarrow> k' \<noteq> k \<Longrightarrow> objs w' k' = objs w k'"
    and Get_objs: "st_Get S k w = (res', w') \<Longrightarrow> objs w' = objs w"
    and Get_ok: "st_Get S k w = (Inr obj, w') \<Longrightarrow>
      \<exists>b. objs w k = Some b \<and> Size obj = int (length (bl_data b)) \<and> ContentType obj = bl_type b
        \<and> ETag obj = bl_etag b \<and> (BodyErr obj = None \<longrightarrow> Body obj = bl_data b)
        \<and> Body obj = take (length (Body obj)) (bl_data b)"
    and Get_err: "st_Get S k w = (Inl e, w') \<Longrightarrow> errors_Is e ErrNotFound \<Longrightarrow> objs w k = None"
    and Get_err_sentinel: "st_Get S k w = (Inl e, w') \<Longrightarrow> errors_Is e sn \<Longrightarrow>
      sn \<in> {ErrNotFound, ErrUnavailable, ErrCanceled, ErrDeadlineExceeded}"
    and Put_err_sentinel: "st_Put S k d n ct w = (Some e, w') \<Longrightarrow> errors_Is e sn \<Longrightarrow>
      sn \<in> {ErrNotFound, ErrUnavailable, ErrCanceled, ErrDeadlineExceeded}"
    and Delete_ok: "st_DeleteMany S ks w = (None, w') \<Longrightarrow> k \<in> set ks \<Longrightarrow> objs w' k = None"
    and Delete_frame: "st_DeleteMany S ks w = (res, w') \<Longrightarrow> k \<notin> set ks \<Longrightarrow> objs w' k = objs w k"
    and Delete_shrinks: "st_DeleteMany S ks w = (res, w') \<Longrightarrow> objs w' k = None \<or> objs w' k = objs w k"
    and Delete_err_sentinel: "st_DeleteMany S ks w = (Some e, w') \<Longrightarrow> errors_Is e sn \<Longrightarrow>
      sn \<in> {ErrNotFound, ErrUnavailable, ErrCanceled, ErrDeadlineExceeded}"

text \<open>
  \<open>sent\<close> lists what the broker took into a queue; \<open>up\<close> is the publisher's own invariant. A
  failed publication may have been taken all the same.
\<close>

locale event_publisher =
  fixes P :: "'w Publisher" and sent :: "'w \<Rightarrow> content list" and up :: "'w \<Rightarrow> bool"
  assumes Publish_up: "up w \<Longrightarrow> pub_Publish P ev w = (res, w') \<Longrightarrow> up w'"
    and Publish_ok: "up w \<Longrightarrow> pub_Publish P ev w = (None, w') \<Longrightarrow> sent w' = sent w @ [wire ev]"
    and Publish_err: "up w \<Longrightarrow> pub_Publish P ev w = (Some e, w') \<Longrightarrow>
      sent w' = sent w \<or> sent w' = sent w @ [wire ev]"
    and Publish_err_sentinel: "up w \<Longrightarrow> pub_Publish P ev w = (Some e, w') \<Longrightarrow> errors_Is e sn \<Longrightarrow>
      sn \<in> {ErrUnavailable, ErrCanceled, ErrDeadlineExceeded}"

end
