(* ===== verification/S3.thy ===== *)
theory S3
  imports Interfaces
begin

text \<open>
  Package \<open>internal/storage/s3\<close>: the bucket of avatars behind the minio client. The client is
  third-party code: a record of operations on its own state \<open>'s\<close>. The interface
  \<open>minio_client\<close> states the documented behaviour the program relies on; the methods of
  \<open>Storage\<close> turn it into the contract \<open>object_store\<close> (a sublocale), whatever the client.

  A context deadline or cancellation shows up as a \<open>MinioLib\<close> error of the call it hits.
\<close>

section \<open>The client\<close>

text \<open>
  An error of the client: an answer of the storage with a code and a status, or a failure
  below that (transport, deadline, cancellation).
\<close>

datatype minio_error = ErrorResponse string nat | MinioLib lib_error

record ObjectInfo =
  oi_Key :: string
  oi_ETag :: string
  oi_ContentType :: string
  oi_Size :: int

text \<open>
  \<open>GetObject\<close> only returns a handle, the request is sent by \<open>Stat\<close>; \<open>Read\<close> is what reading the
  handle to its end delivers. \<open>RemoveObjects\<close> answers with a result per object.
\<close>

record 's minio =
  mc_PutObject :: "string \<Rightarrow> string \<Rightarrow> bytes \<Rightarrow> int \<Rightarrow> string \<Rightarrow> 's \<Rightarrow> minio_error option \<times> 's"
  mc_GetObject :: "string \<Rightarrow> string \<Rightarrow> 's \<Rightarrow> (minio_error + nat) \<times> 's"
  mc_Stat :: "nat \<Rightarrow> 's \<Rightarrow> (minio_error + ObjectInfo) \<times> 's"
  mc_Read :: "nat \<Rightarrow> 's \<Rightarrow> bytes \<times> lib_error option"
  mc_CloseObject :: "nat \<Rightarrow> 's \<Rightarrow> 's"
  mc_RemoveObjects :: "string \<Rightarrow> ObjectInfo list \<Rightarrow> 's
    \<Rightarrow> (minio_error + (string \<times> minio_error option) list) \<times> 's"
  mc_BucketExists :: "string \<Rightarrow> 's \<Rightarrow> (minio_error + bool) \<times> 's"

section \<open>Errors\<close>

definition NoSuchKey :: string where "NoSuchKey = ''NoSuchKey''"
definition NoSuchBucket :: string where "NoSuchBucket = ''NoSuchBucket''"
definition StatusNotFound :: nat where "StatusNotFound = 404"

fun isNotFound :: "minio_error \<Rightarrow> bool" where
  "isNotFound (ErrorResponse code status) =
     (code = NoSuchKey \<or> code = NoSuchBucket \<or> status = StatusNotFound)"
| "isNotFound (MinioLib l) = False"

fun minio_err :: "minio_error \<Rightarrow> error" where
  "minio_err (ErrorResponse code status) = ErrText"
| "minio_err (MinioLib l) = lib_err l"

definition s3_mapError :: "minio_error option \<Rightarrow> error option" where
  "s3_mapError err =
     (case err of
        None \<Rightarrow> None
      | Some e \<Rightarrow> if isNotFound e then Some (wrapf (Sentinel ErrNotFound))
                  else Some (wrapf (minio_err e)))"

section \<open>Storage\<close>

record 's s3_Storage =
  s3_client :: "'s minio"
  s3_bucket :: string

definition defaultContentType :: string where
  "defaultContentType = ''application/octet-stream''"

definition s3_Put ::
  "'s s3_Storage \<Rightarrow> string \<Rightarrow> bytes \<Rightarrow> int \<Rightarrow> string \<Rightarrow> 's \<Rightarrow> error option \<times> 's" where
  "s3_Put st key r sz contentType s =
     (let contentType = (if contentType = '''' then defaultContentType else contentType);
          (err, s) = mc_PutObject (s3_client st) (s3_bucket st) key r sz contentType s
      in (s3_mapError err, s))"

definition s3_Get :: "'s s3_Storage \<Rightarrow> string \<Rightarrow> 's \<Rightarrow> (error + StoredObject) \<times> 's" where
  "s3_Get st key s =
     (case mc_GetObject (s3_client st) (s3_bucket st) key s of
        (Inl e, s) \<Rightarrow> (Inl (the (s3_mapError (Some e))), s)
      | (Inr obj, s) \<Rightarrow>
          (case mc_Stat (s3_client st) obj s of
             (Inl e, s) \<Rightarrow>
               (Inl (the (s3_mapError (Some e))), mc_CloseObject (s3_client st) obj s)
           | (Inr info, s) \<Rightarrow>
               (let (body, err) = mc_Read (s3_client st) obj s
                in (Inr \<lparr>Body = body, BodyErr = err, ETag = oi_ETag info,
                         ContentType = oi_ContentType info, Size = oi_Size info\<rparr>, s))))"

definition objectInfos :: "string list \<Rightarrow> ObjectInfo list" where
  "objectInfos keys =
     map (\<lambda>key. \<lparr>oi_Key = key, oi_ETag = '''', oi_ContentType = '''', oi_Size = 0\<rparr>) keys"

fun remove_errors :: "(string \<times> minio_error option) list \<Rightarrow> error option list" where
  "remove_errors [] = []"
| "remove_errors ((key, err) # results) =
     (case err of
        None \<Rightarrow> remove_errors results
      | Some e \<Rightarrow> if isNotFound e then remove_errors results
                  else s3_mapError (Some e) # remove_errors results)"

definition s3_DeleteMany :: "'s s3_Storage \<Rightarrow> string list \<Rightarrow> 's \<Rightarrow> error option \<times> 's" where
  "s3_DeleteMany st keys s =
     (if keys = [] then (None, s)
      else case mc_RemoveObjects (s3_client st) (s3_bucket st) (objectInfos keys) s of
             (Inl e, s) \<Rightarrow> (Some (wrapf (minio_err e)), s)
           | (Inr results, s) \<Rightarrow>
               (case errors_Join (remove_errors results) of
                  Some err \<Rightarrow> (Some (wrapf err), s)
                | None \<Rightarrow> (None, s)))"

definition checkBucket :: "'s s3_Storage \<Rightarrow> 's \<Rightarrow> error option \<times> 's" where
  "checkBucket st s =
     (case mc_BucketExists (s3_client st) (s3_bucket st) s of
        (Inl e, s) \<Rightarrow> (Some (wrapf (minio_err e)), s)
      | (Inr ex, s) \<Rightarrow> if \<not> ex then (Some ErrText, s) else (None, s))"

definition s3_Ping :: "'s s3_Storage \<Rightarrow> 's \<Rightarrow> error option \<times> 's" where
  "s3_Ping st s = (let (err, s) = checkBucket st s in (map_option wrapf err, s))"

text \<open>
  \<open>New\<close>: \<open>client\<close> is what the client library's constructor returned for the configuration.
\<close>

definition s3_New ::
  "(error + 's minio) \<Rightarrow> string \<Rightarrow> 's \<Rightarrow> (error + 's s3_Storage) \<times> 's" where
  "s3_New client bucket s =
     (case client of
        Inl e \<Rightarrow> (Inl (wrapf e), s)
      | Inr c \<Rightarrow>
          (let st = \<lparr>s3_client = c, s3_bucket = bucket\<rparr>; (err, s) = checkBucket st s
           in case err of Some e \<Rightarrow> (Inl e, s) | None \<Rightarrow> (Inr st, s)))"

definition s3_storage :: "'s s3_Storage \<Rightarrow> 's Storage" where
  "s3_storage st = \<lparr>st_Put = s3_Put st, st_Get = s3_Get st, st_DeleteMany = s3_DeleteMany st\<rparr>"

section \<open>Error lemmas\<close>

lemma minio_err_Is: "errors_Is (minio_err e) sn \<Longrightarrow> sn = ErrCanceled \<or> sn = ErrDeadlineExceeded"
  by (cases e) auto

lemma s3_mapError_None [simp]:
  "s3_mapError err = None \<longleftrightarrow> err = None" "None = s3_mapError err \<longleftrightarrow> err = None"
  by (auto simp: s3_mapError_def split: option.splits)

lemma s3_mapError_NotFound:
  "s3_mapError (Some e) = Some x \<Longrightarrow> errors_Is x ErrNotFound \<longleftrightarrow> isNotFound e"
  by (auto simp: s3_mapError_def dest: minio_err_Is split: if_splits)

lemma s3_mapError_sentinel:
  assumes "s3_mapError err = Some x" and "errors_Is x sn"
  shows "sn \<in> {ErrNotFound, ErrUnavailable, ErrCanceled, ErrDeadlineExceeded}"
  using assms by (auto simp: s3_mapError_def dest: minio_err_Is split: option.splits if_splits)

lemma remove_errors_member:
  "x \<in> set (remove_errors rs) \<longleftrightarrow>
     (\<exists>k e. (k, Some e) \<in> set rs \<and> \<not> isNotFound e \<and> x = s3_mapError (Some e))"
  by (induction rs rule: remove_errors.induct) (auto split: option.splits)

lemma remove_errors_Join_None:
  "errors_Join (remove_errors rs) = None \<longleftrightarrow> (\<forall>k e. (k, Some e) \<in> set rs \<longrightarrow> isNotFound e)"
proof -
  have "errors_Join (remove_errors rs) = None \<longleftrightarrow> remove_errors rs = []"
    by (induction rs rule: remove_errors.induct) (auto simp: s3_mapError_def split: option.splits)
  also have "\<dots> \<longleftrightarrow> (\<forall>x. x \<notin> set (remove_errors rs))" by (metis all_not_in_conv set_empty)
  finally show ?thesis unfolding remove_errors_member by blast
qed

lemma objectInfos_keys [simp]: "map oi_Key (objectInfos keys) = keys"
  by (simp add: objectInfos_def comp_def)

section \<open>What the program relies on in the client\<close>

locale minio_client =
  fixes C :: "'s minio" and bucket :: string and objs :: "'s \<Rightarrow> string \<rightharpoonup> blob"
  assumes put_stores: "mc_PutObject C bucket k d n ct s = (None, s') \<Longrightarrow> n = int (length d) \<Longrightarrow>
      \<exists>et. objs s' = (objs s)(k \<mapsto> \<lparr>bl_data = d, bl_type = ct, bl_etag = et\<rparr>)"
    and put_local: "mc_PutObject C bucket k d n ct s = (res, s') \<Longrightarrow> k' \<noteq> k \<Longrightarrow>
      objs s' k' = objs s k'"
    and get_reads: "mc_GetObject C bucket k s = (res', s') \<Longrightarrow> objs s' = objs s"
    and get_absent: "mc_GetObject C bucket k s = (Inl e, s') \<Longrightarrow> isNotFound e \<Longrightarrow> objs s k = None"
    and stat_reads: "mc_Stat C h s = (res'', s') \<Longrightarrow> objs s' = objs s"
    and stat_absent: "mc_GetObject C bucket k s = (Inr h, s1) \<Longrightarrow>
      mc_Stat C h s1 = (Inl e, s') \<Longrightarrow> isNotFound e \<Longrightarrow> objs s k = None"
    and stat_found: "mc_GetObject C bucket k s = (Inr h, s1) \<Longrightarrow>
      mc_Stat C h s1 = (Inr info, s') \<Longrightarrow>
      \<exists>b. objs s k = Some b \<and> oi_Size info = int (length (bl_data b))
        \<and> oi_ContentType info = bl_type b \<and> oi_ETag info = bl_etag b
        \<and> (snd (mc_Read C h s') = None \<longrightarrow> fst (mc_Read C h s') = bl_data b)
        \<and> fst (mc_Read C h s') = take (length (fst (mc_Read C h s'))) (bl_data b)"
    and close_reads: "objs (mc_CloseObject C h s) = objs s"
    and remove_local: "mc_RemoveObjects C bucket ois s = (res''', s') \<Longrightarrow>
      objs s' k = objs s k \<or> (k \<in> oi_Key ` set ois \<and> objs s' k = None)"
    and remove_each: "mc_RemoveObjects C bucket ois s = (Inr rs, s') \<Longrightarrow> k \<in> oi_Key ` set ois \<Longrightarrow>
      objs s' k = None \<or> (\<exists>e. (k, Some e) \<in> set rs)"
    and remove_absent: "mc_RemoveObjects C bucket ois s = (Inr rs, s') \<Longrightarrow>
      (k, Some e) \<in> set rs \<Longrightarrow> isNotFound e \<Longrightarrow> objs s' k = None"
begin

abbreviation store :: "'s s3_Storage" where
  "store \<equiv> \<lparr>s3_client = C, s3_bucket = bucket\<rparr>"

lemma Put_cases:
  assumes "s3_Put store k d n ct s = (res, s')"
  shows "\<exists>err. mc_PutObject C bucket k d n (if ct = '''' then defaultContentType else ct) s = (err, s')
    \<and> res = s3_mapError err"
  using assms by (auto simp: s3_Put_def Let_def split: prod.splits)

lemma Get_found:
  assumes "s3_Get store k s = (Inr obj, s')"
  shows "\<exists>b. objs s k = Some b \<and> Size obj = int (length (bl_data b)) \<and> ContentType obj = bl_type b
    \<and> ETag obj = bl_etag b \<and> (BodyErr obj = None \<longrightarrow> Body obj = bl_data b)
    \<and> Body obj = take (length (Body obj)) (bl_data b)"
proof -
  from assms obtain h s1 info where g: "mc_GetObject C bucket k s = (Inr h, s1)"
    and st: "mc_Stat C h s1 = (Inr info, s')"
    and obj: "obj = \<lparr>Body = fst (mc_Read C h s'), BodyErr = snd (mc_Read C h s'),
      ETag = oi_ETag info, ContentType = oi_ContentType info, Size = oi_Size info\<rparr>"
    by (auto simp: s3_Get_def Let_def split: prod.splits sum.splits)
  from stat_found [OF g st] show ?thesis by (auto simp: obj)
qed

lemma Get_failed:
  assumes "s3_Get store k s = (Inl e, s')"
  shows "errors_Is e ErrNotFound \<Longrightarrow> objs s k = None"
    and "errors_Is e sn \<Longrightarrow> sn \<in> {ErrNotFound, ErrUnavailable, ErrCanceled, ErrDeadlineExceeded}"
proof -
  from assms obtain me where e: "s3_mapError (Some me) = Some e" and
    cause: "mc_GetObject C bucket k s = (Inl me, s')
      \<or> (\<exists>h s1 s2. mc_GetObject C bucket k s = (Inr h, s1) \<and> mc_Stat C h s1 = (Inl me, s2))"
    by (auto simp: s3_Get_def s3_mapError_def Let_def split: prod.splits sum.splits)
  show "objs s k = None" if "errors_Is e ErrNotFound"
  proof -
    from that e have "isNotFound me" by (simp add: s3_mapError_NotFound)
    with cause show ?thesis by (blast intro: get_absent stat_absent)
  qed
  show "sn \<in> {ErrNotFound, ErrUnavailable, ErrCanceled, ErrDeadlineExceeded}" if "errors_Is e sn"
    using s3_mapError_sentinel [OF e that] .
qed

lemma Get_keeps:
  assumes "s3_Get store k s = (res, s')"
  shows "objs s' = objs s"
  using assms
  by (auto simp: s3_Get_def Let_def close_reads dest!: get_reads stat_reads
      split: prod.splits sum.splits)

lemma DeleteMany_removed:
  assumes "s3_DeleteMany store ks s = (None, s')" and "k \<in> set ks"
  shows "objs s' k = None"
proof -
  from assms obtain rs where r: "mc_RemoveObjects C bucket (objectInfos ks) s = (Inr rs, s')"
    and ok: "errors_Join (remove_errors rs) = None"
    by (auto simp: s3_DeleteMany_def simp del: errors_Join_None
        split: if_splits prod.splits sum.splits option.splits)
  have "k \<in> oi_Key ` set (objectInfos ks)"
    using assms(2) by (metis objectInfos_keys set_map)
  from remove_each [OF r this] remove_absent [OF r] ok show ?thesis
    unfolding remove_errors_Join_None by blast
qed

lemma DeleteMany_local:
  assumes "s3_DeleteMany store ks s = (res, s')"
  shows "objs s' k = objs s k \<or> (k \<in> set ks \<and> objs s' k = None)"
proof (cases "ks = []")
  case True
  with assms show ?thesis by (simp add: s3_DeleteMany_def)
next
  case False
  with assms obtain r where r: "mc_RemoveObjects C bucket (objectInfos ks) s = (r, s')"
    by (auto simp: s3_DeleteMany_def split: prod.splits sum.splits option.splits)
  have "oi_Key ` set (objectInfos ks) = set ks" by (metis objectInfos_keys set_map)
  with remove_local [OF r] show ?thesis by blast
qed

lemma DeleteMany_failed:
  assumes "s3_DeleteMany store ks s = (Some e, s')" and "errors_Is e sn"
  shows "sn = ErrCanceled \<or> sn = ErrDeadlineExceeded"
proof -
  from assms(1) consider me where "e = wrapf (minio_err me)"
    | rs j where "errors_Join (remove_errors rs) = Some j" "e = wrapf j"
    by (auto simp: s3_DeleteMany_def split: if_splits prod.splits sum.splits option.splits)
  then show ?thesis
  proof cases
    case 1
    with assms(2) show ?thesis by (simp add: minio_err_Is)
  next
    case 2
    with assms(2) errors_Join_Is [OF 2(1), of sn] obtain x where
      "Some x \<in> set (remove_errors rs)" and "errors_Is x sn" by auto
    then show ?thesis by (auto simp: remove_errors_member s3_mapError_def dest: minio_err_Is)
  qed
qed

end

sublocale minio_client \<subseteq> object_store "s3_storage \<lparr>s3_client = C, s3_bucket = bucket\<rparr>" objs
proof (unfold_locales, unfold s3_storage_def Storage.simps)
  fix k d n ct w w'
  assume "s3_Put store k d n ct w = (None, w')" and n: "n = int (length d)"
  then have "mc_PutObject C bucket k d n (if ct = '''' then defaultContentType else ct) w = (None, w')"
    by (auto dest!: Put_cases simp del: if_split)
  from put_stores [OF this n] obtain et where "objs w' = (objs w)(k \<mapsto>
      \<lparr>bl_data = d, bl_type = (if ct = '''' then defaultContentType else ct), bl_etag = et\<rparr>)" ..
  moreover have "ct \<noteq> '''' \<longrightarrow> (if ct = '''' then defaultContentType else ct) = ct" by simp
  ultimately show "\<exists>et ct'. objs w' = (objs w)(k \<mapsto> \<lparr>bl_data = d, bl_type = ct', bl_etag = et\<rparr>)
      \<and> (ct \<noteq> '''' \<longrightarrow> ct' = ct)" by blast
next
  fix k d n ct w w' k' and res :: "error option"
  assume "s3_Put store k d n ct w = (res, w')" and "k' \<noteq> k"
  then show "objs w' k' = objs w k'" using put_local by (blast dest!: Put_cases)
next
  fix k d n ct w e w' sn
  assume "s3_Put store k d n ct w = (Some e, w')" and "errors_Is e sn"
  then show "sn \<in> {ErrNotFound, ErrUnavailable, ErrCanceled, ErrDeadlineExceeded}"
    using s3_mapError_sentinel by (metis Put_cases)
next
  fix ks w w' k and res :: "error option"
  assume d: "s3_DeleteMany store ks w = (res, w')"
  show "objs w' k = objs w k" if "k \<notin> set ks" using DeleteMany_local [OF d] that by blast
  show "objs w' k = None \<or> objs w' k = objs w k" using DeleteMany_local [OF d] by blast
next
  fix ks w e w' sn
  assume "s3_DeleteMany store ks w = (Some e, w')" and "errors_Is e sn"
  then show "sn \<in> {ErrNotFound, ErrUnavailable, ErrCanceled, ErrDeadlineExceeded}"
    using DeleteMany_failed by blast
qed (rule Get_keeps Get_found Get_failed DeleteMany_removed; assumption)+

context minio_client
begin

lemma is_object_store: "object_store (s3_storage \<lparr>s3_client = C, s3_bucket = bucket\<rparr>) objs"
  by unfold_locales

end

section \<open>A storage server\<close>

text \<open>
  A bucket in memory that meets the interface, with every failure the interface allows: a
  request may fail before or after its effect, a batch deletion may miss some keys, the stream
  of a body may break. It answers with the codes S3 documents.
\<close>

record bucket_server =
  bs_name :: string
  bs_objs :: "string \<rightharpoonup> blob"
  bs_fault :: "nat \<Rightarrow> fault"
  bs_keep :: "nat \<Rightarrow> string \<Rightarrow> bool"
  bs_tick :: nat
  bs_open :: "string list"

definition bs_next :: "bucket_server \<Rightarrow> bucket_server" where
  "bs_next s = s\<lparr>bs_tick := Suc (bs_tick s)\<rparr>"

definition no_bucket :: minio_error where "no_bucket = ErrorResponse NoSuchBucket 404"
definition no_key :: minio_error where "no_key = ErrorResponse NoSuchKey 404"

definition etag_of :: "bytes \<Rightarrow> string" where
  "etag_of d = map (\<lambda>b. char_of (unat b)) d"

definition bs_put :: "string \<Rightarrow> string \<Rightarrow> bytes \<Rightarrow> int \<Rightarrow> string \<Rightarrow> bucket_server
    \<Rightarrow> minio_error option \<times> bucket_server" where
  "bs_put b k d n ct s =
     (let stored = (if n = int (length d)
                    then (bs_objs s)(k \<mapsto> \<lparr>bl_data = d, bl_type = ct, bl_etag = etag_of d\<rparr>)
                    else bs_objs s)
      in if b \<noteq> bs_name s then (Some no_bucket, bs_next s)
         else case bs_fault s (bs_tick s) of
           NoFault \<Rightarrow> (if n = int (length d) then None else Some (MinioLib LibOther),
                        bs_next (s\<lparr>bs_objs := stored\<rparr>))
         | FailBefore l \<Rightarrow> (Some (MinioLib l), bs_next s)
         | FailAfter _ l \<Rightarrow> (Some (MinioLib l), bs_next (s\<lparr>bs_objs := stored\<rparr>)))"

definition bs_get :: "string \<Rightarrow> string \<Rightarrow> bucket_server \<Rightarrow> (minio_error + nat) \<times> bucket_server" where
  "bs_get b k s =
     (if b \<noteq> bs_name s then (Inl (MinioLib LibOther), s)
      else (Inr (length (bs_open s)), s\<lparr>bs_open := bs_open s @ [k]\<rparr>))"

definition bs_stat :: "nat \<Rightarrow> bucket_server \<Rightarrow> (minio_error + ObjectInfo) \<times> bucket_server" where
  "bs_stat h s =
     (if length (bs_open s) \<le> h then (Inl (MinioLib LibOther), bs_next s)
      else case (bs_fault s (bs_tick s), bs_objs s (bs_open s ! h)) of
        (FailBefore l, _) \<Rightarrow> (Inl (MinioLib l), bs_next s)
      | (_, None) \<Rightarrow> (Inl no_key, bs_next s)
      | (_, Some bl) \<Rightarrow>
          (Inr \<lparr>oi_Key = bs_open s ! h, oi_ETag = bl_etag bl, oi_ContentType = bl_type bl,
                oi_Size = int (length (bl_data bl))\<rparr>, bs_next s))"

definition bs_read :: "nat \<Rightarrow> bucket_server \<Rightarrow> bytes \<times> lib_error option" where
  "bs_read h s =
     (case if h < length (bs_open s) then bs_objs s (bs_open s ! h) else None of
        None \<Rightarrow> ([], Some LibOther)
      | Some bl \<Rightarrow>
          (case bs_fault s (bs_tick s) of
             NoFault \<Rightarrow> (bl_data bl, None)
           | FailBefore l \<Rightarrow> ([], Some l)
           | FailAfter k l \<Rightarrow> (take k (bl_data bl), Some l)))"

definition bs_remove :: "string \<Rightarrow> ObjectInfo list \<Rightarrow> bucket_server
    \<Rightarrow> (minio_error + (string \<times> minio_error option) list) \<times> bucket_server" where
  "bs_remove b ois s =
     (let keeps = bs_keep s (bs_tick s);
          gone = (\<lambda>k. if k \<in> oi_Key ` set ois \<and> \<not> keeps k then None else bs_objs s k);
          rs = map (\<lambda>oi. (oi_Key oi,
                 if keeps (oi_Key oi) then Some (ErrorResponse ''InternalError'' 500) else None)) ois
      in if b \<noteq> bs_name s then (Inr (map (\<lambda>oi. (oi_Key oi, Some (MinioLib LibOther))) ois), bs_next s)
         else case bs_fault s (bs_tick s) of
           NoFault \<Rightarrow> (Inr rs, bs_next (s\<lparr>bs_objs := gone\<rparr>))
         | FailBefore l \<Rightarrow> (Inr (map (\<lambda>oi. (oi_Key oi, Some (MinioLib l))) ois), bs_next s)
         | FailAfter _ l \<Rightarrow>
             (Inr (map (\<lambda>oi. (oi_Key oi, Some (MinioLib l))) ois), bs_next (s\<lparr>bs_objs := gone\<rparr>)))"

definition bs_exists :: "string \<Rightarrow> bucket_server \<Rightarrow> (minio_error + bool) \<times> bucket_server" where
  "bs_exists b s =
     (case bs_fault s (bs_tick s) of
        NoFault \<Rightarrow> (Inr (b = bs_name s), bs_next s)
      | FailBefore l \<Rightarrow> (Inl (MinioLib l), bs_next s)
      | FailAfter _ l \<Rightarrow> (Inl (MinioLib l), bs_next s))"

definition server_client :: "bucket_server minio" where
  "server_client = \<lparr>mc_PutObject = bs_put, mc_GetObject = bs_get, mc_Stat = bs_stat,
     mc_Read = bs_read, mc_CloseObject = (\<lambda>h s. s), mc_RemoveObjects = bs_remove,
     mc_BucketExists = bs_exists\<rparr>"

lemma bs_next_simps [simp]:
  "bs_objs (bs_next s) = bs_objs s" "bs_open (bs_next s) = bs_open s"
  "bs_name (bs_next s) = bs_name s"
  by (simp_all add: bs_next_def)

lemmas server_defs = server_client_def bs_put_def bs_get_def bs_stat_def bs_read_def bs_remove_def
  bs_exists_def no_bucket_def no_key_def NoSuchKey_def NoSuchBucket_def StatusNotFound_def

text \<open>The stored objects of the bucket the storage is configured with.\<close>

definition bucket_objs :: "string \<Rightarrow> bucket_server \<Rightarrow> string \<rightharpoonup> blob" where
  "bucket_objs b s = (if b = bs_name s then bs_objs s else Map.empty)"

lemma bs_remove_each:
  assumes "bs_remove b ois s = (Inr rs, s')" and "oi \<in> set ois"
  shows "bucket_objs b s' (oi_Key oi) = None \<or> (\<exists>e. (oi_Key oi, Some e) \<in> set rs)"
proof (cases "b = bs_name s")
  case True
  show ?thesis
  proof (cases "bs_fault s (bs_tick s)")
    case NoFault
    show ?thesis
    proof (cases "bs_keep s (bs_tick s) (oi_Key oi)")
      case True
      with NoFault \<open>b = bs_name s\<close> assms
      have "(oi_Key oi, Some (ErrorResponse ''InternalError'' 500)) \<in> set rs"
        by (auto simp: bs_remove_def Let_def intro!: image_eqI [of _ _ oi])
      then show ?thesis by blast
    next
      case False
      have "bs_objs s' (oi_Key oi) = None"
        using NoFault \<open>b = bs_name s\<close> False assms by (auto simp: bs_remove_def Let_def)
      then show ?thesis by (simp add: bucket_objs_def)
    qed
  qed (use True assms in \<open>auto simp: bs_remove_def Let_def image_iff\<close>)
qed (use assms in \<open>auto simp: bs_remove_def Let_def image_iff\<close>)

interpretation bucket_client: minio_client server_client b "bucket_objs b"
proof (unfold_locales, goal_cases)
  case (6 k s h s1 e s')
  then show ?case
    by (auto simp: server_defs bucket_objs_def nth_append split: if_splits option.splits fault.splits)
next
  case (7 k s h s1 info s')
  then show ?case
    by (auto simp: server_defs bucket_objs_def nth_append min_def split: if_splits option.splits fault.splits)
next
  case (10 ois s rs s' k)
  then obtain oi where "oi \<in> set ois" and "k = oi_Key oi" by blast
  with 10 show ?case by (simp add: server_client_def bs_remove_each)
qed (auto simp: server_defs bucket_objs_def Let_def
      split: if_splits option.splits fault.splits)

section \<open>Properties\<close>

text \<open>
  (C19) Over any client that behaves as minio documents, the storage keeps the contract the
  service and the worker rely on: what is put is read back byte for byte, a read reports a
  missing object only when it is missing, a batch deletion that succeeds removed every key, no
  operation touches another key, and only the expected sentinels come out.
\<close>

theorem s3_keeps_contract:
  assumes "minio_client C bucket objs"
  shows "object_store (s3_storage \<lparr>s3_client = C, s3_bucket = bucket\<rparr>) objs"
  by (rule minio_client.is_object_store [OF assms])

theorem s3_keeps_contract_witness:
  "object_store (s3_storage \<lparr>s3_client = server_client, s3_bucket = ''avatars''\<rparr>) (bucket_objs ''avatars'')"
  by (rule s3_keeps_contract [OF bucket_client.minio_client_axioms])

text \<open>
  Put then get through the storage gives back the bytes, their number and the content type,
  whatever was stored under the key before, if neither call reports an error and the body can be
  read to its end.
\<close>

theorem s3_put_get:
  assumes "minio_client C bucket objs"
    and "s3_Put \<lparr>s3_client = C, s3_bucket = bucket\<rparr> k d (int (length d)) ct s = (None, s1)"
    and "s3_Get \<lparr>s3_client = C, s3_bucket = bucket\<rparr> k s1 = (Inr obj, s2)" and "BodyErr obj = None"
  shows "Body obj = d \<and> Size obj = int (length d)
    \<and> ContentType obj = (if ct = '''' then defaultContentType else ct)"
proof -
  note laws = minio_client.put_stores [OF assms(1)] minio_client.Put_cases [OF assms(1) assms(2)]
  from laws(2) have put: "mc_PutObject C bucket k d (int (length d)) (if ct = '''' then defaultContentType else ct) s
      = (None, s1)" by (auto simp del: if_split)
  from laws(1) [OF this refl] obtain et where "objs s1 k = Some \<lparr>bl_data = d,
      bl_type = (if ct = '''' then defaultContentType else ct), bl_etag = et\<rparr>" by fastforce
  with minio_client.Get_found [OF assms(1,3)] assms(4) show ?thesis by auto
qed

definition bucket1 :: bucket_server where
  "bucket1 = \<lparr>bs_name = ''avatars'', bs_objs = Map.empty, bs_fault = (\<lambda>_. NoFault), bs_keep = (\<lambda>_ _. False),
     bs_tick = 0, bs_open = []\<rparr>"

theorem s3_put_get_witness:
  "\<exists>obj s2. s3_Get \<lparr>s3_client = server_client, s3_bucket = ''avatars''\<rparr> ''k''
       (snd (s3_Put \<lparr>s3_client = server_client, s3_bucket = ''avatars''\<rparr> ''k'' [1, 2] 2 '''' bucket1)) = (Inr obj, s2)
     \<and> Body obj = [1, 2] \<and> ContentType obj = defaultContentType"
proof -
  let ?st = "\<lparr>s3_client = server_client, s3_bucket = ''avatars''\<rparr>"
  let ?put = "s3_Put ?st ''k'' [1, 2] 2 '''' bucket1"
  have put: "?put = (None, snd ?put)"
    by (simp add: s3_Put_def server_defs bucket1_def s3_mapError_def)
  have "is_ok (fst (s3_Get ?st ''k'' (snd ?put)))
      \<and> (case fst (s3_Get ?st ''k'' (snd ?put)) of Inr obj \<Rightarrow> BodyErr obj = None | _ \<Rightarrow> False)"
    by (simp add: s3_Get_def s3_Put_def server_defs bucket1_def s3_mapError_def bs_next_def)
  then obtain obj s2 where get: "s3_Get ?st ''k'' (snd ?put) = (Inr obj, s2)" and "BodyErr obj = None"
    by (auto simp: is_ok_def split: sum.splits prod.splits)
      (metis prod.collapse)
  with s3_put_get [OF bucket_client.minio_client_axioms, of "''avatars''" "''k''" "[1, 2]" "''''" bucket1 "snd ?put"] put
  show ?thesis by fastforce
qed

end
