(* ===== verification/Amqp.thy ===== *)
theory Amqp
  imports Events "HOL-Library.Multiset" "HOL-Library.AList"
begin

text \<open>
  The RabbitMQ client as the program uses it: field tables, messages, and the operations of a
  connection and its channels on a state \<open>'c\<close> of its own. The client and the broker behind
  it are third-party; the interface \<open>amqp_client\<close> states the documented behaviour the program
  relies on, in terms of what can be observed of the broker.
\<close>

section \<open>Field tables\<close>

text \<open>The Go types a header value may have; integers keep their width.\<close>

datatype amqp_value =
    VInt64 "64 word" | VInt32 "32 word" | VInt16 "16 word" | VInt "64 word"
  | VString string | VTable "(string \<times> amqp_value) list" | VList "amqp_value list" | VOther

text \<open>
  A table is a Go map; it is kept as an association list, read at the first entry of a key and
  written in place, so that the order of entries never shows in what is read.
\<close>

type_synonym amqp_table = "(string \<times> amqp_value) list"

definition table_get :: "amqp_table \<Rightarrow> string \<Rightarrow> amqp_value option" where
  "table_get t k = map_of t k"

definition table_put :: "string \<Rightarrow> amqp_value \<Rightarrow> amqp_table \<Rightarrow> amqp_table" where
  "table_put k v t = AList.update k v t"

lemma table_get_put [simp]:
  "table_get (table_put k v t) k' = (if k' = k then Some v else table_get t k')"
  by (simp add: table_get_def table_put_def update_conv')

lemma table_get_literal [simp]:
  "table_get [] k' = None"
  "table_get ((k, v) # t) k' = (if k' = k then Some v else table_get t k')"
  by (simp_all add: table_get_def)

section \<open>Messages\<close>

record Publishing =
  Headers :: amqp_table
  m_ContentType :: string
  DeliveryMode :: nat
  MessageId :: string
  CorrelationId :: string
  Type :: string
  Timestamp :: time
  m_Body :: "json option"

definition Transient :: nat where "Transient = 1"
definition Persistent :: nat where "Persistent = 2"

text \<open>A delivery: the message, its tag on the channel and the key it was routed with.\<close>

record Delivery = Publishing +
  d_Tag :: nat
  d_RoutingKey :: string

text \<open>What makes two copies of a message the same event.\<close>

definition content :: "'a Publishing_scheme \<Rightarrow> content" where
  "content m = (Type m, MessageId m, m_Body m)"

section \<open>The client\<close>

datatype amqp_error = AmqpClosed | AmqpLib lib_error

fun amqp_err :: "amqp_error \<Rightarrow> error" where
  "amqp_err AmqpClosed = ErrText"
| "amqp_err (AmqpLib l) = lib_err l"

lemma amqp_err_Is: "errors_Is (amqp_err e) sn \<Longrightarrow> sn = ErrCanceled \<or> sn = ErrDeadlineExceeded"
  by (cases e) auto

text \<open>
  Channels and pending confirmations are numbered. \<open>ac_Publish\<close> is
  \<open>PublishWithDeferredConfirmWithContext\<close> with \<open>mandatory\<close> set, \<open>ac_Wait\<close> is \<open>WaitContext\<close>,
  \<open>ac_PollReturn\<close> a receive on the channel given to \<open>NotifyReturn\<close> that does not block: whether
  a returned message was there.
\<close>

record 'c amqp =
  ac_ConnIsClosed :: "'c \<Rightarrow> bool"
  ac_ConnClose :: "'c \<Rightarrow> amqp_error option \<times> 'c"
  ac_Channel :: "'c \<Rightarrow> (amqp_error + nat) \<times> 'c"
  ac_ChIsClosed :: "nat \<Rightarrow> 'c \<Rightarrow> bool"
  ac_ChClose :: "nat \<Rightarrow> 'c \<Rightarrow> amqp_error option \<times> 'c"
  ac_Confirm :: "nat \<Rightarrow> 'c \<Rightarrow> amqp_error option \<times> 'c"
  ac_NotifyReturn :: "nat \<Rightarrow> 'c \<Rightarrow> 'c"
  ac_Publish :: "nat \<Rightarrow> string \<Rightarrow> string \<Rightarrow> Publishing \<Rightarrow> 'c \<Rightarrow> (amqp_error + nat) \<times> 'c"
  ac_Wait :: "nat \<Rightarrow> 'c \<Rightarrow> (amqp_error + bool) \<times> 'c"
  ac_PollReturn :: "nat \<Rightarrow> 'c \<Rightarrow> bool \<times> 'c"
  ac_Ack :: "nat \<Rightarrow> nat \<Rightarrow> 'c \<Rightarrow> amqp_error option \<times> 'c"
  ac_Reject :: "nat \<Rightarrow> nat \<Rightarrow> bool \<Rightarrow> 'c \<Rightarrow> amqp_error option \<times> 'c"
  ac_ExchangeDeclare :: "nat \<Rightarrow> string \<Rightarrow> string \<Rightarrow> 'c \<Rightarrow> amqp_error option \<times> 'c"
  ac_QueueDeclare :: "nat \<Rightarrow> string \<Rightarrow> amqp_table \<Rightarrow> 'c \<Rightarrow> amqp_error option \<times> 'c"
  ac_QueueDeclarePassive :: "nat \<Rightarrow> string \<Rightarrow> 'c \<Rightarrow> amqp_error option \<times> 'c"
  ac_QueueBind :: "nat \<Rightarrow> string \<Rightarrow> string \<Rightarrow> string \<Rightarrow> 'c \<Rightarrow> amqp_error option \<times> 'c"
  ac_Qos :: "nat \<Rightarrow> int \<Rightarrow> 'c \<Rightarrow> amqp_error option \<times> 'c"
  ac_Consume :: "nat \<Rightarrow> string \<Rightarrow> 'c \<Rightarrow> amqp_error option \<times> 'c"

section \<open>What can be observed of the broker\<close>

text \<open>
  The declared exchanges, queues and bindings (exchange, key, queue). \<open>v_routed\<close>: the messages
  published so far that went into at least one queue, with exchange and key. \<open>v_held\<close>: the
  contents the broker keeps, in a queue or delivered and not settled. \<open>v_pending\<close>: the unsettled
  deliveries by channel and tag, with the queue and the routing key. The last three are the
  channels in confirm mode, those with a listener for returned messages, and those where a
  returned message waits in the listener's buffer.
\<close>

record mq_view =
  v_exchanges :: "string \<rightharpoonup> string"
  v_queues :: "string \<rightharpoonup> amqp_table"
  v_bindings :: "(string \<times> string \<times> string) set"
  v_routed :: "(string \<times> string \<times> Publishing) list"
  v_held :: "content multiset"
  v_pending :: "nat \<Rightarrow> nat \<rightharpoonup> (string \<times> string \<times> content)"
  v_confirms :: "nat set"
  v_listens :: "nat set"
  v_returned :: "nat set"

text \<open>A message was routed: the log grows, the broker holds at least one more copy.\<close>

definition routed_step :: "string \<Rightarrow> string \<Rightarrow> Publishing \<Rightarrow> mq_view \<Rightarrow> mq_view \<Rightarrow> bool" where
  "routed_step e k m v v' \<longleftrightarrow>
     (\<exists>h. v_held v + {#content m#} \<subseteq># h
        \<and> v' = v\<lparr>v_routed := v_routed v @ [(e, k, m)], v_held := h\<rparr>)"

text \<open>
  A message with key \<open>k\<close> that queue \<open>q\<close> dead-letters finds a queue: \<open>q\<close> names a direct exchange
  for its dead letters, sets no key of its own, and a queue is bound there with \<open>k\<close>.
\<close>

definition dead_letters :: "mq_view \<Rightarrow> string \<Rightarrow> string \<Rightarrow> bool" where
  "dead_letters v q k \<longleftrightarrow>
     (\<exists>args x q'. v_queues v q = Some args
        \<and> table_get args ''x-dead-letter-exchange'' = Some (VString x)
        \<and> table_get args ''x-dead-letter-routing-key'' = None
        \<and> v_exchanges v x = Some ''direct'' \<and> (x, k, q') \<in> v_bindings v)"

text \<open>
  Settling one delivery, with \<open>multiple\<close> unset, leaves the declarations, the modes of the channels
  and every other delivery alone.
\<close>

definition settle_frame :: "nat \<Rightarrow> nat \<Rightarrow> mq_view \<Rightarrow> mq_view \<Rightarrow> bool" where
  "settle_frame ch t v v' \<longleftrightarrow>
     v_exchanges v' = v_exchanges v \<and> v_queues v' = v_queues v \<and> v_bindings v' = v_bindings v
   \<and> v_confirms v' = v_confirms v \<and> v_listens v' = v_listens v
   \<and> (\<forall>ch' t'. (ch', t') \<noteq> (ch, t) \<longrightarrow> v_pending v' ch' t' = v_pending v ch' t')"

locale amqp_client =
  fixes C :: "'c amqp" and obs :: "'c \<Rightarrow> mq_view"
  assumes chan_obs: "ac_Channel C c = (res, c') \<Longrightarrow> obs c' = obs c"
    and chan_fresh: "ac_Channel C c = (Inr ch, c') \<Longrightarrow>
      ch \<notin> v_confirms (obs c) \<and> v_pending (obs c) ch = Map.empty"
    and close_obs: "ac_ChClose C ch c = (res', c') \<Longrightarrow>
      \<exists>p cs ls rs. obs c' = (obs c)\<lparr>v_pending := p, v_confirms := cs, v_listens := ls, v_returned := rs\<rparr>
        \<and> (\<forall>ch'. ch' \<noteq> ch \<longrightarrow> p ch' = v_pending (obs c) ch'
             \<and> (ch' \<in> cs \<longleftrightarrow> ch' \<in> v_confirms (obs c)) \<and> (ch' \<in> ls \<longleftrightarrow> ch' \<in> v_listens (obs c)))"
    and confirm_obs: "ac_Confirm C ch c = (res', c') \<Longrightarrow>
      obs c' = obs c \<or> obs c' = (obs c)\<lparr>v_confirms := insert ch (v_confirms (obs c))\<rparr>"
    and confirm_mode: "ac_Confirm C ch c = (None, c') \<Longrightarrow> ch \<in> v_confirms (obs c')"
    and notify_obs: "obs (ac_NotifyReturn C ch c) =
      (obs c)\<lparr>v_listens := insert ch (v_listens (obs c))\<rparr>"
    and publish_obs: "ac_Publish C ch e k m c = (res2, c') \<Longrightarrow>
      obs c' = obs c \<or> routed_step e k m (obs c) (obs c')
      \<or> obs c' = (obs c)\<lparr>v_returned := insert ch (v_returned (obs c))\<rparr>"
    and wait_obs: "ac_Wait C cf c = (res3, c') \<Longrightarrow> obs c' = obs c"
    and acked: "ch \<in> v_confirms (obs c) \<Longrightarrow> ch \<in> v_listens (obs c) \<Longrightarrow>
      ac_Publish C ch e k m c = (Inr cf, c1) \<Longrightarrow> ac_Wait C cf c1 = (Inr True, c2) \<Longrightarrow>
      routed_step e k m (obs c) (obs c1) \<or> ch \<in> v_returned (obs c1)"
    and poll_none: "ac_PollReturn C ch c = (False, c') \<Longrightarrow>
      obs c' = obs c \<and> (ch \<in> v_listens (obs c) \<longrightarrow> ch \<notin> v_returned (obs c))"
    and poll_some: "ac_PollReturn C ch c = (True, c') \<Longrightarrow>
      obs c' = (obs c)\<lparr>v_returned := v_returned (obs c) - {ch}\<rparr>"
    and ack_obs: "ac_Ack C ch t c = (res', c') \<Longrightarrow> v_pending (obs c) ch t = Some (q, k, x) \<Longrightarrow>
      v_routed (obs c') = v_routed (obs c) \<and> v_held (obs c) \<subseteq># v_held (obs c') + {#x#}"
    and reject_obs: "ac_Reject C ch t False c = (res', c') \<Longrightarrow>
      v_pending (obs c) ch t = Some (q, k, x) \<Longrightarrow> dead_letters (obs c) q k \<Longrightarrow>
      v_routed (obs c') = v_routed (obs c) \<and> v_held (obs c) \<subseteq># v_held (obs c')"
    and ack_frame: "ac_Ack C ch t c = (res', c') \<Longrightarrow> settle_frame ch t (obs c) (obs c')"
    and reject_frame: "ac_Reject C ch t False c = (res', c') \<Longrightarrow> settle_frame ch t (obs c) (obs c')"
    and exchange_obs: "ac_ExchangeDeclare C ch n kind c = (res', c') \<Longrightarrow>
      obs c' = obs c \<or> (v_exchanges (obs c) n = None
        \<and> obs c' = (obs c)\<lparr>v_exchanges := (v_exchanges (obs c))(n \<mapsto> kind)\<rparr>)"
    and exchange_there: "ac_ExchangeDeclare C ch n kind c = (None, c') \<Longrightarrow>
      v_exchanges (obs c') n = Some kind"
    and queue_obs: "ac_QueueDeclare C ch n args c = (res', c') \<Longrightarrow>
      obs c' = obs c \<or> (v_queues (obs c) n = None
        \<and> obs c' = (obs c)\<lparr>v_queues := (v_queues (obs c))(n \<mapsto> args)\<rparr>)"
    and queue_there: "ac_QueueDeclare C ch n args c = (None, c') \<Longrightarrow> v_queues (obs c') n = Some args"
    and bind_obs: "ac_QueueBind C ch n k e c = (res', c') \<Longrightarrow>
      obs c' = obs c \<or> obs c' = (obs c)\<lparr>v_bindings := insert (e, k, n) (v_bindings (obs c))\<rparr>"
    and bind_there: "ac_QueueBind C ch n k e c = (None, c') \<Longrightarrow> (e, k, n) \<in> v_bindings (obs c')"
    and passive_obs: "ac_QueueDeclarePassive C ch n c = (res', c') \<Longrightarrow> obs c' = obs c"
    and passive_there: "ac_QueueDeclarePassive C ch n c = (None, c') \<Longrightarrow> v_queues (obs c) n \<noteq> None"

end
