(* ===== verification/Broker.thy ===== *)
theory Broker
  imports Amqp
begin

text \<open>
  Package \<open>internal/broker\<close>, the parts without a message in flight: the retry ladder
  (\<open>retry.go\<close>), the topology (\<open>topology.go\<close>) and the connection (\<open>broker.go\<close>). Attempt numbers are
  Go \<open>int\<close>s of 64 bits and wrap; a ladder with no level makes \<open>retryLevelFor\<close> panic (\<open>None\<close>).
\<close>

section \<open>Names\<close>

definition exchangeEvents :: string where "exchangeEvents = ''avatars.exchange''"
definition exchangeRetry :: string where "exchangeRetry = ''avatars.retry''"
definition exchangeDead :: string where "exchangeDead = ''avatars.dlq''"
definition queueProcess :: string where "queueProcess = ''avatars.process''"
definition queueDead :: string where "queueDead = ''avatars.dead''"
definition queueRetryPrefix :: string where "queueRetryPrefix = ''avatars.retry.''"
definition retryKeyPrefix :: string where "retryKeyPrefix = ''retry.''"
definition routingKeyRetried :: string where "routingKeyRetried = ''avatar.retried''"
definition routingKeyDead :: string where "routingKeyDead = ''avatar.dead''"
definition bindingEvents :: string where "bindingEvents = ''avatar.*''"
definition argDeadLetterExchange :: string where "argDeadLetterExchange = ''x-dead-letter-exchange''"
definition argDeadLetterRoutingKey :: string where
  "argDeadLetterRoutingKey = ''x-dead-letter-routing-key''"
definition argMessageTTL :: string where "argMessageTTL = ''x-message-ttl''"
definition argDeath :: string where "argDeath = ''x-death''"
definition headerAttempts :: string where "headerAttempts = ''x-avatar-attempts''"
definition countField :: string where "countField = ''count''"
definition ExchangeTopic :: string where "ExchangeTopic = ''topic''"
definition ExchangeDirect :: string where "ExchangeDirect = ''direct''"

lemmas name_defs = exchangeEvents_def exchangeRetry_def exchangeDead_def queueProcess_def
  queueDead_def queueRetryPrefix_def retryKeyPrefix_def routingKeyRetried_def routingKeyDead_def
  bindingEvents_def argDeadLetterExchange_def argDeadLetterRoutingKey_def argMessageTTL_def
  argDeath_def headerAttempts_def countField_def ExchangeTopic_def ExchangeDirect_def
  RoutingKeyUploaded_def RoutingKeyDeleted_def

section \<open>Attempts\<close>

type_synonym go_int = "64 word"

definition maxAttempts :: int where "maxAttempts = 5"
definition MaxInt32 :: int where "MaxInt32 = 2147483647"

text \<open>\<open>None\<close> is the second result \<open>false\<close>.\<close>

definition headerInt :: "amqp_table \<Rightarrow> string \<Rightarrow> go_int option" where
  "headerInt headers name =
     (let value = (case table_get headers name of
                     Some (VInt64 v) \<Rightarrow> Some v
                   | Some (VInt32 v) \<Rightarrow> Some (signed v)
                   | Some (VInt16 v) \<Rightarrow> Some (signed v)
                   | Some (VInt v) \<Rightarrow> Some v
                   | _ \<Rightarrow> None) :: 64 word option
      in case value of
           None \<Rightarrow> None
         | Some v \<Rightarrow> if sint v \<le> 0 \<or> sint v > MaxInt32 then None else Some v)"

fun sum_counts :: "amqp_value list \<Rightarrow> go_int \<Rightarrow> go_int" where
  "sum_counts [] tot = tot"
| "sum_counts (entry # entries) tot =
     (case entry of
        VTable table \<Rightarrow>
          (case headerInt table countField of
             None \<Rightarrow> sum_counts entries tot
           | Some n \<Rightarrow> sum_counts entries (tot + n))
      | _ \<Rightarrow> sum_counts entries tot)"

definition deathCount :: "amqp_table \<Rightarrow> go_int" where
  "deathCount headers =
     (case table_get headers argDeath of Some (VList entries) \<Rightarrow> sum_counts entries 0 | _ \<Rightarrow> 0)"

definition attemptNumber :: "amqp_table \<Rightarrow> go_int" where
  "attemptNumber headers =
     (case headerInt headers headerAttempts of
        Some attempts \<Rightarrow> attempts + 1
      | None \<Rightarrow> deathCount headers + 1)"

definition isFinalAttempt :: "go_int \<Rightarrow> bool" where
  "isFinalAttempt attempt = (sint attempt \<ge> maxAttempts)"

section \<open>The ladder\<close>

record retryLevel =
  lv_queue :: string
  lv_key :: string
  lv_ttl :: duration

definition retryLevelFor :: "retryLevel list \<Rightarrow> go_int \<Rightarrow> retryLevel option" where
  "retryLevelFor levels attempt =
     (let index = sint (attempt - 1);
          index = (if index < 0 then 0 else index);
          index = (if index \<ge> int (length levels) then int (length levels) - 1 else index)
      in if 0 \<le> index \<and> index < int (length levels) then Some (levels ! nat index) else None)"

definition defaultRetryDelays :: "duration list" where
  "defaultRetryDelays = [5 * Second, 30 * Second, 5 * Minute]"

text \<open>\<open>time.Duration.String\<close>.\<close>

definition digit :: "nat \<Rightarrow> char" where "digit n = ''0123456789'' ! (n mod 10)"

fun decimal :: "nat \<Rightarrow> string" where
  "decimal n = (if n < 10 then [digit n] else decimal (n div 10) @ [digit n])"

declare decimal.simps [simp del]

text \<open>The last \<open>k\<close> decimal digits of a number, most significant first.\<close>

fun low_digits :: "nat \<Rightarrow> nat \<Rightarrow> nat list" where
  "low_digits 0 n = []"
| "low_digits (Suc k) n = low_digits k (n div 10) @ [n mod 10]"

text \<open>\<open>fmtFrac\<close>: the fraction without trailing zeros, nothing if it is zero.\<close>

definition fmtFrac :: "nat \<Rightarrow> nat \<Rightarrow> string" where
  "fmtFrac prec v =
     (let ds = rev (dropWhile (\<lambda>d. d = 0) (rev (low_digits prec v)))
      in if ds = [] then '''' else ''.'' @ map digit ds)"

definition micro :: string where "micro = map char_of [194, 181 :: nat] @ ''s''"

definition Duration_String :: "duration \<Rightarrow> string" where
  "Duration_String d =
     (let u = nat \<bar>d\<bar>;
          secs = u div 10 ^ 9; mins = secs div 60; hours = mins div 60;
          body =
            (if u = 0 then ''0s''
             else if u < 10 ^ 3 then decimal u @ ''ns''
             else if u < 10 ^ 6 then decimal (u div 10 ^ 3) @ fmtFrac 3 u @ micro
             else if u < 10 ^ 9 then decimal (u div 10 ^ 6) @ fmtFrac 6 u @ ''ms''
             else (if hours > 0 then decimal hours @ ''h'' else '''')
                  @ (if mins > 0 then decimal (mins mod 60) @ ''m'' else '''')
                  @ decimal (secs mod 60) @ fmtFrac 9 u @ ''s'')
      in (if d < 0 then ''-'' else '''') @ body)"

definition delayName :: "duration \<Rightarrow> string" where
  "delayName d =
     (let name = Duration_String d
      in if HasSuffix name ''m0s'' then TrimSuffix name ''0s'' else name)"

definition newRetryLevels :: "duration list \<Rightarrow> retryLevel list" where
  "newRetryLevels delays =
     map (\<lambda>delay. let name = delayName delay
                  in \<lparr>lv_queue = queueRetryPrefix @ name, lv_key = retryKeyPrefix @ name,
                      lv_ttl = delay\<rparr>) delays"

section \<open>Topology\<close>

text \<open>\<open>return err\<close> when a step fails, else go on.\<close>

definition and_then ::
  "('c \<Rightarrow> error option \<times> 'c) \<Rightarrow> ('c \<Rightarrow> error option \<times> 'c) \<Rightarrow> 'c \<Rightarrow> error option \<times> 'c" where
  "and_then f g c = (let (err, c) = f c in case err of Some e \<Rightarrow> (Some e, c) | None \<Rightarrow> g c)"

fun each :: "('a \<Rightarrow> 'c \<Rightarrow> error option \<times> 'c) \<Rightarrow> 'a list \<Rightarrow> 'c \<Rightarrow> error option \<times> 'c" where
  "each f [] c = (None, c)"
| "each f (x # xs) c = and_then (f x) (each f xs) c"

definition wrap_amqp :: "amqp_error option \<times> 'c \<Rightarrow> error option \<times> 'c" where
  "wrap_amqp r = (map_option (\<lambda>e. wrapf (amqp_err e)) (fst r), snd r)"

definition declareQueue :: "'c amqp \<Rightarrow> nat \<Rightarrow> string \<Rightarrow> amqp_table \<Rightarrow> 'c \<Rightarrow> error option \<times> 'c" where
  "declareQueue C ch name args c = wrap_amqp (ac_QueueDeclare C ch name args c)"

definition bindQueue ::
  "'c amqp \<Rightarrow> nat \<Rightarrow> string \<Rightarrow> string \<Rightarrow> string \<Rightarrow> 'c \<Rightarrow> error option \<times> 'c" where
  "bindQueue C ch queue exchange key c = wrap_amqp (ac_QueueBind C ch queue key exchange c)"

definition Milliseconds :: "duration \<Rightarrow> int" where
  "Milliseconds d = (if d < 0 then - ((- d) div 1000000) else d div 1000000)"

definition level_args :: "retryLevel \<Rightarrow> amqp_table" where
  "level_args level =
     [(argMessageTTL, VInt64 (of_int (Milliseconds (lv_ttl level)))),
      (argDeadLetterExchange, VString exchangeEvents),
      (argDeadLetterRoutingKey, VString routingKeyRetried)]"

definition level_keys :: "nat \<Rightarrow> retryLevel \<Rightarrow> string list" where
  "level_keys i level =
     [lv_key level]
     @ (if i = 0 then [RoutingKeyUploaded, RoutingKeyDeleted, routingKeyRetried] else [])"

definition declareRetryLevels :: "'c amqp \<Rightarrow> nat \<Rightarrow> retryLevel list \<Rightarrow> 'c \<Rightarrow> error option \<times> 'c" where
  "declareRetryLevels C ch levels =
     each (\<lambda>(i, level).
             and_then (declareQueue C ch (lv_queue level) (level_args level))
               (each (\<lambda>key. bindQueue C ch (lv_queue level) exchangeRetry key)
                  (level_keys i level)))
       (enumerate 0 levels)"

definition declareTopology :: "'c amqp \<Rightarrow> nat \<Rightarrow> retryLevel list \<Rightarrow> 'c \<Rightarrow> error option \<times> 'c" where
  "declareTopology C ch levels =
     and_then
       (each (\<lambda>(name, kind) c. wrap_amqp (ac_ExchangeDeclare C ch name kind c))
          [(exchangeEvents, ExchangeTopic), (exchangeRetry, ExchangeDirect),
           (exchangeDead, ExchangeDirect)])
     (and_then (declareQueue C ch queueProcess [(argDeadLetterExchange, VString exchangeRetry)])
     (and_then (bindQueue C ch queueProcess exchangeEvents bindingEvents)
     (and_then (declareRetryLevels C ch levels)
     (and_then (declareQueue C ch queueDead [])
        (bindQueue C ch queueDead exchangeDead routingKeyDead)))))"

section \<open>The connection\<close>

record Conn =
  c_levels :: "retryLevel list"
  c_prefetch :: int
  c_timeout :: duration
  c_processTimeout :: duration

definition WithRetryDelays :: "duration list \<Rightarrow> Conn \<Rightarrow> Conn" where
  "WithRetryDelays delays c = (if delays = [] then c else c\<lparr>c_levels := newRetryLevels delays\<rparr>)"

definition WithProcessTimeout :: "duration \<Rightarrow> Conn \<Rightarrow> Conn" where
  "WithProcessTimeout t c = (if t \<le> 0 then c else c\<lparr>c_processTimeout := t\<rparr>)"

definition closeChannel :: "'c amqp \<Rightarrow> nat \<Rightarrow> 'c \<Rightarrow> error option \<times> 'c" where
  "closeChannel C ch c =
     (case ac_ChClose C ch c of
        (Some e, c) \<Rightarrow> if e = AmqpClosed then (None, c) else (Some (wrapf (amqp_err e)), c)
      | (None, c) \<Rightarrow> (None, c))"

text \<open>
  \<open>ch, err := conn.Channel()\<close>, then the body, then the deferred close, whose error is only
  reported when there is no other.
\<close>

definition with_channel :: "'c amqp \<Rightarrow> (nat \<Rightarrow> 'c \<Rightarrow> error option \<times> 'c) \<Rightarrow> 'c \<Rightarrow> error option \<times> 'c" where
  "with_channel C body c =
     (case ac_Channel C c of
        (Inl e, c) \<Rightarrow> (Some (wrapf (amqp_err e)), c)
      | (Inr ch, c) \<Rightarrow>
          (let (err, c) = body ch c; (cerr, c) = closeChannel C ch c
           in (case (cerr, err) of (Some ce, None) \<Rightarrow> Some ce | _ \<Rightarrow> err, c)))"

definition declare_conn :: "'c amqp \<Rightarrow> Conn \<Rightarrow> 'c \<Rightarrow> error option \<times> 'c" where
  "declare_conn C conn = with_channel C (\<lambda>ch. declareTopology C ch (c_levels conn))"

definition checkQueue :: "'c amqp \<Rightarrow> 'c \<Rightarrow> error option \<times> 'c" where
  "checkQueue C = with_channel C (\<lambda>ch c. wrap_amqp (ac_QueueDeclarePassive C ch queueProcess c))"

text \<open>
  \<open>Ping\<close>: \<open>expired\<close> is the error of the context when its deadline wins the race against the
  check running in its own goroutine, whose effects happen all the same.
\<close>

definition broker_Ping :: "'c amqp \<Rightarrow> lib_error option \<Rightarrow> 'c \<Rightarrow> error option \<times> 'c" where
  "broker_Ping C expired c =
     (if ac_ConnIsClosed C c then (Some ErrText, c)
      else let (err, c) = checkQueue C c
           in case expired of Some l \<Rightarrow> (Some (wrapf (lib_err l)), c) | None \<Rightarrow> (err, c))"

definition broker_Close :: "'c amqp \<Rightarrow> 'c \<Rightarrow> error option \<times> 'c" where
  "broker_Close C c =
     (case ac_ConnClose C c of
        (Some e, c) \<Rightarrow> if e = AmqpClosed then (None, c) else (Some (wrapf (amqp_err e)), c)
      | (None, c) \<Rightarrow> (None, c))"

text \<open>\<open>New\<close>: \<open>dialled\<close> is the outcome of \<open>amqp.DialConfig\<close>.\<close>

definition broker_New ::
  "'c amqp \<Rightarrow> amqp_error option \<Rightarrow> int \<Rightarrow> duration \<Rightarrow> (Conn \<Rightarrow> Conn) list \<Rightarrow> 'c
     \<Rightarrow> (error + Conn) \<times> 'c" where
  "broker_New C dialled cfg_Prefetch cfg_Timeout opts c =
     (case dialled of
        Some e \<Rightarrow> (Inl (wrapf (amqp_err e)), c)
      | None \<Rightarrow>
          (let conn = \<lparr>c_levels = newRetryLevels defaultRetryDelays, c_prefetch = cfg_Prefetch,
                       c_timeout = cfg_Timeout, c_processTimeout = cfg_Timeout\<rparr>;
               conn = fold (\<lambda>opt. opt) opts conn;
               (err, c) = declare_conn C conn c
           in case err of
                Some e \<Rightarrow> (Inl e, snd (broker_Close C c))
              | None \<Rightarrow> (Inr conn, c)))"

section \<open>Attempt numbers\<close>

lemma headerInt_range:
  assumes "headerInt h name = Some v"
  shows "0 < sint v \<and> sint v \<le> MaxInt32"
  using assms by (auto simp: headerInt_def Let_def split: option.splits if_splits amqp_value.splits)

lemma sint_add_small:
  fixes a b :: "64 word"
  assumes "0 \<le> sint a" and "0 \<le> sint b" and "sint a + sint b < 2 ^ 63"
  shows "sint (a + b) = sint a + sint b"
proof -
  have "sint (a + b) = signed_take_bit 63 (sint a + sint b)"
    by (simp add: sint_word_ariths)
  also have "\<dots> = sint a + sint b" using assms by (intro signed_take_bit_int_eq_self) auto
  finally show ?thesis .
qed

lemma sint_succ:
  fixes a :: "64 word"
  assumes "0 \<le> sint a" and "sint a < 2 ^ 63 - 1"
  shows "sint (a + 1) = sint a + 1"
  using sint_add_small [of a 1] assms by simp

text \<open>The header that a re-publication writes is read back as the next attempt.\<close>

lemma attemptNumber_header:
  assumes "0 < sint a" and "sint a \<le> MaxInt32"
  shows "attemptNumber (table_put headerAttempts (VInt64 a) h) = a + 1"
    and "sint (attemptNumber (table_put headerAttempts (VInt64 a) h)) = sint a + 1"
proof -
  show eq: "attemptNumber (table_put headerAttempts (VInt64 a) h) = a + 1"
    using assms by (simp add: attemptNumber_def headerInt_def)
  show "sint (attemptNumber (table_put headerAttempts (VInt64 a) h)) = sint a + 1"
    unfolding eq using assms by (intro sint_succ) (auto simp: MaxInt32_def)
qed

lemma sum_counts_bound:
  assumes "0 \<le> sint tot" and "sint tot + int (length es) * MaxInt32 < 2 ^ 63"
  shows "sint tot \<le> sint (sum_counts es tot)
    \<and> sint (sum_counts es tot) \<le> sint tot + int (length es) * MaxInt32"
  using assms
proof (induction es arbitrary: tot)
  case Nil
  then show ?case by simp
next
  case (Cons e es)
  have skip: ?case if "sum_counts (e # es) tot = sum_counts es tot"
  proof -
    have "sint tot + int (length es) * MaxInt32 < 2 ^ 63"
      using Cons.prems(2) by (simp add: MaxInt32_def algebra_simps)
    with Cons.IH [OF Cons.prems(1)] show ?thesis
      unfolding that by (simp add: MaxInt32_def algebra_simps)
  qed
  have add: ?case if "sum_counts (e # es) tot = sum_counts es (tot + n)"
    and "headerInt t countField = Some n" for t n
  proof -
    from headerInt_range [OF that(2)] have n: "0 < sint n" "sint n \<le> MaxInt32" by auto
    with Cons.prems have "sint (tot + n) = sint tot + sint n"
      by (intro sint_add_small) (auto simp: algebra_simps MaxInt32_def)
    with n Cons.prems Cons.IH [of "tot + n"] show ?thesis
      unfolding that(1) by (simp add: algebra_simps)
  qed
  show ?case
  proof (cases "\<exists>t n. e = VTable t \<and> headerInt t countField = Some n")
    case True
    then obtain t n where "e = VTable t" and n: "headerInt t countField = Some n" by blast
    then have "sum_counts (e # es) tot = sum_counts es (tot + n)" by simp
    then show ?thesis using n by (rule add)
  next
    case False
    then have "sum_counts (e # es) tot = sum_counts es tot"
      by (auto split: amqp_value.splits option.splits)
    then show ?thesis by (rule skip)
  qed
qed

lemma deathCount_nonneg:
  assumes "\<And>es. table_get h argDeath = Some (VList es) \<Longrightarrow> length es \<le> 2 ^ 31"
  shows "0 \<le> sint (deathCount h)" and "sint (deathCount h) < 2 ^ 63 - 1"
proof -
  consider es where "table_get h argDeath = Some (VList es)" "deathCount h = sum_counts es 0"
    | "deathCount h = 0"
  proof (cases "\<exists>es. table_get h argDeath = Some (VList es)")
    case False
    then have "deathCount h = 0" by (auto simp: deathCount_def split: option.splits amqp_value.splits)
    then show ?thesis using that(2) by blast
  qed (use that(1) in \<open>auto simp: deathCount_def\<close>)
  then have "0 \<le> sint (deathCount h) \<and> sint (deathCount h) < 2 ^ 63 - 1"
  proof cases
    case 1
    then have "int (length es) \<le> 2 ^ 31" using assms by fastforce
    then have "int (length es) * MaxInt32 \<le> 2 ^ 31 * MaxInt32" by (simp add: MaxInt32_def)
    then have bound: "int (length es) * MaxInt32 < 2 ^ 63 - 1" by (simp add: MaxInt32_def)
    then show ?thesis using sum_counts_bound [of 0 es] 1(2) by simp
  qed simp
  then show "0 \<le> sint (deathCount h)" and "sint (deathCount h) < 2 ^ 63 - 1" by blast+
qed

text \<open>Attempts count from one, whatever a message carries in its headers.\<close>

lemma attemptNumber_positive:
  assumes "\<And>es. table_get h argDeath = Some (VList es) \<Longrightarrow> length es \<le> 2 ^ 31"
  shows "1 \<le> sint (attemptNumber h)"
proof (cases "headerInt h headerAttempts")
  case None
  have "sint (deathCount h + 1) = sint (deathCount h) + 1"
    using deathCount_nonneg [of h] assms by (intro sint_succ) auto
  moreover have "0 \<le> sint (deathCount h)" using deathCount_nonneg(1) [of h] assms by blast
  ultimately show ?thesis using None by (simp add: attemptNumber_def)
next
  case (Some v)
  from headerInt_range [OF Some] have "sint (v + 1) = sint v + 1"
    by (intro sint_succ) (auto simp: MaxInt32_def)
  with headerInt_range [OF Some] Some show ?thesis by (simp add: attemptNumber_def)
qed

section \<open>The ladder\<close>

lemma retryLevelFor_total: "levels \<noteq> [] \<Longrightarrow> \<exists>l. retryLevelFor levels a = Some l \<and> l \<in> set levels"
  by (auto simp: retryLevelFor_def Let_def nat_less_iff intro!: nth_mem)

lemma sint_pred:
  fixes a :: "64 word"
  assumes "0 < sint a"
  shows "sint (a - 1) = sint a - 1"
proof -
  have "sint a < 2 ^ 63" using sint_lt [of a] by simp
  then have "signed_take_bit 63 (sint a - 1) = sint a - 1"
    using assms by (intro signed_take_bit_int_eq_self) auto
  moreover have "sint (a - 1) = signed_take_bit 63 (sint a - 1)" by (simp add: sint_word_ariths)
  ultimately show ?thesis by simp
qed

lemma retryLevelFor_step:
  assumes "0 < sint a" and "levels \<noteq> []"
  shows "retryLevelFor levels a = Some (levels ! min (nat (sint a - 1)) (length levels - 1))"
proof -
  have idx: "sint (a - 1) = sint a - 1" by (rule sint_pred [OF assms(1)])
  show ?thesis
  proof (cases "sint a - 1 < int (length levels)")
    case True
    then have "min (nat (sint a - 1)) (length levels - 1) = nat (sint a - 1)" by linarith
    with True assms idx show ?thesis by (simp add: retryLevelFor_def Let_def)
  next
    case False
    then have "min (nat (sint a - 1)) (length levels - 1) = length levels - 1" by linarith
    moreover have "nat (int (length levels) - 1) = length levels - 1" by simp
    ultimately show ?thesis using False assms idx by (simp add: retryLevelFor_def Let_def)
  qed
qed

lemma low_digits_numeral:
  "low_digits (numeral k) n = low_digits (pred_numeral k) (n div 10) @ [n mod 10]"
  by (simp only: numeral_eq_Suc [of k] low_digits.simps)

lemma decimal_step:
  "n < 10 \<Longrightarrow> decimal n = [digit n]"
  "\<not> n < 10 \<Longrightarrow> decimal n = decimal (n div 10) @ [digit n]"
  by (subst decimal.simps, simp)+

lemma Duration_String_default:
  "Duration_String 5000000000 = ''5s''" "Duration_String 30000000000 = ''30s''"
  "Duration_String 300000000000 = ''5m0s''"
  by (simp_all add: Duration_String_def Let_def decimal_step digit_def fmtFrac_def low_digits_numeral)

lemma newRetryLevels_default:
  "newRetryLevels defaultRetryDelays =
     [\<lparr>lv_queue = ''avatars.retry.5s'', lv_key = ''retry.5s'', lv_ttl = 5000000000\<rparr>,
      \<lparr>lv_queue = ''avatars.retry.30s'', lv_key = ''retry.30s'', lv_ttl = 30000000000\<rparr>,
      \<lparr>lv_queue = ''avatars.retry.5m'', lv_key = ''retry.5m'', lv_ttl = 300000000000\<rparr>]"
  by (simp add: newRetryLevels_def defaultRetryDelays_def delayName_def Duration_String_default
      HasSuffix_def TrimSuffix_def queueRetryPrefix_def retryKeyPrefix_def Let_def)

section \<open>The topology is declared\<close>

lemma wrap_amqp_None [simp]: "wrap_amqp r = (None, c) \<longleftrightarrow> r = (None, c)"
  by (cases r) (simp add: wrap_amqp_def)

lemma wrap_amqp_snd [simp]: "snd (wrap_amqp r) = snd r"
  by (simp add: wrap_amqp_def)

lemma and_then_None:
  "and_then f g c = (None, c2) \<longleftrightarrow> (\<exists>c1. f c = (None, c1) \<and> g c1 = (None, c2))"
  by (auto simp: and_then_def split: prod.splits option.splits)

text \<open>Declarations only add to what is declared.\<close>

definition grows :: "mq_view \<Rightarrow> mq_view \<Rightarrow> bool" where
  "grows v v' \<longleftrightarrow>
     v_exchanges v \<subseteq>\<^sub>m v_exchanges v' \<and> v_queues v \<subseteq>\<^sub>m v_queues v' \<and> v_bindings v \<subseteq> v_bindings v'
   \<and> v' = v\<lparr>v_exchanges := v_exchanges v', v_queues := v_queues v', v_bindings := v_bindings v'\<rparr>"

definition growing :: "('c \<Rightarrow> mq_view) \<Rightarrow> ('c \<Rightarrow> 'r \<times> 'c) \<Rightarrow> bool" where
  "growing obs f = (\<forall>c. grows (obs c) (obs (snd (f c))))"

lemma grows_refl [simp]: "grows v v"
  by (simp add: grows_def)

lemma grows_trans: "grows u v \<Longrightarrow> grows v w \<Longrightarrow> grows u w"
  by (cases u; cases v; cases w) (auto simp: grows_def intro: map_le_trans)

lemma growing_and_then:
  assumes "growing obs f" and "growing obs g"
  shows "growing obs (and_then f g)"
  unfolding growing_def
proof
  fix c
  obtain r c1 where f: "f c = (r, c1)" by fastforce
  from assms(1) f have "grows (obs c) (obs c1)" unfolding growing_def by (metis snd_conv)
  moreover from assms(2) have "grows (obs c1) (obs (snd (g c1)))" unfolding growing_def by blast
  ultimately show "grows (obs c) (obs (snd (and_then f g c)))"
    using f by (auto simp: and_then_def intro: grows_trans split: option.splits)
qed

lemma growing_each:
  assumes "\<And>x. growing obs (f x)"
  shows "growing obs (each f xs)"
proof (induction xs)
  case Nil
  then show ?case by (simp add: growing_def)
next
  case (Cons x xs)
  have "each f (x # xs) = and_then (f x) (each f xs)" by (rule ext) simp
  then show ?case using growing_and_then [OF assms Cons.IH, of x] by simp
qed

text \<open>A run of \<open>each\<close> that succeeds ran every step to success.\<close>

lemma each_done:
  assumes "\<And>x. growing obs (f x)" and "each f xs c = (None, c')" and "x \<in> set xs"
  shows "\<exists>c1 c2. f x c1 = (None, c2) \<and> grows (obs c2) (obs c')"
  using assms(2,3)
proof (induction xs arbitrary: c)
  case Nil
  then show ?case by simp
next
  case (Cons y ys)
  from Cons.prems(1) obtain c1 where "f y c = (None, c1)" and rest: "each f ys c1 = (None, c')"
    by (auto simp: and_then_None)
  have "growing obs (each f ys)" by (rule growing_each) (rule assms(1))
  then have "grows (obs c1) (obs (snd (each f ys c1)))" unfolding growing_def by blast
  then have "grows (obs c1) (obs c')" using rest by simp
  with \<open>f y c = (None, c1)\<close> show ?case using Cons.IH [OF rest] Cons.prems(2) by auto
qed

text \<open>
  What the declarations promise: the exchanges, the main queue with its binding, every level
  with its delay and its way back, and the queue of the dead.
\<close>

definition topology_ok :: "retryLevel list \<Rightarrow> mq_view \<Rightarrow> bool" where
  "topology_ok ls v \<longleftrightarrow>
     v_exchanges v exchangeEvents = Some ExchangeTopic
   \<and> v_exchanges v exchangeRetry = Some ExchangeDirect
   \<and> v_exchanges v exchangeDead = Some ExchangeDirect
   \<and> v_queues v queueProcess = Some [(argDeadLetterExchange, VString exchangeRetry)]
   \<and> (exchangeEvents, bindingEvents, queueProcess) \<in> v_bindings v
   \<and> v_queues v queueDead = Some []
   \<and> (exchangeDead, routingKeyDead, queueDead) \<in> v_bindings v
   \<and> (\<forall>i < length ls. v_queues v (lv_queue (ls ! i)) = Some (level_args (ls ! i))
        \<and> (\<forall>k\<in>set (level_keys i (ls ! i)). (exchangeRetry, k, lv_queue (ls ! i)) \<in> v_bindings v))"

lemma grows_facts:
  assumes "grows v v'"
  shows "v_exchanges v n = Some x \<Longrightarrow> v_exchanges v' n = Some x"
    and "v_queues v n = Some y \<Longrightarrow> v_queues v' n = Some y"
    and "b \<in> v_bindings v \<Longrightarrow> b \<in> v_bindings v'"
  using assms by (auto simp: grows_def map_le_def dom_def)

text \<open>
  With the topology in place, a message the main queue gives up on stays with the broker,
  for each of the three keys it may carry.
\<close>

lemma topology_dead_letters:
  assumes "topology_ok ls v" and "ls \<noteq> []"
    and "k \<in> {RoutingKeyUploaded, RoutingKeyDeleted, routingKeyRetried}"
  shows "dead_letters v queueProcess k"
proof -
  from assms have "(exchangeRetry, k, lv_queue (ls ! 0)) \<in> v_bindings v"
    by (auto simp: topology_ok_def level_keys_def)
  moreover from assms(1) have "v_queues v queueProcess = Some [(argDeadLetterExchange, VString exchangeRetry)]"
    and "v_exchanges v exchangeRetry = Some ExchangeDirect" by (simp_all add: topology_ok_def)
  ultimately show ?thesis unfolding dead_letters_def
    by (intro exI [of _ "[(argDeadLetterExchange, VString exchangeRetry)]"]
        exI [of _ exchangeRetry] exI [of _ "lv_queue (ls ! 0)"]) (auto simp: name_defs)
qed

context amqp_client
begin

lemma growing_exchange: "growing obs (\<lambda>c. wrap_amqp (ac_ExchangeDeclare C ch n kind c))"
  unfolding growing_def wrap_amqp_snd
proof
  fix c
  show "grows (obs c) (obs (snd (ac_ExchangeDeclare C ch n kind c)))"
    using exchange_obs [of ch n kind c] by (cases "ac_ExchangeDeclare C ch n kind c")
      (auto simp: grows_def map_le_def dom_def)
qed

lemma growing_queue: "growing obs (declareQueue C ch n args)"
  unfolding growing_def declareQueue_def wrap_amqp_snd
proof
  fix c
  show "grows (obs c) (obs (snd (ac_QueueDeclare C ch n args c)))"
    using queue_obs [of ch n args c] by (cases "ac_QueueDeclare C ch n args c")
      (auto simp: grows_def map_le_def dom_def)
qed

lemma growing_bind: "growing obs (bindQueue C ch q e k)"
  unfolding growing_def bindQueue_def wrap_amqp_snd
proof
  fix c
  show "grows (obs c) (obs (snd (ac_QueueBind C ch q k e c)))"
    using bind_obs [of ch q k e c] by (cases "ac_QueueBind C ch q k e c") (auto simp: grows_def)
qed

lemma growing_level:
  "growing obs ((\<lambda>(i, level).
      and_then (declareQueue C ch (lv_queue level) (level_args level))
        (each (\<lambda>key. bindQueue C ch (lv_queue level) exchangeRetry key) (level_keys i level))) x)"
  by (cases x) (auto intro!: growing_and_then growing_each growing_queue growing_bind)

lemma growing_levels: "growing obs (declareRetryLevels C ch ls)"
  unfolding declareRetryLevels_def by (rule growing_each) (rule growing_level)

lemma growing_exchanges:
  "growing obs (each (\<lambda>(name, kind) c. wrap_amqp (ac_ExchangeDeclare C ch name kind c)) xs)"
  by (rule growing_each) (auto intro: growing_exchange split: prod.splits)

lemma growing_topology: "growing obs (declareTopology C ch ls)"
  unfolding declareTopology_def
  by (intro growing_and_then growing_exchanges growing_queue growing_bind growing_levels)

lemma growingD: "growing obs f \<Longrightarrow> f c = (r, c') \<Longrightarrow> grows (obs c) (obs c')"
  unfolding growing_def by (metis snd_conv)

lemma level_declared:
  assumes "declareRetryLevels C ch ls c = (None, c')" and "i < length ls"
  shows "v_queues (obs c') (lv_queue (ls ! i)) = Some (level_args (ls ! i))
    \<and> (\<forall>k\<in>set (level_keys i (ls ! i)). (exchangeRetry, k, lv_queue (ls ! i)) \<in> v_bindings (obs c'))"
proof -
  let ?l = "ls ! i"
  have "(i, ?l) \<in> set (enumerate 0 ls)" using assms(2) by (simp add: in_set_enumerate_eq)
  from each_done [OF growing_level assms(1) [unfolded declareRetryLevels_def] this]
  obtain c1 c2 c3 where q: "declareQueue C ch (lv_queue ?l) (level_args ?l) c1 = (None, c2)"
    and b: "each (\<lambda>key. bindQueue C ch (lv_queue ?l) exchangeRetry key) (level_keys i ?l) c2 = (None, c3)"
    and g: "grows (obs c3) (obs c')"
    by (auto simp: and_then_None)
  have g2: "grows (obs c2) (obs c')"
    using growingD [OF growing_each [OF growing_bind] b] g by (rule grows_trans)
  have "v_queues (obs c2) (lv_queue ?l) = Some (level_args ?l)"
    using q by (auto simp: declareQueue_def intro: queue_there)
  moreover have "(exchangeRetry, k, lv_queue ?l) \<in> v_bindings (obs c')" if "k \<in> set (level_keys i ?l)" for k
  proof -
    from each_done [OF growing_bind b that] obtain d1 d2
      where "bindQueue C ch (lv_queue ?l) exchangeRetry k d1 = (None, d2)" and "grows (obs d2) (obs c3)"
      by blast
    moreover from this have "(exchangeRetry, k, lv_queue ?l) \<in> v_bindings (obs d2)"
      by (auto simp: bindQueue_def intro: bind_there)
    ultimately show ?thesis using g grows_facts(3) by blast
  qed
  ultimately show ?thesis using grows_facts(2) [OF g2] by blast
qed

lemma declareTopology_ok:
  assumes "declareTopology C ch ls c = (None, c')"
  shows "topology_ok ls (obs c')"
proof -
  let ?decl = "\<lambda>(name, kind) c. wrap_amqp (ac_ExchangeDeclare C ch name kind c)"
  let ?xs = "[(exchangeEvents, ExchangeTopic), (exchangeRetry, ExchangeDirect),
    (exchangeDead, ExchangeDirect)]"
  from assms obtain c1 c2 c3 c4 c5 where
      s1: "each ?decl ?xs c = (None, c1)"
    and s2: "declareQueue C ch queueProcess [(argDeadLetterExchange, VString exchangeRetry)] c1 = (None, c2)"
    and s3: "bindQueue C ch queueProcess exchangeEvents bindingEvents c2 = (None, c3)"
    and s4: "declareRetryLevels C ch ls c3 = (None, c4)"
    and s5: "declareQueue C ch queueDead [] c4 = (None, c5)"
    and s6: "bindQueue C ch queueDead exchangeDead routingKeyDead c5 = (None, c')"
    unfolding declareTopology_def and_then_None by blast
  note g6 = growingD [OF growing_bind s6]
  note g5 = grows_trans [OF growingD [OF growing_queue s5] g6]
  note g4 = grows_trans [OF growingD [OF growing_levels s4] g5]
  note g3 = grows_trans [OF growingD [OF growing_bind s3] g4]
  note g2 = grows_trans [OF growingD [OF growing_queue s2] g3]
  have exch: "v_exchanges (obs c') n = Some kind" if "(n, kind) \<in> set ?xs" for n kind
  proof -
    have "growing obs (?decl x)" for x by (cases x) (simp add: growing_exchange)
    from each_done [OF this s1 that] obtain d1 d2
      where "ac_ExchangeDeclare C ch n kind d1 = (None, d2)" and "grows (obs d2) (obs c1)" by auto
    with exchange_there g2 show ?thesis by (blast intro: grows_facts(1) grows_trans)
  qed
  have "v_queues (obs c2) queueProcess = Some [(argDeadLetterExchange, VString exchangeRetry)]"
    using s2 by (auto simp: declareQueue_def intro: queue_there)
  moreover have "(exchangeEvents, bindingEvents, queueProcess) \<in> v_bindings (obs c3)"
    using s3 by (auto simp: bindQueue_def intro: bind_there)
  moreover have "v_queues (obs c5) queueDead = Some []"
    using s5 by (auto simp: declareQueue_def intro: queue_there)
  moreover have "(exchangeDead, routingKeyDead, queueDead) \<in> v_bindings (obs c')"
    using s6 by (auto simp: bindQueue_def intro: bind_there)
  ultimately show ?thesis
    using exch level_declared [OF s4] g3 g4 g5 g6 unfolding topology_ok_def
    by (intro conjI allI impI ballI; simp add: grows_facts)
qed

end

section \<open>Properties\<close>

text \<open>
  (C36) A message is handled at most five times. Each failed attempt forwards the message with
  its own number in a header; so the k-th redelivery is attempt k + 1 whatever else the broker
  adds to the headers on the way, the fifth attempt is the first one that counts as final, and
  the delays before the retries are 5 s, 30 s, then 5 min.
\<close>

theorem retry_ladder:
  assumes "table_get (hs 0) headerAttempts = None" and "table_get (hs 0) argDeath = None"
    and "\<And>k. table_get (hs (Suc k)) headerAttempts = Some (VInt64 (attemptNumber (hs k)))"
    and "k < 2 ^ 31 - 1"
  shows "sint (attemptNumber (hs k)) = int k + 1
    \<and> (isFinalAttempt (attemptNumber (hs k)) \<longleftrightarrow> 4 \<le> k)
    \<and> map_option lv_ttl (retryLevelFor (newRetryLevels defaultRetryDelays) (attemptNumber (hs k)))
        = Some ([5 * Second, 30 * Second, 5 * Minute] ! min k 2)"
proof -
  have cnt: "sint (attemptNumber (hs k)) = int k + 1" if "k < 2 ^ 31 - 1" for k
    using that
  proof (induction k)
    case 0
    from assms(1,2) show ?case by (simp add: attemptNumber_def headerInt_def deathCount_def)
  next
    case (Suc k)
    then have ih: "sint (attemptNumber (hs k)) = int k + 1" by simp
    have "int k + 1 \<le> MaxInt32" using Suc.prems by (simp add: MaxInt32_def)
    with ih have rng: "0 < sint (attemptNumber (hs k))" "sint (attemptNumber (hs k)) \<le> MaxInt32" by simp_all
    have "headerInt (hs (Suc k)) headerAttempts = Some (attemptNumber (hs k))"
      using assms(3) [of k] rng by (simp add: headerInt_def)
    moreover have "sint (attemptNumber (hs k) + 1) = sint (attemptNumber (hs k)) + 1"
      using rng by (intro sint_succ) (auto simp: MaxInt32_def)
    ultimately show ?case using ih by (simp add: attemptNumber_def [of "hs (Suc k)"])
  qed
  from cnt [OF assms(4)] have a: "sint (attemptNumber (hs k)) = int k + 1" .
  have "retryLevelFor (newRetryLevels defaultRetryDelays) (attemptNumber (hs k)) =
      Some (newRetryLevels defaultRetryDelays ! min k 2)"
    using retryLevelFor_step [of "attemptNumber (hs k)" "newRetryLevels defaultRetryDelays"] a
    by (simp add: newRetryLevels_default numeral_2_eq_2)
  moreover have "lv_ttl (newRetryLevels defaultRetryDelays ! min k 2) = [5 * Second, 30 * Second, 5 * Minute] ! min k 2"
    by (auto simp: newRetryLevels_default min_def le_Suc_eq numeral_2_eq_2 split: if_splits)
  ultimately show ?thesis using a by (simp add: isFinalAttempt_def maxAttempts_def)
qed

primrec headers0 :: "nat \<Rightarrow> amqp_table" where
  "headers0 0 = []"
| "headers0 (Suc k) = table_put headerAttempts (VInt64 (attemptNumber (headers0 k))) (headers0 k)"

theorem retry_ladder_witness:
  "sint (attemptNumber (headers0 4)) = 5 \<and> isFinalAttempt (attemptNumber (headers0 4))
   \<and> isFinalAttempt (attemptNumber (headers0 3)) = False"
  using retry_ladder [of headers0 4] retry_ladder [of headers0 3] by simp

text \<open>
  Headers a message arrives with cannot break the retry: unless the broker lists more than
  two thousand million deaths, the attempt number is positive, does not wrap, and picks a level
  of the ladder, so the consumer never indexes out of range.
\<close>

theorem attempt_in_range:
  assumes "\<And>es. table_get h argDeath = Some (VList es) \<Longrightarrow> length es \<le> 2 ^ 31" and "levels \<noteq> []"
  shows "1 \<le> sint (attemptNumber h)
    \<and> (\<exists>l. retryLevelFor levels (attemptNumber h) = Some l \<and> l \<in> set levels)"
  using attemptNumber_positive [OF assms(1)] retryLevelFor_total [OF assms(2)] by blast

theorem attempt_in_range_witness:
  "1 \<le> sint (attemptNumber [(headerAttempts, VInt64 (- 3)), (argDeath, VList [VOther])])"
  using attempt_in_range [of "[(headerAttempts, VInt64 (- 3)), (argDeath, VList [VOther])]"
      "newRetryLevels defaultRetryDelays"]
  by (simp add: name_defs newRetryLevels_default)

text \<open>A closed channel takes no declaration with it.\<close>

context amqp_client
begin

lemma closeChannel_declared:
  assumes "closeChannel C ch c = (r, c')"
  shows "v_exchanges (obs c') = v_exchanges (obs c) \<and> v_queues (obs c') = v_queues (obs c)
    \<and> v_bindings (obs c') = v_bindings (obs c)"
proof -
  obtain e c1 where cl: "ac_ChClose C ch c = (e, c1)" by fastforce
  then have "c' = c1" using assms by (auto simp: closeChannel_def split: option.splits if_splits)
  with close_obs [OF cl] show ?thesis by auto
qed

lemma declare_conn_ok:
  assumes "declare_conn C conn c = (None, c')"
  shows "topology_ok (c_levels conn) (obs c')"
proof -
  from assms obtain ch c1 c2 where "declareTopology C ch (c_levels conn) c1 = (None, c2)"
    and "closeChannel C ch c2 = (None, c')"
    by (auto simp: declare_conn_def with_channel_def Let_def split: sum.splits prod.splits option.splits)
  with declareTopology_ok closeChannel_declared show ?thesis by (fastforce simp: topology_ok_def)
qed

end

end
