(* ===== verification/BrokerPublisher.thy ===== *)
theory BrokerPublisher
  imports Broker Interfaces
begin

text \<open>
  \<open>internal/broker/publisher.go\<close>. The publisher's struct is its current channel and the channel
  whose returned messages it listens to; it is passed along with the client's state. The lock
  makes a publication one step: publications do not interleave. The trace headers and the
  request id come from the context: \<open>inject\<close> and \<open>rid\<close>.
\<close>

record pubst =
  p_ch :: "nat option"
  p_returns :: "nat option"

definition new_publisher :: pubst where
  "new_publisher = \<lparr>p_ch = None, p_returns = None\<rparr>"

record pubctx =
  inject :: "amqp_table \<Rightarrow> amqp_table"
  rid :: string
  now :: time

definition contentTypeJSON :: string where "contentTypeJSON = ''application/json''"

definition newPublishing :: "pubctx \<Rightarrow> Event \<Rightarrow> Publishing" where
  "newPublishing ctx event =
     \<lparr>Headers = inject ctx [], m_ContentType = contentTypeJSON, DeliveryMode = Persistent,
      MessageId = Event_ID event, CorrelationId = rid ctx, Type = RoutingKey event,
      Timestamp = now ctx, m_Body = Some (Marshal event)\<rparr>"

definition dropLocked :: "'c amqp \<Rightarrow> pubst \<times> 'c \<Rightarrow> pubst \<times> 'c" where
  "dropLocked C pc =
     (let (p, c) = pc
      in case p_ch p of
           None \<Rightarrow> (p, c)
         | Some ch \<Rightarrow> (p\<lparr>p_ch := None, p_returns := None\<rparr>, snd (ac_ChClose C ch c)))"

text \<open>Opening a new channel: confirm mode on, then the listener for returned messages.\<close>

definition openFresh :: "'c amqp \<Rightarrow> pubst \<Rightarrow> 'c \<Rightarrow> (error + nat) \<times> pubst \<times> 'c" where
  "openFresh C p c =
     (case ac_Channel C c of
        (Inl e, c) \<Rightarrow> (Inl (wrapf (amqp_err e)), p, c)
      | (Inr ch, c) \<Rightarrow>
          (case ac_Confirm C ch c of
             (Some e, c) \<Rightarrow> (Inl (wrapf (amqp_err e)), p, snd (ac_ChClose C ch c))
           | (None, c) \<Rightarrow>
               (Inr ch, p\<lparr>p_ch := Some ch, p_returns := Some ch\<rparr>, ac_NotifyReturn C ch c)))"

definition openLocked :: "'c amqp \<Rightarrow> pubst \<times> 'c \<Rightarrow> (error + nat) \<times> pubst \<times> 'c" where
  "openLocked C pc =
     (let (p, c) = pc
      in case p_ch p of
           Some ch \<Rightarrow> if \<not> ac_ChIsClosed C ch c then (Inr ch, p, c) else openFresh C p c
         | None \<Rightarrow> openFresh C p c)"

text \<open>The receive from \<open>p.returns\<close> that does not block; a nil channel never delivers.\<close>

definition poll_returns :: "'c amqp \<Rightarrow> pubst \<Rightarrow> 'c \<Rightarrow> bool \<times> 'c" where
  "poll_returns C p c =
     (case p_returns p of None \<Rightarrow> (False, c) | Some ch \<Rightarrow> ac_PollReturn C ch c)"

definition publish ::
  "'c amqp \<Rightarrow> string \<Rightarrow> string \<Rightarrow> Publishing \<Rightarrow> pubst \<times> 'c \<Rightarrow> error option \<times> pubst \<times> 'c" where
  "publish C exchange key msg pc =
     (case openLocked C pc of
        (Inl e, pc) \<Rightarrow> (Some e, pc)
      | (Inr ch, p, c) \<Rightarrow>
          (case ac_Publish C ch exchange key msg c of
             (Inl e, c) \<Rightarrow> (Some (wrapf (amqp_err e)), dropLocked C (p, c))
           | (Inr confirm, c) \<Rightarrow>
               (case ac_Wait C confirm c of
                  (Inl e, c) \<Rightarrow> (Some (wrapf (amqp_err e)), p, c)
                | (Inr acked, c) \<Rightarrow>
                    if \<not> acked then (Some ErrText, p, c)
                    else let (ret, c) = poll_returns C p c
                         in (if ret then Some ErrText else None, p, c))))"

definition broker_Publish :: "'c amqp \<Rightarrow> pubctx \<Rightarrow> Event \<Rightarrow> pubst \<times> 'c \<Rightarrow> error option \<times> pubst \<times> 'c" where
  "broker_Publish C ctx event pc =
     wrap_opt (publish C exchangeEvents (RoutingKey event) (newPublishing ctx event) pc)"

definition Publisher_Close :: "'c amqp \<Rightarrow> pubst \<times> 'c \<Rightarrow> error option \<times> pubst \<times> 'c" where
  "Publisher_Close C pc =
     (let (p, c) = pc
      in case p_ch p of
           None \<Rightarrow> (None, p, c)
         | Some ch \<Rightarrow> (let (err, c) = closeChannel C ch c in (err, p\<lparr>p_ch := None\<rparr>, c)))"

section \<open>Publications\<close>

text \<open>
  The channel in use confirms publications, its returned messages are listened to, and nothing
  is consumed on it.
\<close>

definition pub_inv :: "('c \<Rightarrow> mq_view) \<Rightarrow> pubst \<times> 'c \<Rightarrow> bool" where
  "pub_inv obs pc \<longleftrightarrow>
     (\<forall>ch. p_ch (fst pc) = Some ch \<longrightarrow> p_returns (fst pc) = Some ch
        \<and> ch \<in> v_confirms (obs (snd pc)) \<and> ch \<in> v_listens (obs (snd pc))
        \<and> v_pending (obs (snd pc)) ch = Map.empty)"

text \<open>The events the broker took in: what went into a queue through the exchange of events.\<close>

definition events_sent :: "mq_view \<Rightarrow> content list" where
  "events_sent v =
     map (\<lambda>(e, k, m). content m) (filter (\<lambda>(e, k, m). e = exchangeEvents) (v_routed v))"

text \<open>What a publication never takes away: declarations, held messages, open deliveries.\<close>

definition pub_frame :: "mq_view \<Rightarrow> mq_view \<Rightarrow> bool" where
  "pub_frame v v' \<longleftrightarrow> v_exchanges v' = v_exchanges v \<and> v_queues v' = v_queues v
     \<and> v_bindings v' = v_bindings v \<and> v_held v \<subseteq># v_held v'
     \<and> (\<forall>ch t x. v_pending v ch t = Some x \<longrightarrow> v_pending v' ch t = Some x)"

lemma pub_frame_refl [simp]: "pub_frame v v"
  by (simp add: pub_frame_def)

lemma pub_frame_trans: "pub_frame u v \<Longrightarrow> pub_frame v w \<Longrightarrow> pub_frame u w"
  unfolding pub_frame_def by (metis subset_mset.order_trans)

lemma pub_frame_routed: "routed_step e k m v v' \<Longrightarrow> pub_frame v v'"
  by (auto simp: routed_step_def pub_frame_def dest: mset_subset_eq_exists_conv [THEN iffD1])

lemma new_publisher_inv: "pub_inv obs (new_publisher, c)"
  by (simp add: pub_inv_def new_publisher_def)

lemma pub_inv_same:
  assumes "pub_inv obs (p, c)" and "v_confirms (obs c') = v_confirms (obs c)"
    and "v_listens (obs c') = v_listens (obs c)" and "v_pending (obs c') = v_pending (obs c)"
  shows "pub_inv obs (p, c')"
  using assms by (simp add: pub_inv_def)

context amqp_client
begin

text \<open>Closing a channel without deliveries takes nothing away.\<close>

lemma close_frame:
  assumes "v_pending (obs c) ch = Map.empty" and "ac_ChClose C ch c = (r, c')"
  shows "pub_frame (obs c) (obs c') \<and> v_routed (obs c') = v_routed (obs c)"
proof -
  from close_obs [OF assms(2)] obtain p cs ls rs
    where v: "obs c' = (obs c)\<lparr>v_pending := p, v_confirms := cs, v_listens := ls, v_returned := rs\<rparr>"
      and p: "\<And>ch'. ch' \<noteq> ch \<Longrightarrow> p ch' = v_pending (obs c) ch'" by blast
  have "p ch' t = Some x" if "v_pending (obs c) ch' t = Some x" for ch' t x
    using that assms(1) p [of ch'] by (cases "ch' = ch") auto
  with v show ?thesis by (simp add: pub_frame_def)
qed

lemma openFresh_spec:
  assumes "openFresh C p c = (r, p', c')" and "pub_inv obs (p, c)"
  shows "pub_inv obs (p', c') \<and> pub_frame (obs c) (obs c') \<and> v_routed (obs c') = v_routed (obs c)
    \<and> (\<forall>ch. r = Inr ch \<longrightarrow> p_ch p' = Some ch) \<and> (\<forall>e. r = Inl e \<longrightarrow> (\<exists>ae. e = wrapf (amqp_err ae)))"
proof -
  obtain r1 c1 where ch: "ac_Channel C c = (r1, c1)" by fastforce
  have v1: "obs c1 = obs c" by (rule chan_obs [OF ch])
  show ?thesis
  proof (cases r1)
    case (Inl e)
    with assms ch v1 show ?thesis by (auto simp: openFresh_def intro: pub_inv_same)
  next
    case (Inr n)
    have fresh: "n \<notin> v_confirms (obs c)" "v_pending (obs c) n = Map.empty"
      using chan_fresh ch Inr by blast+
    obtain r2 c2 where cf: "ac_Confirm C n c1 = (r2, c2)" by fastforce
    from confirm_obs [OF cf] v1 obtain cs where v2: "obs c2 = (obs c)\<lparr>v_confirms := cs\<rparr>"
      and cs: "\<And>ch'. ch' \<noteq> n \<Longrightarrow> ch' \<in> cs \<longleftrightarrow> ch' \<in> v_confirms (obs c)"
      by (metis insert_iff mq_view.surjective mq_view.update_convs(7))
    show ?thesis
    proof (cases r2)
      case (Some e)
      obtain r3 c3 where cl: "ac_ChClose C n c2 = (r3, c3)" by fastforce
      have res: "r = Inl (wrapf (amqp_err e))" "p' = p" "c' = c3"
        using assms(1) ch cf cl Inr Some by (auto simp: openFresh_def)
      have fr: "pub_frame (obs c2) (obs c3) \<and> v_routed (obs c3) = v_routed (obs c2)"
        by (rule close_frame [OF _ cl]) (simp add: v2 fresh)
      from close_obs [OF cl] have others: "ch' \<noteq> n \<Longrightarrow> v_pending (obs c3) ch' = v_pending (obs c2) ch'
          \<and> (ch' \<in> v_confirms (obs c3) \<longleftrightarrow> ch' \<in> v_confirms (obs c2))
          \<and> (ch' \<in> v_listens (obs c3) \<longleftrightarrow> ch' \<in> v_listens (obs c2))" for ch' by auto
      have "pub_inv obs (p, c3)"
        unfolding pub_inv_def
      proof (intro allI impI)
        fix ch'
        assume "p_ch (fst (p, c3)) = Some ch'"
        with assms(2) have "p_returns p = Some ch'" "ch' \<in> v_confirms (obs c)"
          "ch' \<in> v_listens (obs c)" "v_pending (obs c) ch' = Map.empty" by (auto simp: pub_inv_def)
        moreover from this fresh(1) have "ch' \<noteq> n" by blast
        ultimately show "p_returns (fst (p, c3)) = Some ch' \<and> ch' \<in> v_confirms (obs (snd (p, c3)))
            \<and> ch' \<in> v_listens (obs (snd (p, c3))) \<and> v_pending (obs (snd (p, c3))) ch' = Map.empty"
          using others [of ch'] cs [of ch'] v2 by simp
      qed
      with res fr v2 show ?thesis by (auto simp: pub_frame_def)
    next
      case None
      have res: "r = Inr n" "p' = p\<lparr>p_ch := Some n, p_returns := Some n\<rparr>" "c' = ac_NotifyReturn C n c2"
        using assms(1) ch cf Inr None by (auto simp: openFresh_def)
      have "n \<in> v_confirms (obs c2)" using confirm_mode cf None by blast
      with res v2 fresh(2) show ?thesis by (simp add: pub_inv_def pub_frame_def notify_obs)
    qed
  qed
qed

lemma openLocked_spec:
  assumes "openLocked C (p, c) = (r, p', c')" and "pub_inv obs (p, c)"
  shows "pub_inv obs (p', c') \<and> pub_frame (obs c) (obs c') \<and> v_routed (obs c') = v_routed (obs c)
    \<and> (\<forall>ch. r = Inr ch \<longrightarrow> p_ch p' = Some ch) \<and> (\<forall>e. r = Inl e \<longrightarrow> (\<exists>ae. e = wrapf (amqp_err ae)))"
proof (cases "\<exists>ch. p_ch p = Some ch \<and> \<not> ac_ChIsClosed C ch c")
  case True
  with assms show ?thesis by (auto simp: openLocked_def)
next
  case False
  with assms(1) have "openFresh C p c = (r, p', c')"
    by (auto simp: openLocked_def split: option.splits)
  from openFresh_spec [OF this assms(2)] show ?thesis .
qed

lemma dropLocked_spec:
  assumes "dropLocked C (p, c) = (p', c')" and "pub_inv obs (p, c)"
  shows "pub_inv obs (p', c') \<and> pub_frame (obs c) (obs c') \<and> v_routed (obs c') = v_routed (obs c)"
proof (cases "p_ch p")
  case None
  with assms show ?thesis by (auto simp: dropLocked_def)
next
  case (Some ch)
  then have "v_pending (obs c) ch = Map.empty" using assms(2) by (simp add: pub_inv_def)
  with Some assms close_frame [OF this] show ?thesis
    by (cases "ac_ChClose C ch c") (auto simp: dropLocked_def pub_inv_def)
qed

text \<open>
  A publication that returns nil is in a queue; one that fails is in no queue or, when only
  the answer was lost, in a queue all the same.
\<close>

lemma publish_spec:
  assumes run: "publish C e k m (p, c) = (res, p', c')" and inv: "pub_inv obs (p, c)"
  shows "pub_inv obs (p', c')" and "pub_frame (obs c) (obs c')"
    and "res = None \<Longrightarrow> v_routed (obs c') = v_routed (obs c) @ [(e, k, m)]
      \<and> v_held (obs c) + {#content m#} \<subseteq># v_held (obs c')"
    and "res = Some x \<Longrightarrow> v_routed (obs c') = v_routed (obs c)
      \<or> v_routed (obs c') = v_routed (obs c) @ [(e, k, m)]"
    and "res = Some x \<Longrightarrow> errors_Is x sn \<Longrightarrow> sn = ErrCanceled \<or> sn = ErrDeadlineExceeded"
proof -
  obtain r0 p1 c1 where op: "openLocked C (p, c) = (r0, p1, c1)" by (metis prod_cases3)
  note o = openLocked_spec [OF op inv]
  have "pub_inv obs (p', c') \<and> pub_frame (obs c) (obs c')
    \<and> (res = None \<longrightarrow> v_routed (obs c') = v_routed (obs c) @ [(e, k, m)]
         \<and> v_held (obs c) + {#content m#} \<subseteq># v_held (obs c'))
    \<and> (v_routed (obs c') = v_routed (obs c) \<or> v_routed (obs c') = v_routed (obs c) @ [(e, k, m)])
    \<and> (\<forall>x. res = Some x \<longrightarrow> x = ErrText \<or> (\<exists>ae. x = wrapf (amqp_err ae)))"
  proof (cases r0)
    case (Inl err)
    with run op o show ?thesis by (auto simp: publish_def)
  next
    case (Inr ch)
    have p1: "p_ch p1 = Some ch" "pub_inv obs (p1, c1)" using o Inr by blast+
    then have ok: "p_returns p1 = Some ch" "ch \<in> v_confirms (obs c1)" "ch \<in> v_listens (obs c1)"
      "v_pending (obs c1) ch = Map.empty" by (auto simp: pub_inv_def)
    obtain r1 c2 where pub: "ac_Publish C ch e k m c1 = (r1, c2)" by fastforce
    from publish_obs [OF pub] have
      v2: "v_confirms (obs c2) = v_confirms (obs c1)" "v_listens (obs c2) = v_listens (obs c1)"
        "v_pending (obs c2) = v_pending (obs c1)"
      and rt2: "v_routed (obs c2) = v_routed (obs c1) \<or> v_routed (obs c2) = v_routed (obs c1) @ [(e, k, m)]"
      by (auto simp: routed_step_def)
    have fr2: "pub_frame (obs c1) (obs c2)"
      using publish_obs [OF pub]
    proof (elim disjE)
      assume "routed_step e k m (obs c1) (obs c2)"
      then show ?thesis by (rule pub_frame_routed)
    qed (simp_all add: pub_frame_def)
    have inv2: "pub_inv obs (p1, c2)" by (rule pub_inv_same [OF p1(2) v2])
    have fr: "pub_frame (obs c) (obs c2)" using o fr2 pub_frame_trans by blast
    show ?thesis
    proof (cases r1)
      case (Inl err)
      obtain p3 c3 where dr: "dropLocked C (p1, c2) = (p3, c3)" by fastforce
      from dropLocked_spec [OF dr inv2] run op pub Inr Inl dr o fr rt2 show ?thesis
        by (auto simp: publish_def intro: pub_frame_trans)
    next
      case (Inr cf)
      obtain r2 c3 where w: "ac_Wait C cf c2 = (r2, c3)" by fastforce
      have v3: "obs c3 = obs c2" by (rule wait_obs [OF w])
      have inv3: "pub_inv obs (p1, c3)" using inv2 v3 by (auto intro: pub_inv_same)
      show ?thesis
      proof (cases "r2 = Inr True")
        case False
        then have "p' = p1" "c' = c3" "res = Some ErrText \<or> (\<exists>ae. res = Some (wrapf (amqp_err ae)))"
          using run op pub w \<open>r0 = Inr ch\<close> Inr by (auto simp: publish_def split: sum.splits if_splits)
        with inv3 fr rt2 o v3 show ?thesis by auto
      next
        case True
        obtain b c4 where pr: "ac_PollReturn C ch c3 = (b, c4)" by fastforce
        have fin: "p' = p1" "c' = c4" "res = (if b then Some ErrText else None)"
          using run op pub w pr \<open>r0 = Inr ch\<close> Inr True ok(1) by (auto simp: publish_def poll_returns_def)
        have view4: "obs c4 = obs c3 \<or> obs c4 = (obs c3)\<lparr>v_returned := v_returned (obs c3) - {ch}\<rparr>"
        proof (cases b)
          case True
          with pr poll_some [of ch c3 c4] show ?thesis by simp
        next
          case False
          with pr poll_none [of ch c3 c4] show ?thesis by simp
        qed
        have v4: "v_confirms (obs c4) = v_confirms (obs c3)" "v_listens (obs c4) = v_listens (obs c3)"
          "v_pending (obs c4) = v_pending (obs c3)" "v_routed (obs c4) = v_routed (obs c3)"
          "v_held (obs c4) = v_held (obs c3)" "pub_frame (obs c3) (obs c4)"
          using view4 by (auto simp: pub_frame_def)
        have inv4: "pub_inv obs (p1, c4)" by (rule pub_inv_same [OF inv3 v4(1-3)])
        have routed: "routed_step e k m (obs c1) (obs c2)" if "\<not> b"
        proof -
          from poll_none [of ch c3 c4] pr that ok(3) v2 v3 have "ch \<notin> v_returned (obs c2)" by simp
          with acked [OF ok(2,3) pub [unfolded Inr]] w True show ?thesis by simp
        qed
        have "v_held (obs c) + {#content m#} \<subseteq># v_held (obs c4)" if "\<not> b"
        proof -
          from routed [OF that] have up: "v_held (obs c1) + {#content m#} \<subseteq># v_held (obs c2)"
            by (auto simp: routed_step_def)
          have "v_held (obs c) + {#content m#} \<subseteq># v_held (obs c1) + {#content m#}"
            using o by (simp add: pub_frame_def)
          from subset_mset.order_trans [OF this up] show ?thesis unfolding v4(5) v3 .
        qed
        moreover have "v_routed (obs c4) = v_routed (obs c) @ [(e, k, m)]" if "\<not> b"
        proof -
          from routed [OF that] have "v_routed (obs c2) = v_routed (obs c1) @ [(e, k, m)]"
            by (auto simp: routed_step_def)
          with o v3 v4(4) show ?thesis by simp
        qed
        moreover have "pub_frame (obs c) (obs c4)"
          using pub_frame_trans [OF fr] v4(6) v3 by simp
        moreover have "v_routed (obs c4) = v_routed (obs c) \<or> v_routed (obs c4) = v_routed (obs c) @ [(e, k, m)]"
          using rt2 o v3 v4(4) by simp
        ultimately show ?thesis using inv4 unfolding fin by simp
      qed
    qed
  qed
  then show "pub_inv obs (p', c')" and "pub_frame (obs c) (obs c')"
    and "res = None \<Longrightarrow> v_routed (obs c') = v_routed (obs c) @ [(e, k, m)]
      \<and> v_held (obs c) + {#content m#} \<subseteq># v_held (obs c')"
    and "res = Some x \<Longrightarrow> v_routed (obs c') = v_routed (obs c)
      \<or> v_routed (obs c') = v_routed (obs c) @ [(e, k, m)]"
    and "res = Some x \<Longrightarrow> errors_Is x sn \<Longrightarrow> sn = ErrCanceled \<or> sn = ErrDeadlineExceeded"
    by (auto dest: amqp_err_Is)
qed

end

definition broker_publisher :: "'c amqp \<Rightarrow> pubctx \<Rightarrow> (pubst \<times> 'c) Publisher" where
  "broker_publisher C ctx = \<lparr>pub_Publish = broker_Publish C ctx\<rparr>"

lemma broker_publisher_op: "pub_Publish (broker_publisher C ctx) = broker_Publish C ctx"
  by (simp add: broker_publisher_def)

lemma content_newPublishing [simp]: "content (newPublishing ctx ev) = wire ev"
  by (simp add: content_def newPublishing_def wire_def)

context amqp_client
begin

lemma Publish_spec:
  assumes up: "pub_inv obs w" and run: "broker_Publish C ctx ev w = (res, w')"
  shows "pub_inv obs w'
    \<and> (res = None \<longrightarrow> events_sent (obs (snd w')) = events_sent (obs (snd w)) @ [wire ev])
    \<and> (\<forall>e. res = Some e \<longrightarrow> events_sent (obs (snd w')) = events_sent (obs (snd w))
        \<or> events_sent (obs (snd w')) = events_sent (obs (snd w)) @ [wire ev])
    \<and> (\<forall>e sn. res = Some e \<longrightarrow> errors_Is e sn \<longrightarrow>
        sn \<in> {ErrUnavailable, ErrCanceled, ErrDeadlineExceeded})"
proof -
  obtain p c p' c' where w: "w = (p, c)" "w' = (p', c')" by fastforce
  from run w obtain r where pub: "publish C exchangeEvents (RoutingKey ev) (newPublishing ctx ev) (p, c)
      = (r, p', c')" and res: "res = map_option wrapf r"
    by (auto simp: broker_Publish_def wrap_opt_def prod_eq_iff)
  note spec = publish_spec [OF pub up [unfolded w]]
  from spec(1) w have "pub_inv obs w'" by simp
  moreover from spec(3) res w have "res = None \<Longrightarrow>
      events_sent (obs (snd w')) = events_sent (obs (snd w)) @ [wire ev]"
    by (simp add: events_sent_def)
  moreover from spec(4) res w have "res = Some e \<Longrightarrow>
      events_sent (obs (snd w')) = events_sent (obs (snd w))
      \<or> events_sent (obs (snd w')) = events_sent (obs (snd w)) @ [wire ev]" for e
    by (auto simp: events_sent_def)
  moreover from spec(5) res have "res = Some e \<Longrightarrow> errors_Is e sn \<Longrightarrow>
      sn \<in> {ErrUnavailable, ErrCanceled, ErrDeadlineExceeded}" for e sn by (cases r) fastforce+
  ultimately show ?thesis by blast
qed

end

sublocale amqp_client \<subseteq> event_publisher "broker_publisher C ctx"
  "\<lambda>pc. events_sent (obs (snd pc))" "pub_inv obs"
  by (unfold_locales; unfold broker_publisher_op; drule (1) Publish_spec; blast)

end
