(* ===== verification/BrokerConsumer.thy ===== *)
theory BrokerConsumer
  imports BrokerPublisher
begin

text \<open>
  \<open>internal/broker/consumer.go\<close>: what happens to a delivery. The handler is an argument, on a
  state \<open>'h\<close> of its own; it returns or panics. The consumer's state next to it is the struct of
  its own publisher and the client. Logging and tracing are left out. \<open>None\<close> as a result of
  \<open>process\<close> is a panic outside the handler.
\<close>

section \<open>Messages and handlers\<close>

record Message =
  msg_Type :: string
  msg_MessageID :: string
  msg_Body :: "json option"
  Attempt :: go_int
  Final :: bool

datatype outcome = Returned "error option" | Panicked

type_synonym 'h Handler = "Message \<Rightarrow> 'h \<Rightarrow> outcome \<times> 'h"

record Consumer =
  k_ch :: nat
  k_levels :: "retryLevel list"
  k_prefetch :: int

definition handle :: "'h Handler \<Rightarrow> Message \<Rightarrow> 'h \<Rightarrow> error option \<times> 'h" where
  "handle handler msg h =
     (case handler msg h of (Returned err, h) \<Rightarrow> (err, h) | (Panicked, h) \<Rightarrow> (Some ErrText, h))"

section \<open>Settling a delivery\<close>

definition ack :: "'c amqp \<Rightarrow> Consumer \<Rightarrow> Delivery \<Rightarrow> pubst \<times> 'c \<Rightarrow> pubst \<times> 'c" where
  "ack C K d pc = (let (p, c) = pc in (p, snd (ac_Ack C (k_ch K) (d_Tag d) c)))"

definition forwarded :: "Delivery \<Rightarrow> go_int \<Rightarrow> Publishing" where
  "forwarded d attempt =
     \<lparr>Headers = table_put headerAttempts (VInt64 attempt) (Headers d), m_ContentType = m_ContentType d,
      DeliveryMode = Persistent, MessageId = MessageId d, CorrelationId = CorrelationId d,
      Type = Type d, Timestamp = Timestamp d, m_Body = m_Body d\<rparr>"

definition forward ::
  "'c amqp \<Rightarrow> string \<Rightarrow> string \<Rightarrow> Delivery \<Rightarrow> go_int \<Rightarrow> pubst \<times> 'c \<Rightarrow> error option \<times> pubst \<times> 'c" where
  "forward C exchange key d attempt pc = publish C exchange key (forwarded d attempt) pc"

definition reroute ::
  "'c amqp \<Rightarrow> Consumer \<Rightarrow> string \<Rightarrow> string \<Rightarrow> Delivery \<Rightarrow> go_int \<Rightarrow> pubst \<times> 'c \<Rightarrow> pubst \<times> 'c" where
  "reroute C K exchange key d attempt pc =
     (case forward C exchange key d attempt pc of
        (Some e, p, c) \<Rightarrow> (p, snd (ac_Reject C (k_ch K) (d_Tag d) False c))
      | (None, pc) \<Rightarrow> ack C K d pc)"

definition message :: "Delivery \<Rightarrow> Message" where
  "message d =
     (let attempt = attemptNumber (Headers d)
      in \<lparr>msg_Type = Type d, msg_MessageID = MessageId d, msg_Body = m_Body d, Attempt = attempt,
          Final = isFinalAttempt attempt\<rparr>)"

definition process ::
  "'c amqp \<Rightarrow> Consumer \<Rightarrow> 'h Handler \<Rightarrow> Delivery \<Rightarrow> 'h \<times> pubst \<times> 'c \<Rightarrow> ('h \<times> pubst \<times> 'c) option" where
  "process C K handler d w =
     (let (h, pc) = w; attempt = attemptNumber (Headers d); msg = message d;
          (err, h) = handle handler msg h
      in case err of
           None \<Rightarrow> Some (h, ack C K d pc)
         | Some e \<Rightarrow>
             if errors_Is e ErrNonRetryable then Some (h, ack C K d pc)
             else if Final msg then Some (h, reroute C K exchangeDead routingKeyDead d attempt pc)
             else case retryLevelFor (k_levels K) attempt of
                    None \<Rightarrow> None
                  | Some level \<Rightarrow> Some (h, reroute C K exchangeRetry (lv_key level) d attempt pc))"

section \<open>The pump\<close>

text \<open>
  What the pump sees, in order: the context is done, the channel is closed, the deliveries
  stop, or a delivery arrives, which a worker takes (\<open>True\<close>) unless the context is done first.
\<close>

datatype pump_event = CtxDone | ChannelClosed amqp_error | DeliveriesStopped | Delivered Delivery bool

text \<open>The result once the pump returns, and the deliveries it handed to workers.\<close>

fun pump :: "pump_event list \<Rightarrow> error option option \<times> Delivery list" where
  "pump [] = (None, [])"
| "pump (ev # evs) =
     (case ev of
        CtxDone \<Rightarrow> (Some None, [])
      | ChannelClosed e \<Rightarrow> (Some (Some (wrapf (amqp_err e))), [])
      | DeliveriesStopped \<Rightarrow> (Some (Some ErrText), [])
      | Delivered d taken \<Rightarrow>
          if taken then (let (r, jobs) = pump evs in (r, d # jobs)) else (Some None, []))"

fun process_all :: "'c amqp \<Rightarrow> Consumer \<Rightarrow> 'h Handler \<Rightarrow> Delivery list \<Rightarrow> 'h \<times> pubst \<times> 'c
    \<Rightarrow> ('h \<times> pubst \<times> 'c) option" where
  "process_all C K handler [] w = Some w"
| "process_all C K handler (d # ds) w =
     (case process C K handler d w of None \<Rightarrow> None | Some w \<Rightarrow> process_all C K handler ds w)"

text \<open>
  \<open>Consume\<close> up to the moment the pump has seen \<open>evs\<close>, the workers taking the deliveries one by
  one in the order of arrival (they share nothing but the publisher, which serialises itself).
  The result is \<open>None\<close> while the pump still runs.
\<close>

definition Consume :: "'c amqp \<Rightarrow> Consumer \<Rightarrow> 'h Handler \<Rightarrow> pump_event list \<Rightarrow> 'h \<times> pubst \<times> 'c
    \<Rightarrow> (error option option \<times> 'h \<times> pubst \<times> 'c) option" where
  "Consume C K handler evs w =
     (let (h, p, c) = w
      in case ac_Qos C (k_ch K) (k_prefetch K) c of
           (Some e, c) \<Rightarrow> Some (Some (Some (wrapf (amqp_err e))), h, p, c)
         | (None, c) \<Rightarrow>
             (case ac_Consume C (k_ch K) queueProcess c of
                (Some e, c) \<Rightarrow> Some (Some (Some (wrapf (amqp_err e))), h, p, c)
              | (None, c) \<Rightarrow>
                  (let (r, jobs) = pump evs
                   in map_option (\<lambda>w. (r, w)) (process_all C K handler jobs (h, p, c)))))"

definition Conn_Consumer :: "'c amqp \<Rightarrow> Conn \<Rightarrow> 'c \<Rightarrow> (error + Consumer) \<times> pubst \<times> 'c" where
  "Conn_Consumer C conn c =
     (case ac_Channel C c of
        (Inl e, c) \<Rightarrow> (Inl (wrapf (amqp_err e)), new_publisher, c)
      | (Inr ch, c) \<Rightarrow>
          (Inr \<lparr>k_ch = ch, k_levels = c_levels conn, k_prefetch = c_prefetch conn\<rparr>, new_publisher, c))"

definition Consumer_Close :: "'c amqp \<Rightarrow> Consumer \<Rightarrow> pubst \<times> 'c \<Rightarrow> error option \<times> pubst \<times> 'c" where
  "Consumer_Close C K pc =
     (let (e1, p, c) = Publisher_Close C pc; (e2, c) = closeChannel C (k_ch K) c
      in (errors_Join [e1, e2], p, c))"

section \<open>The pump hands out what it receives\<close>

lemma pump_prefix:
  "\<exists>rest. [d. Delivered d _ \<leftarrow> evs] = snd (pump evs) @ rest"
proof (induction evs)
  case (Cons ev evs)
  then show ?case by (cases ev) (auto simp: split_beta)
qed simp

text \<open>
  A delivery taken from the broker and not given to a worker means that the context was done;
  the delivery stays unsettled.
\<close>

lemma pump_all_taken:
  assumes "Delivered d taken \<in> set (take (Suc (length (snd (pump evs)))) evs)"
  shows "d \<in> set (snd (pump evs)) \<or> fst (pump evs) = Some None"
  using assms
proof (induction evs)
  case (Cons ev evs)
  then show ?case by (cases ev) (auto simp: split_beta split: if_splits)
qed simp

section \<open>What becomes of a delivery\<close>

lemma content_forwarded [simp]: "content (forwarded d a) = content d"
  by (simp add: content_def forwarded_def)

lemma attemptNumber_forwarded:
  assumes "0 < sint a" and "sint a \<le> MaxInt32"
  shows "sint (attemptNumber (Headers (forwarded d a))) = sint a + 1"
  using attemptNumber_header(2) [OF assms] by (simp add: forwarded_def)

text \<open>What settling one delivery leaves as it is, a publication before it included.\<close>

definition settled_only :: "nat \<Rightarrow> nat \<Rightarrow> mq_view \<Rightarrow> mq_view \<Rightarrow> bool" where
  "settled_only ch t v v' \<longleftrightarrow>
     v_exchanges v' = v_exchanges v \<and> v_queues v' = v_queues v \<and> v_bindings v' = v_bindings v
   \<and> (\<forall>t' x. t' \<noteq> t \<longrightarrow> v_pending v ch t' = Some x \<longrightarrow> v_pending v' ch t' = Some x)"

text \<open>
  The contents of the deliveries the consumer may let go: those whose handler has returned
  nothing, or an error that no retry cures.
\<close>

fun let_go :: "'h Handler \<Rightarrow> Delivery list \<Rightarrow> 'h \<Rightarrow> content multiset" where
  "let_go handler [] h = {#}"
| "let_go handler (d # ds) h =
     (case handle handler (message d) h of
        (None, h) \<Rightarrow> {#content d#} + let_go handler ds h
      | (Some e, h) \<Rightarrow> (if errors_Is e ErrNonRetryable then {#content d#} else {#}) + let_go handler ds h)"

context amqp_client
begin

text \<open>Re-routing never loses a message, whether the broker takes the copy or not.\<close>

lemma reroute_spec:
  assumes inv: "pub_inv obs (p, c)"
    and pend: "v_pending (obs c) (k_ch K) (d_Tag d) = Some (queueProcess, d_RoutingKey d, content d)"
    and dl: "dead_letters (obs c) queueProcess (d_RoutingKey d)"
    and run: "reroute C K e k d a (p, c) = (p', c')"
  shows "v_held (obs c) \<subseteq># v_held (obs c')"
    and "v_routed (obs c') = v_routed (obs c)
      \<or> v_routed (obs c') = v_routed (obs c) @ [(e, k, forwarded d a)]"
proof -
  obtain res p1 c1 where fw: "publish C e k (forwarded d a) (p, c) = (res, p1, c1)"
    by (metis prod_cases3)
  note spec = publish_spec [OF fw inv]
  have pend1: "v_pending (obs c1) (k_ch K) (d_Tag d) = Some (queueProcess, d_RoutingKey d, content d)"
    using spec(2) pend unfolding pub_frame_def by blast
  have dl1: "dead_letters (obs c1) queueProcess (d_RoutingKey d)"
    using spec(2) dl by (simp add: pub_frame_def dead_letters_def)
  show "v_held (obs c) \<subseteq># v_held (obs c')"
  proof (cases res)
    case None
    obtain r where "ac_Ack C (k_ch K) (d_Tag d) c1 = (r, c')"
      using run fw None by (auto simp: reroute_def forward_def ack_def prod_eq_iff)
    from ack_obs [OF this pend1] have "v_held (obs c1) \<subseteq># v_held (obs c') + {#content d#}" by blast
    moreover have "v_held (obs c) + {#content d#} \<subseteq># v_held (obs c1)" using spec(3) None by simp
    ultimately have "v_held (obs c) + {#content d#} \<subseteq># v_held (obs c') + {#content d#}"
      by (rule subset_mset.order_trans [rotated])
    then show ?thesis by simp
  next
    case (Some x)
    obtain r where "ac_Reject C (k_ch K) (d_Tag d) False c1 = (r, c')"
      using run fw Some by (auto simp: reroute_def forward_def prod_eq_iff)
    from reject_obs [OF this pend1 dl1] have "v_held (obs c1) \<subseteq># v_held (obs c')" by blast
    moreover have "v_held (obs c) \<subseteq># v_held (obs c1)" using spec(2) by (simp add: pub_frame_def)
    ultimately show ?thesis by (rule subset_mset.order_trans [rotated])
  qed
  show "v_routed (obs c') = v_routed (obs c)
      \<or> v_routed (obs c') = v_routed (obs c) @ [(e, k, forwarded d a)]"
  proof (cases res)
    case None
    obtain r where "ac_Ack C (k_ch K) (d_Tag d) c1 = (r, c')"
      using run fw None by (auto simp: reroute_def forward_def ack_def prod_eq_iff)
    from ack_obs [OF this pend1] spec(3) None show ?thesis by simp
  next
    case (Some x)
    obtain r where "ac_Reject C (k_ch K) (d_Tag d) False c1 = (r, c')"
      using run fw Some by (auto simp: reroute_def forward_def prod_eq_iff)
    from reject_obs [OF this pend1 dl1] spec(4) [OF Some] show ?thesis by simp
  qed
qed

text \<open>
  A delivery whose handler fails with an error that a retry may cure is not lost: everything
  the broker held it still holds, and a copy, if any was taken, went to the dead exactly when
  the attempt was the last one, else to the level of the ladder for this attempt.
\<close>

lemma process_retryable:
  assumes inv: "pub_inv obs (p, c)" and top: "topology_ok (k_levels K) (obs c)"
    and ne: "k_levels K \<noteq> []"
    and key: "d_RoutingKey d \<in> {RoutingKeyUploaded, RoutingKeyDeleted, routingKeyRetried}"
    and pend: "v_pending (obs c) (k_ch K) (d_Tag d) = Some (queueProcess, d_RoutingKey d, content d)"
    and hd: "handle handler (message d) h = (Some e, h')" and retry: "\<not> errors_Is e ErrNonRetryable"
  shows "\<exists>p' c'. process C K handler d (h, p, c) = Some (h', p', c')
    \<and> v_held (obs c) \<subseteq># v_held (obs c')
    \<and> (v_routed (obs c') = v_routed (obs c) \<or> v_routed (obs c') = v_routed (obs c) @
        [(if Final (message d) then exchangeDead else exchangeRetry,
          if Final (message d) then routingKeyDead
          else lv_key (the (retryLevelFor (k_levels K) (Attempt (message d)))),
          forwarded d (Attempt (message d)))])"
proof -
  let ?a = "attemptNumber (Headers d)"
  have msg: "Attempt (message d) = ?a" "Final (message d) = isFinalAttempt ?a"
    by (simp_all add: message_def Let_def)
  have dl: "dead_letters (obs c) queueProcess (d_RoutingKey d)"
    by (rule topology_dead_letters [OF top ne key])
  obtain l where l: "retryLevelFor (k_levels K) ?a = Some l" using retryLevelFor_total [OF ne] by blast
  let ?e = "if isFinalAttempt ?a then exchangeDead else exchangeRetry"
  let ?k = "if isFinalAttempt ?a then routingKeyDead else lv_key l"
  obtain p' c' where rr: "reroute C K ?e ?k d ?a (p, c) = (p', c')" by fastforce
  then have "process C K handler d (h, p, c) = Some (h', p', c')"
    using hd retry l msg by (auto simp: process_def Let_def split: if_splits)
  with reroute_spec [OF inv pend dl rr] msg l show ?thesis by (auto split: if_splits)
qed

lemma pub_inv_settled:
  assumes "pub_inv obs (p, c)" and "settle_frame ch t (obs c) (obs c')" and "v_pending (obs c) ch t \<noteq> None"
  shows "pub_inv obs (p, c')"
  unfolding pub_inv_def
proof (intro allI impI)
  fix pch assume "p_ch (fst (p, c')) = Some pch"
  with assms(1) have pch: "p_returns p = Some pch" "pch \<in> v_confirms (obs c)" "pch \<in> v_listens (obs c)"
    "v_pending (obs c) pch = Map.empty" by (simp_all add: pub_inv_def)
  with assms(3) have "pch \<noteq> ch" by auto
  with assms(2) have "v_pending (obs c') pch = v_pending (obs c) pch" by (auto simp: settle_frame_def)
  with pch assms(2) show "p_returns (fst (p, c')) = Some pch \<and> pch \<in> v_confirms (obs (snd (p, c')))
      \<and> pch \<in> v_listens (obs (snd (p, c'))) \<and> v_pending (obs (snd (p, c'))) pch = Map.empty"
    by (simp add: settle_frame_def)
qed

lemma frames_settled_only:
  "pub_frame v u \<Longrightarrow> settle_frame ch t u v' \<Longrightarrow> settled_only ch t v v'"
  by (simp add: pub_frame_def settle_frame_def settled_only_def)

lemma ack_keeps:
  assumes inv: "pub_inv obs (p, c)"
    and pend: "v_pending (obs c) (k_ch K) (d_Tag d) = Some (queueProcess, d_RoutingKey d, content d)"
    and run: "ack C K d (p, c) = (p', c')"
  shows "pub_inv obs (p', c')" and "settled_only (k_ch K) (d_Tag d) (obs c) (obs c')"
    and "v_held (obs c) \<subseteq># v_held (obs c') + {#content d#}"
proof -
  obtain r where a: "ac_Ack C (k_ch K) (d_Tag d) c = (r, c')" and p: "p' = p"
    using run by (auto simp: ack_def prod_eq_iff)
  show "pub_inv obs (p', c')" unfolding p by (rule pub_inv_settled [OF inv ack_frame [OF a]]) (simp add: pend)
  show "settled_only (k_ch K) (d_Tag d) (obs c) (obs c')"
    by (rule frames_settled_only [OF pub_frame_refl ack_frame [OF a]])
  show "v_held (obs c) \<subseteq># v_held (obs c') + {#content d#}" using ack_obs [OF a pend] by blast
qed

lemma reroute_keeps:
  assumes inv: "pub_inv obs (p, c)"
    and pend: "v_pending (obs c) (k_ch K) (d_Tag d) = Some (queueProcess, d_RoutingKey d, content d)"
    and run: "reroute C K e k d a (p, c) = (p', c')"
  shows "pub_inv obs (p', c')" and "settled_only (k_ch K) (d_Tag d) (obs c) (obs c')"
proof -
  obtain res p1 c1 where fw: "publish C e k (forwarded d a) (p, c) = (res, p1, c1)" by (metis prod_cases3)
  note spec = publish_spec [OF fw inv]
  have pend1: "v_pending (obs c1) (k_ch K) (d_Tag d) \<noteq> None" using spec(2) pend unfolding pub_frame_def by blast
  have "p' = p1 \<and> settle_frame (k_ch K) (d_Tag d) (obs c1) (obs c')"
  proof (cases res)
    case None
    then obtain r where "ac_Ack C (k_ch K) (d_Tag d) c1 = (r, c')" "p' = p1"
      using run fw by (auto simp: reroute_def forward_def ack_def prod_eq_iff)
    with ack_frame show ?thesis by blast
  next
    case (Some x)
    then obtain r where "ac_Reject C (k_ch K) (d_Tag d) False c1 = (r, c')" "p' = p1"
      using run fw by (auto simp: reroute_def forward_def prod_eq_iff)
    with reject_frame show ?thesis by blast
  qed
  then have p: "p' = p1" and fr: "settle_frame (k_ch K) (d_Tag d) (obs c1) (obs c')" by simp_all
  show "pub_inv obs (p', c')" unfolding p by (rule pub_inv_settled [OF spec(1) fr pend1])
  show "settled_only (k_ch K) (d_Tag d) (obs c) (obs c')" by (rule frames_settled_only [OF spec(2) fr])
qed

text \<open>One delivery, whatever becomes of it.\<close>

lemma process_keeps:
  assumes inv: "pub_inv obs (p, c)" and top: "topology_ok (k_levels K) (obs c)" and ne: "k_levels K \<noteq> []"
    and key: "d_RoutingKey d \<in> {RoutingKeyUploaded, RoutingKeyDeleted, routingKeyRetried}"
    and pend: "v_pending (obs c) (k_ch K) (d_Tag d) = Some (queueProcess, d_RoutingKey d, content d)"
    and run: "process C K handler d (h, p, c) = Some (h', p', c')"
  shows "pub_inv obs (p', c')" and "settled_only (k_ch K) (d_Tag d) (obs c) (obs c')"
    and "h' = snd (handle handler (message d) h)"
    and "v_held (obs c) \<subseteq># v_held (obs c') + let_go handler [d] h"
proof -
  obtain err h1 where hd: "handle handler (message d) h = (err, h1)" by fastforce
  have dl: "dead_letters (obs c) queueProcess (d_RoutingKey d)"
    by (rule topology_dead_letters [OF top ne key])
  consider (ack) "ack C K d (p, c) = (p', c')" "h' = h1" "let_go handler [d] h = {#content d#}"
    | (reroute) e k a where "reroute C K e k d a (p, c) = (p', c')" "h' = h1"
    using run hd by (auto simp: process_def Let_def split: option.splits if_splits)
  then have "pub_inv obs (p', c') \<and> settled_only (k_ch K) (d_Tag d) (obs c) (obs c') \<and> h' = h1
      \<and> v_held (obs c) \<subseteq># v_held (obs c') + let_go handler [d] h"
  proof cases
    case ack
    with ack_keeps [OF inv pend ack(1)] show ?thesis by simp
  next
    case reroute
    have "v_held (obs c) \<subseteq># v_held (obs c')" by (rule reroute_spec(1) [OF inv pend dl reroute(1)])
    then have "v_held (obs c) \<subseteq># v_held (obs c') + let_go handler [d] h"
      by (rule subset_mset.order_trans) simp
    with reroute_keeps [OF inv pend reroute(1)] reroute(2) show ?thesis by simp
  qed
  then show "pub_inv obs (p', c')" "settled_only (k_ch K) (d_Tag d) (obs c) (obs c')"
    "h' = snd (handle handler (message d) h)" "v_held (obs c) \<subseteq># v_held (obs c') + let_go handler [d] h"
    using hd by simp_all
qed

text \<open>Any number of deliveries: what the broker held it holds, but for what may be let go.\<close>

lemma process_all_keeps:
  assumes "process_all C K handler ds (h, p, c) = Some (h', p', c')"
    and "pub_inv obs (p, c)" and "topology_ok (k_levels K) (obs c)" and "k_levels K \<noteq> []"
    and "distinct (map d_Tag ds)"
    and "\<forall>d\<in>set ds. d_RoutingKey d \<in> {RoutingKeyUploaded, RoutingKeyDeleted, routingKeyRetried}
      \<and> v_pending (obs c) (k_ch K) (d_Tag d) = Some (queueProcess, d_RoutingKey d, content d)"
  shows "v_held (obs c) \<subseteq># v_held (obs c') + let_go handler ds h"
  using assms
proof (induction ds arbitrary: h p c)
  case (Cons d ds)
  obtain h1 p1 c1 where pr: "process C K handler d (h, p, c) = Some (h1, p1, c1)"
    and rest: "process_all C K handler ds (h1, p1, c1) = Some (h', p', c')"
    using Cons.prems(1) by (auto split: option.splits)
  note k = process_keeps [OF Cons.prems(2,3,4) _ _ pr]
  have d: "d_RoutingKey d \<in> {RoutingKeyUploaded, RoutingKeyDeleted, routingKeyRetried}"
    "v_pending (obs c) (k_ch K) (d_Tag d) = Some (queueProcess, d_RoutingKey d, content d)"
    using Cons.prems(6) by simp_all
  have so: "settled_only (k_ch K) (d_Tag d) (obs c) (obs c1)" by (rule k(2) [OF d])
  have top: "topology_ok (k_levels K) (obs c1)" using Cons.prems(3) so by (simp add: topology_ok_def settled_only_def)
  have others: "\<forall>d'\<in>set ds. d_RoutingKey d' \<in> {RoutingKeyUploaded, RoutingKeyDeleted, routingKeyRetried}
      \<and> v_pending (obs c1) (k_ch K) (d_Tag d') = Some (queueProcess, d_RoutingKey d', content d')"
  proof
    fix d' assume d': "d' \<in> set ds"
    then have tag: "d_Tag d' \<noteq> d_Tag d" using Cons.prems(5) by (metis distinct.simps(2) image_eqI list.set_map list.simps(9))
    have p: "v_pending (obs c) (k_ch K) (d_Tag d') = Some (queueProcess, d_RoutingKey d', content d')"
      and r: "d_RoutingKey d' \<in> {RoutingKeyUploaded, RoutingKeyDeleted, routingKeyRetried}"
      using Cons.prems(6) d' by simp_all
    have "v_pending (obs c1) (k_ch K) (d_Tag d') = Some (queueProcess, d_RoutingKey d', content d')"
      using so p tag unfolding settled_only_def by metis
    with r show "d_RoutingKey d' \<in> {RoutingKeyUploaded, RoutingKeyDeleted, routingKeyRetried}
        \<and> v_pending (obs c1) (k_ch K) (d_Tag d') = Some (queueProcess, d_RoutingKey d', content d')"
      by blast
  qed
  have "v_held (obs c1) \<subseteq># v_held (obs c') + let_go handler ds h1"
    by (rule Cons.IH [OF rest k(1) [OF d] top Cons.prems(4) _ others]) (use Cons.prems(5) in simp)
  with k(4) [OF d] have "v_held (obs c) \<subseteq># (v_held (obs c') + let_go handler ds h1) + let_go handler [d] h"
    by (metis subset_mset.add_right_mono subset_mset.order_trans)
  also have "\<dots> = v_held (obs c') + let_go handler (d # ds) h"
    using k(3) [OF d] by (cases "handle handler (message d) h") (auto split: option.split)
  finally show ?case .
qed simp

end

end
