(* ===== verification/Breaker.thy ===== *)
theory Breaker
  imports Interfaces
begin

text \<open>
  Package \<open>internal/breaker\<close>. The circuit breaker itself is third-party code: it decides before a
  call whether to let it through and is told afterwards whether the call succeeded
  (\<open>Execute\<close> is exactly that). What the package adds is the judgement of errors, the translation
  of a refusal into \<open>ErrUnavailable\<close>, and the wrapped operations.
\<close>

section \<open>Settings\<close>

definition consecutiveFailures :: nat where "consecutiveFailures = 5"
definition openTimeout :: duration where "openTimeout = 30 * Second"

definition IsSuccessful :: "error option \<Rightarrow> bool" where
  "IsSuccessful err =
     (case err of None \<Rightarrow> True | Some e \<Rightarrow> errors_Is e ErrNotFound \<or> errors_Is e ErrCanceled)"

record breaker_settings =
  bs_Timeout :: duration
  bs_ReadyToTrip :: "nat \<Rightarrow> bool"
  bs_IsSuccessful :: "error option \<Rightarrow> bool"

definition newBreaker :: breaker_settings where
  "newBreaker = \<lparr>bs_Timeout = openTimeout, bs_ReadyToTrip = (\<lambda>n. n \<ge> consecutiveFailures),
                 bs_IsSuccessful = IsSuccessful\<rparr>"

section \<open>Calls through a breaker\<close>

datatype refusal = ErrOpenState | ErrTooManyRequests

record 'w breaker =
  cb_before :: "'w \<Rightarrow> refusal option \<times> 'w"
  cb_after :: "bool \<Rightarrow> 'w \<Rightarrow> 'w"

text \<open>\<open>execute\<close> of a call that only returns an error, and of one that returns a value.\<close>

definition execute_err :: "'w breaker \<Rightarrow> ('w \<Rightarrow> error option \<times> 'w) \<Rightarrow> 'w \<Rightarrow> error option \<times> 'w" where
  "execute_err cb fn w =
     (case cb_before cb w of
        (Some _, w) \<Rightarrow> (Some (wrapf (Sentinel ErrUnavailable)), w)
      | (None, w) \<Rightarrow> (let (err, w) = fn w in (err, cb_after cb (bs_IsSuccessful newBreaker err) w)))"

definition execute_val :: "'w breaker \<Rightarrow> ('w \<Rightarrow> (error + 'a) \<times> 'w) \<Rightarrow> 'w \<Rightarrow> (error + 'a) \<times> 'w" where
  "execute_val cb fn w =
     (case cb_before cb w of
        (Some _, w) \<Rightarrow> (Inl (wrapf (Sentinel ErrUnavailable)), w)
      | (None, w) \<Rightarrow>
          (let (res, w) = fn w;
               err = (case res of Inl e \<Rightarrow> Some e | Inr _ \<Rightarrow> None)
           in (res, cb_after cb (bs_IsSuccessful newBreaker err) w)))"

definition breaker_Storage :: "'w breaker \<Rightarrow> 'w Storage \<Rightarrow> 'w Storage" where
  "breaker_Storage cb inner =
     \<lparr>st_Put = (\<lambda>key r sz contentType. execute_err cb (st_Put inner key r sz contentType)),
      st_Get = (\<lambda>key. execute_val cb (st_Get inner key)),
      st_DeleteMany = (\<lambda>keys. execute_err cb (st_DeleteMany inner keys))\<rparr>"

definition breaker_Publisher :: "'w breaker \<Rightarrow> 'w Publisher \<Rightarrow> 'w Publisher" where
  "breaker_Publisher cb inner =
     \<lparr>pub_Publish = (\<lambda>event. execute_err cb (pub_Publish inner event))\<rparr>"

section \<open>The wrapped services keep their contracts\<close>

text \<open>A breaker keeps an observation of the world: its own bookkeeping is elsewhere.\<close>

definition breaker_keeps :: "('w \<Rightarrow> 'o) \<Rightarrow> 'w breaker \<Rightarrow> bool" where
  "breaker_keeps f cb =
     ((\<forall>w. f (snd (cb_before cb w)) = f w) \<and> (\<forall>ok w. f (cb_after cb ok w) = f w))"

lemma execute_err_cases:
  assumes "execute_err cb fn w = (err, w')" and "breaker_keeps f cb"
  shows "(err = Some (wrapf (Sentinel ErrUnavailable)) \<and> f w' = f w)
    \<or> (\<exists>w1 w2. f w1 = f w \<and> fn w1 = (err, w2) \<and> f w' = f w2)"
  using assms
  by (auto simp: execute_err_def breaker_keeps_def Let_def split: prod.splits option.splits)
    (metis snd_conv)+

lemma execute_val_cases:
  assumes "execute_val cb fn w = (res, w')" and "breaker_keeps f cb"
  shows "(res = Inl (wrapf (Sentinel ErrUnavailable)) \<and> f w' = f w)
    \<or> (\<exists>w1 w2. f w1 = f w \<and> fn w1 = (res, w2) \<and> f w' = f w2)"
  using assms
  by (auto simp: execute_val_def breaker_keeps_def Let_def split: prod.splits option.splits)
    (metis snd_conv)+

locale guarded_store = object_store S objs
  for S :: "'w Storage" and objs :: "'w \<Rightarrow> string \<rightharpoonup> blob" +
  fixes cb :: "'w breaker"
  assumes keeps_objs: "breaker_keeps objs cb"
begin

lemma Put_guarded:
  assumes "st_Put (breaker_Storage cb S) k d n ct w = (res, w')"
  shows "(res = Some (wrapf (Sentinel ErrUnavailable)) \<and> objs w' = objs w)
    \<or> (\<exists>w1 w2. objs w1 = objs w \<and> st_Put S k d n ct w1 = (res, w2) \<and> objs w' = objs w2)"
  using execute_err_cases [OF _ keeps_objs] assms by (fastforce simp: breaker_Storage_def)

lemma Get_guarded:
  assumes "st_Get (breaker_Storage cb S) k w = (res, w')"
  shows "(res = Inl (wrapf (Sentinel ErrUnavailable)) \<and> objs w' = objs w)
    \<or> (\<exists>w1 w2. objs w1 = objs w \<and> st_Get S k w1 = (res, w2) \<and> objs w' = objs w2)"
  using execute_val_cases [OF _ keeps_objs] assms by (fastforce simp: breaker_Storage_def)

lemma DeleteMany_guarded:
  assumes "st_DeleteMany (breaker_Storage cb S) ks w = (res, w')"
  shows "(res = Some (wrapf (Sentinel ErrUnavailable)) \<and> objs w' = objs w)
    \<or> (\<exists>w1 w2. objs w1 = objs w \<and> st_DeleteMany S ks w1 = (res, w2) \<and> objs w' = objs w2)"
  using execute_err_cases [OF _ keeps_objs] assms by (fastforce simp: breaker_Storage_def)

end

sublocale guarded_store \<subseteq> guarded: object_store "breaker_Storage cb S" objs
proof (unfold_locales, goal_cases)
  case (1 k d n ct w w')
  from Put_guarded [OF 1(1)] obtain w1 w2 where "objs w1 = objs w" "objs w' = objs w2"
    and "st_Put S k d n ct w1 = (None, w2)" by auto
  with Put_ok [OF this(3) 1(2)] show ?case by simp
next
  case (2 k d n ct w res w' k')
  then show ?case by (auto dest!: Put_guarded dest: Put_frame)
next
  case (3 k w res w')
  then show ?case by (auto dest!: Get_guarded dest: Get_objs)
next
  case (4 k w obj w')
  then show ?case by (auto dest!: Get_guarded dest: Get_ok)
next
  case (5 k w e w')
  then show ?case by (auto dest!: Get_guarded dest: Get_err)
next
  case (6 k w e w' sn)
  then show ?case by (auto dest!: Get_guarded dest: Get_err_sentinel)
next
  case (7 k d n ct w e w' sn)
  then show ?case by (auto dest!: Put_guarded dest: Put_err_sentinel)
next
  case (8 ks w w' k)
  then show ?case by (auto dest!: DeleteMany_guarded dest: Delete_ok)
next
  case (9 ks w res w' k)
  then show ?case by (auto dest!: DeleteMany_guarded dest: Delete_frame)
next
  case (10 ks w res w' k)
  then show ?case by (auto dest!: DeleteMany_guarded dest: Delete_shrinks)
next
  case (11 ks w e w' sn)
  then show ?case by (auto dest!: DeleteMany_guarded dest: Delete_err_sentinel)
qed

context guarded_store
begin

lemma is_object_store: "object_store (breaker_Storage cb S) objs"
  by (rule guarded.object_store_axioms)

end

locale guarded_publisher = event_publisher P sent up
  for P :: "'w Publisher" and sent :: "'w \<Rightarrow> content list" and up :: "'w \<Rightarrow> bool" +
  fixes cb :: "'w breaker"
  assumes keeps_sent: "breaker_keeps (\<lambda>w. (sent w, up w)) cb"
begin

lemma Publish_guarded:
  assumes "pub_Publish (breaker_Publisher cb P) ev w = (res, w')"
  shows "(res = Some (wrapf (Sentinel ErrUnavailable)) \<and> sent w' = sent w \<and> up w' = up w)
    \<or> (\<exists>w1 w2. sent w1 = sent w \<and> up w1 = up w \<and> pub_Publish P ev w1 = (res, w2)
         \<and> sent w' = sent w2 \<and> up w' = up w2)"
proof -
  from assms have "execute_err cb (pub_Publish P ev) w = (res, w')"
    by (simp add: breaker_Publisher_def)
  from execute_err_cases [OF this keeps_sent] show ?thesis by (simp add: prod_eq_iff)
qed

end

sublocale guarded_publisher \<subseteq> guarded: event_publisher "breaker_Publisher cb P" sent up
proof (unfold_locales, goal_cases)
  case (1 w ev res w')
  then show ?case by (auto dest!: Publish_guarded dest: Publish_up)
next
  case (2 w ev w')
  then show ?case by (auto dest!: Publish_guarded dest: Publish_ok)
next
  case (3 w ev e w')
  then show ?case by (auto dest!: Publish_guarded dest: Publish_err)
next
  case (4 w ev e w' sn)
  then show ?case by (auto dest!: Publish_guarded dest: Publish_err_sentinel)
qed

section \<open>The breaker itself\<close>

text \<open>
  The breaker is third-party code on a state \<open>'b\<close>. What the package relies on: a closed breaker
  lets calls through and counts consecutive failures, a success resets the count, and the
  breaker leaves the closed state exactly when \<open>ReadyToTrip\<close> says so. \<open>fails\<close> is the count while
  it is closed.
\<close>

record 'b gobreaker =
  gb_before :: "'b \<Rightarrow> refusal option \<times> 'b"
  gb_after :: "bool \<Rightarrow> 'b \<Rightarrow> 'b"

locale counting_breaker =
  fixes gb :: "'b gobreaker" and fails :: "'b \<Rightarrow> nat option"
  assumes closed_lets: "fails b = Some n \<Longrightarrow> \<exists>b'. gb_before gb b = (None, b') \<and> fails b' = Some n"
    and success_resets: "fails b = Some n \<Longrightarrow> fails (gb_after gb True b) = Some 0"
    and failure_counts: "fails b = Some n \<Longrightarrow>
      fails (gb_after gb False b) = (if bs_ReadyToTrip newBreaker (Suc n) then None else Some (Suc n))"

text \<open>A breaker with its own state next to the world of the calls it guards.\<close>

definition own_breaker :: "'b gobreaker \<Rightarrow> ('b \<times> 'w) breaker" where
  "own_breaker gb =
     \<lparr>cb_before = (\<lambda>(b, w). let (r, b') = gb_before gb b in (r, b', w)),
      cb_after = (\<lambda>ok (b, w). (gb_after gb ok b, w))\<rparr>"

definition beside :: "('w \<Rightarrow> 'r \<times> 'w) \<Rightarrow> 'b \<times> 'w \<Rightarrow> 'r \<times> 'b \<times> 'w" where
  "beside op bw = (let (b, w) = bw; (r, w') = op w in (r, b, w'))"

fun calls :: "'b gobreaker \<Rightarrow> ('w \<Rightarrow> error option \<times> 'w) list \<Rightarrow> 'b \<times> 'w \<Rightarrow> error option list \<times> 'b \<times> 'w" where
  "calls gb [] bw = ([], bw)"
| "calls gb (op # ops) bw =
     (let (e, bw) = execute_err (own_breaker gb) (beside op) bw; (es, bw) = calls gb ops bw
      in (e # es, bw))"

text \<open>The calls without a breaker.\<close>

fun bare_calls :: "('w \<Rightarrow> error option \<times> 'w) list \<Rightarrow> 'w \<Rightarrow> error option list \<times> 'w" where
  "bare_calls [] w = ([], w)"
| "bare_calls (op # ops) w = (let (e, w) = op w; (es, w) = bare_calls ops w in (e # es, w))"

context counting_breaker
begin

lemma call_closed:
  assumes "fails b = Some n" and "op w = (e, w')"
  shows "\<exists>b'. execute_err (own_breaker gb) (beside op) (b, w) = (e, b', w')
    \<and> fails b' = (if IsSuccessful e then Some 0
                  else if bs_ReadyToTrip newBreaker (Suc n) then None else Some (Suc n))"
proof -
  from closed_lets [OF assms(1)] obtain b1 where "gb_before gb b = (None, b1)" and b1: "fails b1 = Some n" by blast
  with assms(2) have "execute_err (own_breaker gb) (beside op) (b, w)
      = (e, gb_after gb (bs_IsSuccessful newBreaker e) b1, w')"
    by (simp add: execute_err_def own_breaker_def beside_def)
  then show ?thesis
    using success_resets [OF b1] failure_counts [OF b1]
    by (cases "IsSuccessful e") (simp_all add: newBreaker_def)
qed

text \<open>Failures in a row are let through until the count is reached.\<close>

lemma failing_calls:
  assumes "fails b = Some n" and "n + length ops \<le> consecutiveFailures" and "n < consecutiveFailures"
    and "\<forall>op\<in>set ops. \<forall>w. \<not> IsSuccessful (fst (op w))"
  shows "\<exists>b'. calls gb ops (b, w) = (fst (bare_calls ops w), b', snd (bare_calls ops w))
    \<and> fails b' = (if n + length ops < consecutiveFailures then Some (n + length ops) else None)"
  using assms
proof (induction ops arbitrary: b n w)
  case Nil
  then show ?case by simp
next
  case (Cons op ops)
  obtain e w1 where op: "op w = (e, w1)" by fastforce
  with Cons.prems(4) have bad: "\<not> IsSuccessful e" by (metis fst_conv list.set_intros(1))
  from call_closed [of b _ op w, OF Cons.prems(1) op] bad obtain b1
    where run: "execute_err (own_breaker gb) (beside op) (b, w) = (e, b1, w1)"
      and b1: "fails b1 = (if bs_ReadyToTrip newBreaker (Suc n) then None else Some (Suc n))" by auto
  show ?case
  proof (cases "Suc n < consecutiveFailures")
    case True
    then have "fails b1 = Some (Suc n)" using b1 by (simp add: newBreaker_def)
    from Cons.IH [OF this, of w1] True Cons.prems(2,4) obtain b' where
      "calls gb ops (b1, w1) = (fst (bare_calls ops w1), b', snd (bare_calls ops w1))"
      "fails b' = (if n + length (op # ops) < consecutiveFailures then Some (n + length (op # ops)) else None)"
      by auto
    with run op show ?thesis by (simp add: split_beta)
  next
    case False
    moreover from Cons.prems(2) have "Suc n + length ops \<le> consecutiveFailures" by simp
    ultimately have "length ops = 0" and n: "Suc n = consecutiveFailures" by linarith+
    then have "ops = []" by simp
    note n = this n
    from n run op b1 show ?thesis by (simp add: newBreaker_def)
  qed
qed

text \<open>Calls that only ever succeed or report a missing object leave the breaker closed.\<close>

lemma harmless_calls:
  assumes "fails b = Some 0" and "\<forall>op\<in>set ops. \<forall>w. IsSuccessful (fst (op w))"
  shows "\<exists>b'. calls gb ops (b, w) = (fst (bare_calls ops w), b', snd (bare_calls ops w)) \<and> fails b' = Some 0"
  using assms
proof (induction ops arbitrary: b w)
  case Nil
  then show ?case by simp
next
  case (Cons op ops)
  obtain e w1 where op: "op w = (e, w1)" by fastforce
  with Cons.prems(2) have "IsSuccessful e" by (metis fst_conv list.set_intros(1))
  with call_closed [of b _ op w, OF Cons.prems(1) op] obtain b1
    where run: "execute_err (own_breaker gb) (beside op) (b, w) = (e, b1, w1)" and b1: "fails b1 = Some 0" by auto
  from Cons.IH [OF b1, of w1] Cons.prems(2) obtain b' where
    "calls gb ops (b1, w1) = (fst (bare_calls ops w1), b', snd (bare_calls ops w1))" "fails b' = Some 0" by auto
  with run op show ?case by (simp add: split_beta)
qed

end

section \<open>A breaker as documented\<close>

text \<open>
  Closed with the number of consecutive failures, open until a time, or half open with the one
  trial request let through. The clock is a list of readings; when it is used up it stands still.
\<close>

datatype gb_state = GbClosed nat | GbOpen time | GbHalfOpen bool

type_synonym gb = "gb_state \<times> time list"

definition gb_read :: "time list \<Rightarrow> time \<times> time list" where
  "gb_read cl = (case cl of [] \<Rightarrow> (0, []) | [t] \<Rightarrow> (t, [t]) | t # ts \<Rightarrow> (t, ts))"

definition doc_before :: "gb \<Rightarrow> refusal option \<times> gb" where
  "doc_before b =
     (let (now, cl) = gb_read (snd b)
      in case fst b of
           GbClosed n \<Rightarrow> (None, GbClosed n, cl)
         | GbOpen until \<Rightarrow>
             if now < until then (Some ErrOpenState, GbOpen until, cl) else (None, GbHalfOpen True, cl)
         | GbHalfOpen busy \<Rightarrow>
             if busy then (Some ErrTooManyRequests, GbHalfOpen True, cl) else (None, GbHalfOpen True, cl))"

definition doc_after :: "bool \<Rightarrow> gb \<Rightarrow> gb" where
  "doc_after ok b =
     (let (now, cl) = gb_read (snd b)
      in case fst b of
           GbClosed n \<Rightarrow>
             if ok then (GbClosed 0, cl)
             else if bs_ReadyToTrip newBreaker (Suc n) then (GbOpen (now + bs_Timeout newBreaker), cl)
             else (GbClosed (Suc n), cl)
         | GbOpen until \<Rightarrow> (GbOpen until, cl)
         | GbHalfOpen _ \<Rightarrow>
             if ok then (GbClosed 0, cl) else (GbOpen (now + bs_Timeout newBreaker), cl))"

definition doc_breaker :: "gb gobreaker" where
  "doc_breaker = \<lparr>gb_before = doc_before, gb_after = doc_after\<rparr>"

fun doc_fails :: "gb \<Rightarrow> nat option" where
  "doc_fails (GbClosed n, _) = Some n"
| "doc_fails _ = None"

interpretation doc_cb: counting_breaker doc_breaker doc_fails
proof (unfold_locales, goal_cases)
  case (1 b n)
  then show ?case by (cases b; cases "fst b") (auto simp: doc_breaker_def doc_before_def split: prod.splits)
next
  case (2 b n)
  then show ?case by (cases b; cases "fst b") (auto simp: doc_breaker_def doc_after_def split: prod.splits)
next
  case (3 b n)
  then show ?case by (cases b; cases "fst b") (auto simp: doc_breaker_def doc_after_def split: prod.splits)
qed

section \<open>Properties\<close>

text \<open>
  (C38) The breaker opens at the fifth failure in a row and not before: up to then every call is
  let through and answered as without a breaker, and the fifth one leaves the closed state.
\<close>

theorem breaker_opens_at_fifth:
  assumes "counting_breaker gb fails" and "fails b = Some 0" and "length ops \<le> 5"
    and "\<forall>op\<in>set ops. \<forall>w. \<not> IsSuccessful (fst (op w))"
  shows "\<exists>b'. calls gb ops (b, w) = (fst (bare_calls ops w), b', snd (bare_calls ops w))
    \<and> fails b' = (if length ops < 5 then Some (length ops) else None)"
  using counting_breaker.failing_calls [OF assms(1,2), of ops w] assms(3,4)
  by (cases "length ops < 5") (simp_all add: consecutiveFailures_def)

theorem breaker_opens_at_fifth_witness:
  "\<exists>b'. calls doc_breaker (replicate 5 (\<lambda>n. (Some ErrText, Suc n))) ((GbClosed 0, []), 0 :: nat)
     = (replicate 5 (Some ErrText), b', 5) \<and> doc_fails b' = None"
proof -
  let ?ops = "replicate 5 (\<lambda>n. (Some ErrText, Suc n))"
  have "\<forall>op\<in>set ?ops. \<forall>w. \<not> IsSuccessful (fst (op w))" by (simp add: IsSuccessful_def)
  from breaker_opens_at_fifth [OF doc_cb.counting_breaker_axioms _ _ this, of "(GbClosed 0, [])" 0]
  show ?thesis by (simp add: numeral_eq_Suc)
qed

text \<open>
  Missing objects and clients that went away never open the breaker: however many calls
  end in success, \<open>ErrNotFound\<close> or a cancelled context, all are let through and answered as
  without a breaker.
\<close>

theorem breaker_ignores_missing:
  assumes "counting_breaker gb fails" and "fails b = Some 0"
    and "\<forall>op\<in>set ops. \<forall>w. case fst (op w) of None \<Rightarrow> True
           | Some e \<Rightarrow> errors_Is e ErrNotFound \<or> errors_Is e ErrCanceled"
  shows "\<exists>b'. calls gb ops (b, w) = (fst (bare_calls ops w), b', snd (bare_calls ops w)) \<and> fails b' = Some 0"
  using counting_breaker.harmless_calls [OF assms(1,2)] assms(3) by (simp add: IsSuccessful_def)

theorem breaker_ignores_missing_witness:
  "\<exists>b'. calls doc_breaker (replicate 7 (\<lambda>n. (Some (wrapf (Sentinel ErrNotFound)), Suc n))) ((GbClosed 0, []), 0 :: nat)
     = (replicate 7 (Some (wrapf (Sentinel ErrNotFound))), b', 7) \<and> doc_fails b' = Some 0"
  using breaker_ignores_missing [OF doc_cb.counting_breaker_axioms, of "(GbClosed 0, [])"
      "replicate 7 (\<lambda>n. (Some (wrapf (Sentinel ErrNotFound)), Suc n))" 0]
  by (simp add: numeral_eq_Suc)

end
