(* ===== verification/PostgresRepo.thy ===== *)
theory PostgresRepo
  imports Interfaces
begin

text \<open>
  The PostgreSQL repository as the provider of the three repository interfaces: the records of
  methods the service, the worker handler and the reconciler are given, and the proofs that
  they keep the contracts, with any number of other processes stepping between statements.
\<close>

definition pg_service_repo :: "pg service_Repository" where
  "pg_service_repo = \<lparr>sr_Create = pg_Create, sr_Get = pg_Get, sr_GetCurrent = pg_GetCurrent,
     sr_ListByUser = pg_ListByUser, sr_SetUploadStatus = pg_SetUploadStatus,
     sr_SoftDelete = pg_SoftDelete, sr_MarkFilesRemoved = pg_MarkFilesRemoved\<rparr>"

definition pg_handler_repo :: "pg handler_Repository" where
  "pg_handler_repo = \<lparr>hr_Get = pg_Get, hr_SetProcessingStatus = pg_SetProcessingStatus,
     hr_CompleteProcessing = pg_CompleteProcessing, hr_IncrementRetry = pg_IncrementRetry,
     hr_MarkFilesRemoved = pg_MarkFilesRemoved\<rparr>"

definition pg_reconciler_repo :: "pg reconciler_Repository" where
  "pg_reconciler_repo = \<lparr>rr_SelectStuck = pg_SelectStuck,
     rr_SelectUncleaned = pg_SelectUncleaned, rr_FailStaleUploads = pg_FailStaleUploads\<rparr>"

text \<open>
  What the repository asks of its surroundings: other processes only run the program's own
  statements, and the planner neither drops nor duplicates rows.
\<close>

definition pg_fair :: "pg \<Rightarrow> bool" where
  "pg_fair p = (rely p \<and> (\<forall>n xs. mset (pg_plan p n xs) = mset xs))"

lemma pg_fair_next [simp]: "pg_fair (pg_next t p) = pg_fair p"
  by (simp add: pg_fair_def)

lemma pg_fair_steps: "pg_fair p \<Longrightarrow> db_step\<^sup>*\<^sup>* t (snapshot (pg_next t p))"
  by (simp add: pg_fair_def snapshot_next)

lemma pg_fair_plan: "pg_fair p \<Longrightarrow> mset (pg_plan p n xs) = mset xs"
  by (simp add: pg_fair_def)

section \<open>Statements are steps\<close>

lemma statement_step: "issued st \<Longrightarrow> db_step\<^sup>*\<^sup>* t (statement_effect st now t)"
  by (blast intro: db_step.intros r_into_rtranclp)

lemma set_upload_step:
  "db_step\<^sup>*\<^sup>* t (fst (update_where
     (\<lambda>r. row_id r = i \<and> live r \<and> upload_status r \<in> set (UploadStatus_AllowedFrom s))
     (set_upload s now) t))"
  using statement_step [of "StSetUpload i s" t now]
  by (simp add: setUploadStatusQuery_def set_upload_def [abs_def] del: update_where_fst)

lemma set_processing_step:
  assumes "s \<noteq> ProcessingStatusCompleted"
  shows "db_step\<^sup>*\<^sup>* t (fst (update_where
     (\<lambda>r. row_id r = i \<and> live r \<and> processing_status r \<in> set (ProcessingStatus_AllowedFrom s))
     (set_processing s now) t))"
  using assms statement_step [of "StSetProcessing i s" t now]
  by (simp add: setProcessingStatusQuery_def set_processing_def [abs_def] del: update_where_fst)

lemma set_completed_step:
  "db_step\<^sup>*\<^sup>* t (fst (update_where
     (\<lambda>r. row_id r = i \<and> live r
        \<and> processing_status r \<in> set (ProcessingStatus_AllowedFrom ProcessingStatusCompleted))
     (set_completed keys now) t))"
  using statement_step [of "StComplete i keys" t now]
  by (simp add: completeProcessingQuery_def set_completed_def [abs_def] del: update_where_fst)

lemma avatarExistsQuery_live: "avatarExistsQuery i t = [] \<longleftrightarrow> live_row i t = None"
  by (simp add: avatarExistsQuery_def live_row_def split: list.splits)

lemma live_row_Some: "live_row i t = Some r \<Longrightarrow> r \<in> set t \<and> row_id r = i \<and> live r"
  by (auto simp: live_row_def split: list.splits dest!: filter_eq_ConsD)

section \<open>The contracts hold\<close>

lemma execTransition_law:
  assumes fair: "pg_fair p"
    and ex: "execTransition i
      (\<lambda>now. update_where (\<lambda>r. row_id r = i \<and> live r \<and> P r) (f now)) p = (res, p')"
    and step: "\<And>now t. db_step\<^sup>*\<^sup>* t
      (fst (update_where (\<lambda>r. row_id r = i \<and> live r \<and> P r) (f now) t))"
  shows "pg_fair p' \<and> transition_law snapshot i P f p (map_option wrapf res) p'"
proof -
  let ?P = "\<lambda>r. row_id r = i \<and> live r \<and> P r"
  let ?t = "snapshot p"
  let ?now = "pg_now p (pg_tick p)"
  let ?t' = "fst (update_where ?P (f ?now) ?t)"
  from execTransition_spec [OF ex] consider
      (ok) "res = None" "filter ?P ?t \<noteq> []" "p' = pg_next ?t' p"
    | (none) p1 where "p1 = pg_next ?t p" "filter ?P ?t = []" "p' = pg_next (snapshot p1) p1"
        "res = Some (Sentinel ErrNotFound) \<and> live_row i (snapshot p1) = None
         \<or> res = Some (Sentinel ErrInvalidTransition) \<and> live_row i (snapshot p1) \<noteq> None
         \<or> (\<exists>l. res = Some (lib_err l))"
    | (lib) l where "res = Some (lib_err l)" "p' = pg_next ?t p \<or> p' = pg_next ?t' p"
    unfolding avatarExistsQuery_live by blast
  then show ?thesis
  proof cases
    case ok
    then have "db_step\<^sup>*\<^sup>* ?t' (snapshot p')" using fair by (simp add: pg_fair_steps del: update_where_fst)
    with ok fair show ?thesis by (auto simp: transition_law_def simp del: update_where_fst)
  next
    case none
    then have s1: "db_step\<^sup>*\<^sup>* ?t (snapshot p1)" and s2: "db_step\<^sup>*\<^sup>* (snapshot p1) (snapshot p')"
      using fair by (simp_all add: pg_fair_steps)
    then have "db_step\<^sup>*\<^sup>* ?t (snapshot p')" by (rule rtranclp_trans)
    note s3 = this
    from none(4) show ?thesis
    proof (elim disjE conjE exE)
      assume "res = Some (Sentinel ErrNotFound)" "live_row i (snapshot p1) = None"
      with s1 s2 s3 fair none(1,3) show ?thesis
        unfolding transition_law_def by (simp, blast)
    next
      assume "res = Some (Sentinel ErrInvalidTransition)" "live_row i (snapshot p1) \<noteq> None"
      with s1 s2 s3 fair none(1-3) show ?thesis
        unfolding transition_law_def by (simp, blast)
    next
      fix l
      assume "res = Some (lib_err l)"
      with s3 fair none(1,3) show ?thesis by (simp add: transition_law_def)
    qed
  next
    case lib
    have "db_step\<^sup>*\<^sup>* ?t (snapshot (pg_next ?t' p))"
      by (rule rtranclp_trans [OF step pg_fair_steps [OF fair]])
    with lib(2) have "db_step\<^sup>*\<^sup>* ?t (snapshot p')"
      using pg_fair_steps [OF fair, of ?t] by (auto simp del: update_where_fst)
    with lib fair show ?thesis by (auto simp: transition_law_def simp del: update_where_fst)
  qed
qed

lemma exec_steps:
  assumes "pg_fair p" and "exec stmt p = (res, p')"
    and "\<And>now t. db_step\<^sup>*\<^sup>* t (fst (stmt now t))"
  shows "pg_fair p' \<and> db_step\<^sup>*\<^sup>* (snapshot p) (snapshot p')"
  using exec_spec [OF assms(2)] assms(1,3) pg_fair_steps rtranclp_trans by (metis pg_fair_next)

lemma sort_key_desc_plan:
  fixes xs ys :: "row list"
  assumes "mset xs = mset ys"
  shows "mset (sort_key (\<lambda>r. - created_at r) xs) = mset ys"
    and "sorted_wrt (\<lambda>r r'. created_at r' \<le> created_at r) (sort_key (\<lambda>r. - created_at r) xs)"
proof -
  show "mset (sort_key (\<lambda>r. - created_at r) xs) = mset ys" using assms by simp
  have "sorted (map (\<lambda>r. - created_at r) (sort_key (\<lambda>r. - created_at r) xs))" by simp
  then show "sorted_wrt (\<lambda>r r'. created_at r' \<le> created_at r) (sort_key (\<lambda>r. - created_at r) xs)"
    by (simp add: sorted_map)
qed

lemma pg_Get_spec:
  assumes "pg_fair p" and "pg_Get i p = (res, p')"
  shows "pg_fair p'" and "db_step\<^sup>*\<^sup>* (snapshot p) (snapshot p')"
    and "res = Inr a \<Longrightarrow> \<exists>r. live_row i (snapshot p) = Some r \<and> a = scanAvatar r"
    and "res = Inl e \<Longrightarrow> errors_Is e sn \<Longrightarrow>
      (sn = ErrNotFound \<and> live_row i (snapshot p) = None) \<or> sn = ErrCanceled \<or> sn = ErrDeadlineExceeded"
proof -
  obtain r0 where q: "queryOne (\<lambda>_. getAvatarQuery i) p = (r0, p')"
    and res: "res = (case r0 of Inl e \<Rightarrow> Inl (wrapf e) | Inr x \<Rightarrow> Inr x)"
    using assms(2) by (auto simp: pg_Get_def wrap_res_def prod_eq_iff)
  note spec = queryOne_spec [OF q]
  from spec(1) assms(1) show "pg_fair p'" and "db_step\<^sup>*\<^sup>* (snapshot p) (snapshot p')"
    by (simp_all add: pg_fair_steps)
  show "\<exists>r. live_row i (snapshot p) = Some r \<and> a = scanAvatar r" if "res = Inr a"
    using spec(2) [of a] that res
    by (auto simp: live_row_def getAvatarQuery_def split: sum.splits list.splits)
  show "(sn = ErrNotFound \<and> live_row i (snapshot p) = None) \<or> sn = ErrCanceled \<or> sn = ErrDeadlineExceeded"
    if "res = Inl e" "errors_Is e sn"
    using spec(3) [of _ sn] that res
    by (auto simp: live_row_def getAvatarQuery_def split: sum.splits)
qed

lemma pg_Mark_spec:
  assumes "pg_fair p" and "pg_MarkFilesRemoved i p = (res, p')"
  shows "pg_fair p'" and "db_step\<^sup>*\<^sup>* (snapshot p) (snapshot p')"
    and "res = None \<Longrightarrow> \<exists>r. find_row i (snapshot p') = Some r \<and> files_removed_at r \<noteq> None"
    and "res = Some e \<Longrightarrow> errors_Is e sn \<Longrightarrow>
      (sn = ErrNotFound \<and> find_row i (snapshot p) = None) \<or> sn = ErrCanceled \<or> sn = ErrDeadlineExceeded"
proof -
  let ?stmt = "markFilesRemovedQuery i"
  let ?t' = "fst (?stmt (pg_now p (pg_tick p)) (snapshot p))"
  obtain r0 where q: "exec ?stmt p = (r0, p')" and res: "res = map_option wrapf r0"
    using assms(2) by (auto simp: pg_MarkFilesRemoved_def wrap_opt_def prod_eq_iff)
  have step: "db_step\<^sup>*\<^sup>* t (fst (?stmt now t))" for now t
    using statement_step [of "StMarkRemoved i" t now] by simp
  from exec_steps [OF assms(1) q step]
  show "pg_fair p'" and "db_step\<^sup>*\<^sup>* (snapshot p) (snapshot p')" by blast+
  note spec = exec_spec [OF q]
  have cnt: "snd (?stmt now t) = length (filter (\<lambda>r. row_id r = i) t)" for now t
    by (simp add: markFilesRemovedQuery_def)
  show "\<exists>r. find_row i (snapshot p') = Some r \<and> files_removed_at r \<noteq> None" if "res = None"
  proof -
    from that res spec have p': "p' = pg_next ?t' p" and "filter (\<lambda>r. row_id r = i) (snapshot p) \<noteq> []"
      by (auto simp: cnt)
    then obtain r where "find_row i (snapshot p) = Some r"
      by (cases "find_row i (snapshot p)") (auto simp: find_row_None filter_empty_conv)
    then obtain r' where "find_row i ?t' = Some r'" and marked: "files_removed_at r' \<noteq> None"
      by (auto simp: markFilesRemovedQuery_def find_row_map dest: find_row_Some split: option.splits)
    moreover have "db_step\<^sup>*\<^sup>* ?t' (snapshot p')"
      unfolding p' by (rule pg_fair_steps [OF assms(1)])
    ultimately obtain r'' where "find_row i (snapshot p') = Some r''" and "row_evolves r' r''"
      using db_steps_rows_evolve unfolding rows_evolve_def by blast
    with marked show ?thesis by (auto simp: row_evolves_def)
  qed
  show "(sn = ErrNotFound \<and> find_row i (snapshot p) = None) \<or> sn = ErrCanceled \<or> sn = ErrDeadlineExceeded"
    if "res = Some e" "errors_Is e sn"
    using spec that res by (auto simp: cnt find_row_None filter_empty_conv)
qed

interpretation pg_reads: reads_avatar pg_Get snapshot pg_fair
  using pg_Get_spec by unfold_locales metis+

interpretation pg_marks: marks_files pg_MarkFilesRemoved snapshot pg_fair
  using pg_Mark_spec by unfold_locales metis+


lemma pg_Create_spec:
  assumes "pg_fair p" and "pg_Create a p = (res, p')"
  shows "pg_fair p'"
    and "res = Inr av \<Longrightarrow> \<exists>now t. createAvatarQuery a now (snapshot p) = Some (t, new_row now a)
        \<and> av = scanAvatar (new_row now a) \<and> db_step\<^sup>*\<^sup>* t (snapshot p')"
    and "res = Inl e \<Longrightarrow> db_step\<^sup>*\<^sup>* (snapshot p) (snapshot p')"
    and "res = Inl e \<Longrightarrow> errors_Is e sn \<Longrightarrow> sn = ErrCanceled \<or> sn = ErrDeadlineExceeded"
proof -
  let ?now = "pg_now p (pg_tick p)"
  let ?t' = "case createAvatarQuery a ?now (snapshot p) of None \<Rightarrow> snapshot p | Some (t', r) \<Rightarrow> t'"
  have cre: "createAvatarQuery a ?now (snapshot p) = Some (t, r) \<Longrightarrow> r = new_row ?now a" for t r
    by (auto simp: createAvatarQuery_def split: if_splits)
  have p': "p' = pg_next (snapshot p) p \<or> p' = pg_next ?t' p"
    using assms(2) by (auto simp: pg_Create_def Let_def split: fault.splits option.splits)
  then show "pg_fair p'" using assms(1) by auto
  show "\<exists>now t. createAvatarQuery a now (snapshot p) = Some (t, new_row now a)
      \<and> av = scanAvatar (new_row now a) \<and> db_step\<^sup>*\<^sup>* t (snapshot p')" if "res = Inr av"
    using assms that cre
    by (fastforce simp: pg_Create_def Let_def intro: pg_fair_steps
        split: fault.splits option.splits prod.splits)
  have "db_step\<^sup>*\<^sup>* (snapshot p) ?t'"
    using statement_step [of "StCreate a" "snapshot p" ?now] by simp
  with p' show "db_step\<^sup>*\<^sup>* (snapshot p) (snapshot p')"
    using assms(1) by (metis pg_fair_steps rtranclp_trans)
  show "sn = ErrCanceled \<or> sn = ErrDeadlineExceeded" if "res = Inl e" "errors_Is e sn"
    using assms(2) that
    by (auto simp: pg_Create_def Let_def split: fault.splits option.splits)
qed

lemma pg_SetUploadStatus_law:
  assumes "pg_fair p" and "pg_SetUploadStatus i s p = (res, p')"
  shows "pg_fair p' \<and> transition_law snapshot i
      (\<lambda>r. upload_status r \<in> set (UploadStatus_AllowedFrom s)) (set_upload s) p res p'"
proof -
  let ?P = "\<lambda>r. upload_status r \<in> set (UploadStatus_AllowedFrom s)"
  have "setUploadStatusQuery i s (UploadStatus_AllowedFrom s) =
      (\<lambda>now. update_where (\<lambda>r. row_id r = i \<and> live r \<and> ?P r) (set_upload s now))"
    by (simp add: setUploadStatusQuery_def set_upload_def [abs_def] fun_eq_iff)
  then obtain r0 where ex: "execTransition i
      (\<lambda>now. update_where (\<lambda>r. row_id r = i \<and> live r \<and> ?P r) (set_upload s now)) p = (r0, p')"
    and res: "res = map_option wrapf r0"
    using assms(2) by (auto simp: pg_SetUploadStatus_def wrap_opt_def prod_eq_iff)
  from execTransition_law [OF assms(1) ex set_upload_step] res show ?thesis by blast
qed

lemma pg_SetProcessingStatus_law:
  assumes "pg_fair p" and "pg_SetProcessingStatus i s p = (res, p')"
  shows "pg_fair p'" and "s \<noteq> ProcessingStatusCompleted \<Longrightarrow> transition_law snapshot i
      (\<lambda>r. processing_status r \<in> set (ProcessingStatus_AllowedFrom s)) (set_processing s) p res p'"
proof -
  let ?P = "\<lambda>r. processing_status r \<in> set (ProcessingStatus_AllowedFrom s)"
  have "setProcessingStatusQuery i s (ProcessingStatus_AllowedFrom s) =
      (\<lambda>now. update_where (\<lambda>r. row_id r = i \<and> live r \<and> ?P r) (set_processing s now))"
    by (simp add: setProcessingStatusQuery_def set_processing_def [abs_def] fun_eq_iff)
  then obtain r0 where ex: "execTransition i
      (\<lambda>now. update_where (\<lambda>r. row_id r = i \<and> live r \<and> ?P r) (set_processing s now)) p = (r0, p')"
    and res: "res = map_option wrapf r0"
    using assms(2) by (auto simp: pg_SetProcessingStatus_def wrap_opt_def prod_eq_iff)
  show "pg_fair p'" using execTransition_spec [OF ex] assms(1) by auto
  show "transition_law snapshot i ?P (set_processing s) p res p'"
    if "s \<noteq> ProcessingStatusCompleted"
    using execTransition_law [OF assms(1) ex set_processing_step [OF that]] res by blast
qed

lemma pg_CompleteProcessing_law:
  assumes "pg_fair p" and "pg_CompleteProcessing i keys p = (res, p')"
  shows "pg_fair p' \<and> transition_law snapshot i
      (\<lambda>r. processing_status r \<in> set (ProcessingStatus_AllowedFrom ProcessingStatusCompleted))
      (set_completed keys) p res p'"
proof -
  let ?P = "\<lambda>r. processing_status r \<in> set (ProcessingStatus_AllowedFrom ProcessingStatusCompleted)"
  have "completeProcessingQuery i keys ProcessingStatusCompleted
        (ProcessingStatus_AllowedFrom ProcessingStatusCompleted) =
      (\<lambda>now. update_where (\<lambda>r. row_id r = i \<and> live r \<and> ?P r) (set_completed keys now))"
    by (simp add: completeProcessingQuery_def set_completed_def [abs_def] fun_eq_iff)
  then obtain r0 where ex: "execTransition i
      (\<lambda>now. update_where (\<lambda>r. row_id r = i \<and> live r \<and> ?P r) (set_completed keys now)) p = (r0, p')"
    and res: "res = map_option wrapf r0"
    using assms(2) by (auto simp: pg_CompleteProcessing_def wrap_opt_def prod_eq_iff)
  from execTransition_law [OF assms(1) ex set_completed_step] res show ?thesis by blast
qed

lemma pg_IncrementRetry_spec:
  assumes "pg_fair p" and "pg_IncrementRetry i p = (res, p')"
  shows "pg_fair p' \<and> db_step\<^sup>*\<^sup>* (snapshot p) (snapshot p')"
proof -
  obtain r0 where q: "exec (incrementRetryQuery i) p = (r0, p')"
    using assms(2) by (auto simp: pg_IncrementRetry_def wrap_opt_def prod_eq_iff)
  have "db_step\<^sup>*\<^sup>* t (fst (incrementRetryQuery i now t))" for now t
    using statement_step [of "StIncrementRetry i" t now] by simp
  then show ?thesis using exec_steps [OF assms(1) q] by blast
qed

lemma pg_SoftDelete_spec:
  assumes "pg_fair p" and "pg_SoftDelete i p = (res, p')"
  shows "pg_fair p'" and "db_step\<^sup>*\<^sup>* (snapshot p) (snapshot p')"
    and "res = None \<Longrightarrow> live_row i (snapshot p) \<noteq> None
      \<and> (\<exists>r. find_row i (snapshot p') = Some r \<and> deleted_at r \<noteq> None)"
    and "res = Some e \<Longrightarrow> errors_Is e sn \<Longrightarrow>
      (sn = ErrNotFound \<and> live_row i (snapshot p) = None) \<or> sn = ErrCanceled \<or> sn = ErrDeadlineExceeded"
proof -
  let ?stmt = "softDeleteQuery i"
  let ?t' = "fst (?stmt (pg_now p (pg_tick p)) (snapshot p))"
  obtain r0 where q: "exec ?stmt p = (r0, p')" and res: "res = map_option wrapf r0"
    using assms(2) by (auto simp: pg_SoftDelete_def wrap_opt_def prod_eq_iff)
  have step: "db_step\<^sup>*\<^sup>* t (fst (?stmt now t))" for now t
    using statement_step [of "StSoftDelete i" t now] by simp
  from exec_steps [OF assms(1) q step]
  show "pg_fair p'" and "db_step\<^sup>*\<^sup>* (snapshot p) (snapshot p')" by blast+
  note spec = exec_spec [OF q]
  have cnt: "snd (?stmt now t) = 0 \<longleftrightarrow> live_row i t = None" for now t
    by (simp add: softDeleteQuery_def live_row_def split: list.splits)
  show "live_row i (snapshot p) \<noteq> None
      \<and> (\<exists>r. find_row i (snapshot p') = Some r \<and> deleted_at r \<noteq> None)" if "res = None"
  proof -
    from that res spec have p': "p' = pg_next ?t' p" and lv: "live_row i (snapshot p) \<noteq> None"
      using cnt [of "pg_now p (pg_tick p)" "snapshot p"] by auto
    then obtain x where "x \<in> set (snapshot p)" and "row_id x = i"
      by (auto dest: live_row_Some)
    then obtain r where "find_row i (snapshot p) = Some r"
      by (cases "find_row i (snapshot p)") (auto simp: find_row_None)
    then obtain r' where "find_row i ?t' = Some r'" and del: "deleted_at r' \<noteq> None"
      by (auto simp: softDeleteQuery_def find_row_map live_def dest: find_row_Some)
    moreover have "db_step\<^sup>*\<^sup>* ?t' (snapshot p')"
      unfolding p' by (rule pg_fair_steps [OF assms(1)])
    ultimately obtain r'' where "find_row i (snapshot p') = Some r''" and "row_evolves r' r''"
      using db_steps_rows_evolve unfolding rows_evolve_def by blast
    with del lv show ?thesis by (auto simp: row_evolves_def)
  qed
  show "(sn = ErrNotFound \<and> live_row i (snapshot p) = None) \<or> sn = ErrCanceled \<or> sn = ErrDeadlineExceeded"
    if "res = Some e" "errors_Is e sn"
    using spec that res by (auto simp: cnt)
qed


lemma pg_GetCurrent_spec:
  assumes "pg_fair p" and "pg_GetCurrent u p = (res, p')"
  shows "pg_fair p'" and "db_step\<^sup>*\<^sup>* (snapshot p) (snapshot p')"
    and "res = Inr av \<Longrightarrow>
      \<exists>r\<in>set (user_rows u UploadStatusUploaded (snapshot p)). av = scanAvatar r
        \<and> (\<forall>r'\<in>set (user_rows u UploadStatusUploaded (snapshot p)). created_at r' \<le> created_at r)"
    and "res = Inl e \<Longrightarrow> errors_Is e sn \<Longrightarrow>
      (sn = ErrNotFound \<and> user_rows u UploadStatusUploaded (snapshot p) = [])
      \<or> sn = ErrCanceled \<or> sn = ErrDeadlineExceeded"
proof -
  let ?rows = "user_rows u UploadStatusUploaded (snapshot p)"
  let ?sorted = "sort_key (\<lambda>r. - created_at r) (pg_plan p (pg_tick p) ?rows)"
  obtain r0 where q: "queryOne (\<lambda>plan. getCurrentAvatarQuery plan u UploadStatusUploaded) p = (r0, p')"
    and res: "res = (case r0 of Inl e \<Rightarrow> Inl (wrapf e) | Inr x \<Rightarrow> Inr x)"
    using assms(2) by (auto simp: pg_GetCurrent_def wrap_res_def prod_eq_iff)
  note spec = queryOne_spec [OF q, unfolded getCurrentAvatarQuery_def]
  note srt = sort_key_desc_plan [OF pg_fair_plan [OF assms(1)], of "pg_tick p" ?rows]
  have members: "set ?sorted = set ?rows" using srt(1) by (metis set_mset_mset)
  from spec(1) assms(1) show "pg_fair p'" and "db_step\<^sup>*\<^sup>* (snapshot p) (snapshot p')"
    by (simp_all add: pg_fair_steps)
  show "\<exists>r\<in>set ?rows. av = scanAvatar r \<and> (\<forall>r'\<in>set ?rows. created_at r' \<le> created_at r)"
    if "res = Inr av"
  proof -
    from that res spec(2) [of av] obtain r rs where "take 1 ?sorted = r # rs" and av: "av = scanAvatar r"
      by (auto split: sum.splits)
    then obtain rest where cons: "?sorted = r # rest" by (cases ?sorted) auto
    with srt(2) have "\<forall>r'\<in>set ?sorted. created_at r' \<le> created_at r" by auto
    with members cons av show ?thesis by (metis list.set_intros(1))
  qed
  show "(sn = ErrNotFound \<and> ?rows = []) \<or> sn = ErrCanceled \<or> sn = ErrDeadlineExceeded"
    if "res = Inl e" "errors_Is e sn"
  proof -
    have "take 1 ?sorted = [] \<longleftrightarrow> ?rows = []" using members by (metis set_empty take_eq_Nil one_neq_zero)
    then show ?thesis using spec(3) [of _ sn] that res by (auto split: sum.splits)
  qed
qed

lemma pg_ListByUser_spec:
  assumes "pg_fair p" and "pg_ListByUser u p = (ys, p')"
  shows "pg_fair p'"
    and "\<exists>rs k tail. mset rs = mset (user_rows u UploadStatusUploaded (snapshot p))
        \<and> sorted_wrt (\<lambda>r r'. created_at r' \<le> created_at r) rs
        \<and> ys = map (\<lambda>r. Inr (scanAvatar r)) (take k rs) @ tail
        \<and> (tail = [] \<and> length rs \<le> k \<or> (\<exists>l. tail = [Inl (wrapf (lib_err l))]))"
proof -
  let ?rows = "user_rows u UploadStatusUploaded (snapshot p)"
  have q: "queryMany (\<lambda>plan. listUserAvatarsQuery plan u UploadStatusUploaded) p = (ys, p')"
    using assms(2) by (simp add: pg_ListByUser_def)
  note spec = queryMany_spec [OF q, unfolded listUserAvatarsQuery_def]
  from spec(1) assms(1) show "pg_fair p'" by simp
  show "\<exists>rs k tail. mset rs = mset ?rows
        \<and> sorted_wrt (\<lambda>r r'. created_at r' \<le> created_at r) rs
        \<and> ys = map (\<lambda>r. Inr (scanAvatar r)) (take k rs) @ tail
        \<and> (tail = [] \<and> length rs \<le> k \<or> (\<exists>l. tail = [Inl (wrapf (lib_err l))]))"
    using spec(2) sort_key_desc_plan [OF pg_fair_plan [OF assms(1)], of "pg_tick p" ?rows] by blast
qed

lemma select_batch:
  assumes "pg_fair p" and "queryMany (\<lambda>plan t. take (nat limit) (sort_key updated_at (plan (filter P t)))) p = (ys, p')"
  shows "pg_fair p'" and "db_step\<^sup>*\<^sup>* (snapshot p) (snapshot p')"
    and "\<exists>rs k tail. mset rs = mset (filter P (snapshot p)) \<and> sorted (map updated_at rs)
        \<and> ys = map (\<lambda>r. Inr (scanAvatar r)) (take k (take (nat limit) rs)) @ tail
        \<and> (tail = [] \<and> length (take (nat limit) rs) \<le> k \<or> (\<exists>l. tail = [Inl (wrapf (lib_err l))]))"
proof -
  note spec = queryMany_spec [OF assms(2)]
  from spec(1) assms(1) show "pg_fair p'" and "db_step\<^sup>*\<^sup>* (snapshot p) (snapshot p')"
    by (simp_all add: pg_fair_steps)
  let ?rs = "sort_key updated_at (pg_plan p (pg_tick p) (filter P (snapshot p)))"
  have "mset ?rs = mset (filter P (snapshot p))" and "sorted (map updated_at ?rs)"
    by (simp_all add: pg_fair_plan [OF assms(1)])
  with spec(2) show "\<exists>rs k tail. mset rs = mset (filter P (snapshot p)) \<and> sorted (map updated_at rs)
        \<and> ys = map (\<lambda>r. Inr (scanAvatar r)) (take k (take (nat limit) rs)) @ tail
        \<and> (tail = [] \<and> length (take (nat limit) rs) \<le> k \<or> (\<exists>l. tail = [Inl (wrapf (lib_err l))]))"
    by blast
qed

lemma pg_FailStaleUploads_spec:
  assumes "pg_fair p" and "pg_FailStaleUploads before p = (res, p')"
  shows "pg_fair p'"
    and "res = Inr n \<Longrightarrow>
      \<exists>now. db_step\<^sup>*\<^sup>* (fst (failStaleUploadsQuery UploadStatusFailed UploadStatusUploading
                          before now (snapshot p))) (snapshot p')
        \<and> n = length (filter (\<lambda>r. upload_status r = UploadStatusUploading \<and> live r
                          \<and> updated_at r < before) (snapshot p))"
    and "res = Inl e \<Longrightarrow> db_step\<^sup>*\<^sup>* (snapshot p) (snapshot p')"
proof -
  let ?q = "failStaleUploadsQuery UploadStatusFailed UploadStatusUploading before"
  let ?now = "pg_now p (pg_tick p)"
  let ?t' = "fst (?q ?now (snapshot p))"
  obtain r0 where q: "pool_Exec ?q p = (r0, p')"
    and res: "res = (case r0 of Inl e \<Rightarrow> Inl (wrapf e) | Inr x \<Rightarrow> Inr x)"
    using assms(2) by (auto simp: pg_FailStaleUploads_def wrap_res_def prod_eq_iff)
  have cases: "(\<exists>l. r0 = Inl (lib_err l) \<and> (p' = pg_next (snapshot p) p \<or> p' = pg_next ?t' p))
      \<or> (r0 = Inr (snd (?q ?now (snapshot p))) \<and> p' = pg_next ?t' p)"
    using q by (auto simp: pool_Exec_def Let_def split: fault.splits prod.splits)
  then show "pg_fair p'" using assms(1) by auto
  have "db_step\<^sup>*\<^sup>* (snapshot p) ?t'"
    using statement_step [of "StFailStale before" "snapshot p" ?now] by simp
  then have "db_step\<^sup>*\<^sup>* (snapshot p) (snapshot (pg_next ?t' p))"
    by (rule rtranclp_trans) (rule pg_fair_steps [OF assms(1)])
  with cases show "db_step\<^sup>*\<^sup>* (snapshot p) (snapshot p')"
    using pg_fair_steps [OF assms(1)] by blast
  show "\<exists>now. db_step\<^sup>*\<^sup>* (fst (?q now (snapshot p))) (snapshot p')
      \<and> n = length (filter (\<lambda>r. upload_status r = UploadStatusUploading \<and> live r
                        \<and> updated_at r < before) (snapshot p))" if "res = Inr n"
  proof -
    from that res cases have "p' = pg_next ?t' p" and "n = snd (?q ?now (snapshot p))"
      by (auto split: sum.splits)
    then show ?thesis
      using pg_fair_steps [OF assms(1), of ?t']
      by (auto simp: failStaleUploadsQuery_def simp del: update_where_fst)
  qed
qed

section \<open>Interpretations\<close>

lemma pg_service_repo_ops:
  "sr_Create pg_service_repo = pg_Create" "sr_Get pg_service_repo = pg_Get"
  "sr_GetCurrent pg_service_repo = pg_GetCurrent" "sr_ListByUser pg_service_repo = pg_ListByUser"
  "sr_SetUploadStatus pg_service_repo = pg_SetUploadStatus"
  "sr_SoftDelete pg_service_repo = pg_SoftDelete"
  "sr_MarkFilesRemoved pg_service_repo = pg_MarkFilesRemoved"
  by (simp_all add: pg_service_repo_def)

lemma pg_handler_repo_ops:
  "hr_Get pg_handler_repo = pg_Get" "hr_SetProcessingStatus pg_handler_repo = pg_SetProcessingStatus"
  "hr_CompleteProcessing pg_handler_repo = pg_CompleteProcessing"
  "hr_IncrementRetry pg_handler_repo = pg_IncrementRetry"
  "hr_MarkFilesRemoved pg_handler_repo = pg_MarkFilesRemoved"
  by (simp_all add: pg_handler_repo_def)

lemma pg_reconciler_repo_ops:
  "rr_SelectStuck pg_reconciler_repo = pg_SelectStuck"
  "rr_SelectUncleaned pg_reconciler_repo = pg_SelectUncleaned"
  "rr_FailStaleUploads pg_reconciler_repo = pg_FailStaleUploads"
  by (simp_all add: pg_reconciler_repo_def)

interpretation pg_svc: service_repo pg_service_repo snapshot pg_fair
proof (intro service_repo.intro service_repo_axioms.intro, unfold pg_service_repo_ops)
  show "reads_avatar pg_Get snapshot pg_fair" by (rule pg_reads.reads_avatar_axioms)
  show "marks_files pg_MarkFilesRemoved snapshot pg_fair" by (rule pg_marks.marks_files_axioms)
  fix w a e w' sn
  assume "pg_fair w" and "pg_Create a w = (Inl e, w')"
  then show "db_step\<^sup>*\<^sup>* (snapshot w) (snapshot w')
      \<and> (errors_Is e sn \<longrightarrow> sn = ErrCanceled \<or> sn = ErrDeadlineExceeded)"
    using pg_Create_spec(3,4) [OF _ _ refl] by blast
qed (rule pg_Create_spec(1) pg_SoftDelete_spec(1,2) pg_GetCurrent_spec(1,2) pg_ListByUser_spec(1,2)
       pg_SetUploadStatus_law [THEN conjunct1] pg_SetUploadStatus_law [THEN conjunct2]
       pg_Create_spec(2) [OF _ _ refl]
       pg_SoftDelete_spec(3) [OF _ _ refl] pg_SoftDelete_spec(4) [OF _ _ refl]
       pg_GetCurrent_spec(3) [OF _ _ refl] pg_GetCurrent_spec(4) [OF _ _ refl]; assumption)+

interpretation pg_hdl: handler_repo pg_handler_repo snapshot pg_fair
proof (intro handler_repo.intro handler_repo_axioms.intro, unfold pg_handler_repo_ops)
  show "reads_avatar pg_Get snapshot pg_fair" by (rule pg_reads.reads_avatar_axioms)
  show "marks_files pg_MarkFilesRemoved snapshot pg_fair" by (rule pg_marks.marks_files_axioms)
qed (rule pg_SetProcessingStatus_law pg_CompleteProcessing_law [THEN conjunct1]
       pg_CompleteProcessing_law [THEN conjunct2] pg_IncrementRetry_spec [THEN conjunct1]
       pg_IncrementRetry_spec [THEN conjunct2]; assumption)+

lemma pg_SelectStuck_spec:
  assumes "pg_fair p" and "0 < limit" and "pg_SelectStuck before limit p = (ys, p')"
  shows "pg_fair p'" and "db_step\<^sup>*\<^sup>* (snapshot p) (snapshot p')"
    and "\<exists>rs k tail. mset rs = mset (filter
            (is_stuck UploadStatusUploaded ProcessingStatusPending before) (snapshot p))
        \<and> sorted (map updated_at rs)
        \<and> ys = map (\<lambda>r. Inr (scanAvatar r)) (take k (take (nat limit) rs)) @ tail
        \<and> (tail = [] \<and> length (take (nat limit) rs) \<le> k
           \<or> (\<exists>l. tail = [Inl (wrapf (lib_err l))]))"
  using assms select_batch [OF assms(1), of limit
      "is_stuck UploadStatusUploaded ProcessingStatusPending before" ys p']
  by (simp_all add: pg_SelectStuck_def selectStuckQuery_def [abs_def])

lemma pg_SelectUncleaned_spec:
  assumes "pg_fair p" and "0 < limit" and "pg_SelectUncleaned before limit p = (ys, p')"
  shows "pg_fair p'" and "db_step\<^sup>*\<^sup>* (snapshot p) (snapshot p')"
    and "\<exists>rs k tail. mset rs = mset (filter (is_uncleaned before) (snapshot p))
        \<and> sorted (map updated_at rs)
        \<and> ys = map (\<lambda>r. Inr (scanAvatar r)) (take k (take (nat limit) rs)) @ tail
        \<and> (tail = [] \<and> length (take (nat limit) rs) \<le> k
           \<or> (\<exists>l. tail = [Inl (wrapf (lib_err l))]))"
  using assms select_batch [OF assms(1), of limit "is_uncleaned before" ys p']
  by (simp_all add: pg_SelectUncleaned_def selectUncleanedQuery_def [abs_def])

lemma pg_Select_limit:
  assumes "limit \<le> 0"
  shows "pg_SelectStuck before limit p = ([Inl ErrText], p)"
    and "pg_SelectUncleaned before limit p = ([Inl ErrText], p)"
  using assms by (simp_all add: pg_SelectStuck_def pg_SelectUncleaned_def failedSeq_def)

interpretation pg_rec: reconciler_repo pg_reconciler_repo snapshot pg_fair
proof (intro reconciler_repo.intro, unfold pg_reconciler_repo_ops)
  fix w before limit ys w'
  assume fair: "pg_fair w"
  show "pg_fair w'" and "db_step\<^sup>*\<^sup>* (snapshot w) (snapshot w')"
    if "pg_SelectStuck before limit w = (ys, w')"
    using that fair pg_SelectStuck_spec(1,2) [of w limit before ys w'] pg_Select_limit(1) [of limit before w]
    by (cases "0 < limit"; auto)+
  show "pg_fair w'" and "db_step\<^sup>*\<^sup>* (snapshot w) (snapshot w')"
    if "pg_SelectUncleaned before limit w = (ys, w')"
    using that fair pg_SelectUncleaned_spec(1,2) [of w limit before ys w']
      pg_Select_limit(2) [of limit before w]
    by (cases "0 < limit"; auto)+
qed (rule pg_SelectStuck_spec(3) pg_SelectUncleaned_spec(3) pg_Select_limit
       pg_FailStaleUploads_spec(1) pg_FailStaleUploads_spec(2) [OF _ _ refl]
       pg_FailStaleUploads_spec(3) [OF _ _ refl]; assumption)+

end
