(* ===== verification/ImageProc.thy ===== *)
theory ImageProc
  imports Domain
begin

text \<open>
  Package \<open>internal/imageproc\<close>: the check of an upload by signature and header, and the
  thumbnails. The decoders, the resizing and the JPEG encoder are other packages' code and come
  as the record \<open>codec\<close>. A reader is the bytes it delivers and the error that ends them, if it is
  not the end of the file; a \<open>ReadSeeker\<close> also has a position, and its seeks may fail.
\<close>

section \<open>Readers\<close>

type_synonym stream = "bytes \<times> lib_error option"

record ReadSeeker =
  rs_data :: bytes
  rs_end :: "lib_error option"
  rs_pos :: nat
  rs_seek_err :: "nat \<Rightarrow> lib_error option"
  rs_seeks :: nat

definition remaining :: "ReadSeeker \<Rightarrow> stream" where
  "remaining rs = (drop (rs_pos rs) (rs_data rs), rs_end rs)"

definition advance :: "nat \<Rightarrow> ReadSeeker \<Rightarrow> ReadSeeker" where
  "advance n rs = rs\<lparr>rs_pos := min (rs_pos rs + n) (length (rs_data rs))\<rparr>"

text \<open>\<open>rs.Seek(0, io.SeekStart)\<close>: a failed seek leaves the position.\<close>

definition seek_start :: "ReadSeeker \<Rightarrow> lib_error option \<times> ReadSeeker" where
  "seek_start rs =
     (let e = rs_seek_err rs (rs_seeks rs); rs = rs\<lparr>rs_seeks := Suc (rs_seeks rs)\<rparr>
      in case e of None \<Rightarrow> (None, rs\<lparr>rs_pos := 0\<rparr>) | Some l \<Rightarrow> (Some l, rs))"

section \<open>The codec\<close>

record 'img codec =
  cd_DecodeConfig :: "stream \<Rightarrow> lib_error + int \<times> int"
  cd_Decode :: "stream \<Rightarrow> lib_error + 'img"
  cd_Fill :: "'img \<Rightarrow> int \<Rightarrow> int \<Rightarrow> 'img"
  cd_OverlayWhite :: "'img \<Rightarrow> int \<Rightarrow> int \<Rightarrow> 'img"
  cd_EncodeJPEG :: "int \<Rightarrow> 'img \<Rightarrow> lib_error + bytes"

record Info =
  i_MimeType :: string
  i_Width :: int
  i_Height :: int

record Processor =
  maxPixels :: int
  jpegQuality :: int

definition mimeJPEG :: string where "mimeJPEG = ''image/jpeg''"
definition mimePNG :: string where "mimePNG = ''image/png''"
definition mimeWebP :: string where "mimeWebP = ''image/webp''"
definition ThumbnailMimeType :: string where "ThumbnailMimeType = mimeJPEG"
definition sniffLen :: nat where "sniffLen = 512"

section \<open>The signature\<close>

text \<open>
  \<open>readHead\<close>: at most \<open>sniffLen\<close> bytes; the end of the file is no error, another error met before
  the buffer is full is.
\<close>

definition readHead :: "stream \<Rightarrow> error + bytes" where
  "readHead r =
     (let (bs, err) = r
      in if length bs < sniffLen \<and> err \<noteq> None then Inl (wrapf (lib_err (the err)))
         else Inr (take sniffLen bs))"

definition ascii :: "string \<Rightarrow> bytes" where
  "ascii s = map of_char s"

definition jpegSig :: bytes where "jpegSig = [0xFF, 0xD8, 0xFF]"
definition pngSig :: bytes where "pngSig = [0x89, 0x50, 0x4E, 0x47, 0x0D, 0x0A, 0x1A, 0x0A]"

definition webpSig :: "bytes \<Rightarrow> bool" where
  "webpSig d = (14 \<le> length d \<and> take 4 d = ascii ''RIFF'' \<and> take 6 (drop 8 d) = ascii ''WEBPVP'')"

text \<open>
  \<open>http.DetectContentType\<close> of the standard library, as far as the three supported types go: no
  signature the library tries earlier starts with the first byte of one of these, and every
  other type is treated alike.
\<close>

definition DetectContentType :: "bytes \<Rightarrow> string" where
  "DetectContentType d =
     (if webpSig d then mimeWebP
      else if take 8 d = pngSig then mimePNG
      else if take 3 d = jpegSig then mimeJPEG
      else ''application/octet-stream'')"

definition webpChunkAt :: nat where "webpChunkAt = 12"
definition webpFlagsAt :: nat where "webpFlagsAt = 20"
definition webpAnimBit :: "8 word" where "webpAnimBit = 2"
definition vp8xChunk :: string where "vp8xChunk = ''VP8X''"

definition isAnimatedWebP :: "bytes \<Rightarrow> bool" where
  "isAnimatedWebP head =
     (if length head \<le> webpFlagsAt then False
      else take (length vp8xChunk) (drop webpChunkAt head) = ascii vp8xChunk
         \<and> head ! webpFlagsAt AND webpAnimBit \<noteq> 0)"

definition checkMime :: "bytes \<Rightarrow> error + string" where
  "checkMime head =
     (let mime = DetectContentType head
      in if mime = mimeJPEG \<or> mime = mimePNG then Inr mime
         else if mime = mimeWebP then
           (if isAnimatedWebP head then Inl (wrapf (Sentinel ErrUnsupportedFormat)) else Inr mime)
         else Inl (wrapf (Sentinel ErrUnsupportedFormat)))"

section \<open>The header\<close>

text \<open>\<open>int64(cfg.Width) * int64(cfg.Height)\<close>: the product wraps at 64 bits.\<close>

definition pixels :: "int \<Rightarrow> int \<Rightarrow> int" where
  "pixels w h = sint (of_int (w * h) :: 64 word)"

definition decodeConfig :: "'img codec \<Rightarrow> Processor \<Rightarrow> stream \<Rightarrow> error + int \<times> int" where
  "decodeConfig cd p r =
     (case cd_DecodeConfig cd r of
        Inl l \<Rightarrow> Inl (Errorf [Sentinel ErrUnsupportedFormat, lib_err l])
      | Inr (w, h) \<Rightarrow>
          if w \<le> 0 \<or> h \<le> 0 then Inl (wrapf (Sentinel ErrUnsupportedFormat))
          else if pixels w h > maxPixels p then Inl (wrapf (Sentinel ErrImageTooBig))
          else Inr (w, h))"

text \<open>The deferred rewind: it runs on every path, its error counts when there is no other.\<close>

definition rewind :: "(error + Info) \<times> ReadSeeker \<Rightarrow> (error + Info) \<times> ReadSeeker" where
  "rewind r =
     (let (res, rs) = r; (serr, rs) = seek_start rs
      in case (serr, res) of
           (Some l, Inr _) \<Rightarrow> (Inl (wrapf (lib_err l)), rs)
         | _ \<Rightarrow> (res, rs))"

text \<open>\<open>used\<close> is how far the decoder of the header reads, which the rewind makes irrelevant.\<close>

definition Validate ::
  "'img codec \<Rightarrow> (stream \<Rightarrow> nat) \<Rightarrow> Processor \<Rightarrow> ReadSeeker \<Rightarrow> (error + Info) \<times> ReadSeeker" where
  "Validate cd used p rs =
     rewind
       (case readHead (remaining rs) of
          Inl e \<Rightarrow> (Inl e, advance sniffLen rs)
        | Inr head \<Rightarrow>
            (let rs = advance sniffLen rs
             in case checkMime head of
                  Inl e \<Rightarrow> (Inl e, rs)
                | Inr mime \<Rightarrow>
                    (case seek_start rs of
                       (Some l, rs) \<Rightarrow> (Inl (wrapf (lib_err l)), rs)
                     | (None, rs) \<Rightarrow>
                         (case decodeConfig cd p (remaining rs) of
                            Inl e \<Rightarrow> (Inl e, advance (used (remaining rs)) rs)
                          | Inr (w, h) \<Rightarrow>
                              (Inr \<lparr>i_MimeType = mime, i_Width = w, i_Height = h\<rparr>,
                               advance (used (remaining rs)) rs)))))"

section \<open>Thumbnails\<close>

text \<open>
  \<open>decode\<close>: what the header decoder consumed is put back in front of the rest, so the full
  decoder sees the whole stream.
\<close>

definition decode :: "'img codec \<Rightarrow> Processor \<Rightarrow> stream \<Rightarrow> error + 'img" where
  "decode cd p r =
     (case readHead r of
        Inl e \<Rightarrow> Inl e
      | Inr head \<Rightarrow>
          (case checkMime head of
             Inl e \<Rightarrow> Inl e
           | Inr _ \<Rightarrow>
               (case decodeConfig cd p r of
                  Inl e \<Rightarrow> Inl e
                | Inr _ \<Rightarrow>
                    (case cd_Decode cd r of
                       Inl l \<Rightarrow> Inl (Errorf [Sentinel ErrUnsupportedFormat, lib_err l])
                     | Inr img \<Rightarrow> Inr img))))"

definition flatten :: "'img codec \<Rightarrow> 'img \<Rightarrow> int \<Rightarrow> int \<Rightarrow> 'img" where
  "flatten cd img w h = cd_OverlayWhite cd img w h"

definition encode :: "'img codec \<Rightarrow> Processor \<Rightarrow> 'img \<Rightarrow> error + bytes" where
  "encode cd p img =
     (case cd_EncodeJPEG cd (jpegQuality p) img of Inl l \<Rightarrow> Inl (lib_err l) | Inr d \<Rightarrow> Inr d)"

fun thumbnails_loop :: "'img codec \<Rightarrow> Processor \<Rightarrow> 'img \<Rightarrow> ThumbnailSize list
    \<Rightarrow> (ThumbnailSize \<rightharpoonup> bytes) \<Rightarrow> error + (ThumbnailSize \<rightharpoonup> bytes)" where
  "thumbnails_loop cd p img [] thumbs = Inr thumbs"
| "thumbnails_loop cd p img (sz # sizes) thumbs =
     (let (w, h) = Dimensions sz
      in if w \<le> 0 \<or> h \<le> 0 then Inl (wrapf (Sentinel ErrUnsupportedSize))
         else case encode cd p (flatten cd (cd_Fill cd img w h) w h) of
                Inl e \<Rightarrow> Inl (wrapf e)
              | Inr d \<Rightarrow> thumbnails_loop cd p img sizes (thumbs(sz \<mapsto> d)))"

definition Thumbnails :: "'img codec \<Rightarrow> Processor \<Rightarrow> stream \<Rightarrow> ThumbnailSize list
    \<Rightarrow> error + (ThumbnailSize \<rightharpoonup> bytes)" where
  "Thumbnails cd p r sizes =
     (case decode cd p r of Inl e \<Rightarrow> Inl e | Inr img \<Rightarrow> thumbnails_loop cd p img sizes Map.empty)"

section \<open>Signature lemmas\<close>

lemmas mime_defs = mimeJPEG_def mimePNG_def mimeWebP_def

lemma hd_of_take: "take n xs = y # ys \<Longrightarrow> hd xs = y"
  by (cases xs; cases n) auto

lemma checkMime_ok:
  "checkMime head = Inr mime \<longleftrightarrow>
     (mime = mimeJPEG \<and> take 3 head = jpegSig)
   \<or> (mime = mimePNG \<and> take 8 head = pngSig)
   \<or> (mime = mimeWebP \<and> webpSig head \<and> \<not> isAnimatedWebP head)"
proof -
  have "hd head = 0x52" if "webpSig head"
    using that hd_of_take [of 4 head] by (simp add: webpSig_def ascii_def)
  moreover have "hd head = 0x89" if "take 8 head = pngSig"
    using hd_of_take [OF that [unfolded pngSig_def]] .
  moreover have "hd head = 0xFF" if "take 3 head = jpegSig"
    using hd_of_take [OF that [unfolded jpegSig_def]] .
  ultimately have excl: "webpSig head \<Longrightarrow> take 8 head \<noteq> pngSig \<and> take 3 head \<noteq> jpegSig"
    "take 8 head = pngSig \<Longrightarrow> take 3 head \<noteq> jpegSig"
    by fastforce+
  show ?thesis
    using excl by (auto simp: checkMime_def DetectContentType_def mime_defs Let_def)
qed

lemma checkMime_error:
  "checkMime head = Inl e \<Longrightarrow> errors_Is e s \<longleftrightarrow> s = ErrUnsupportedFormat"
  by (auto simp: checkMime_def Let_def split: if_splits)

lemma pixels_exact:
  assumes "0 \<le> w" and "0 \<le> h" and "w < 2 ^ 31" and "h < 2 ^ 31"
  shows "pixels w h = w * h"
proof -
  have "w * h < 2 ^ 31 * 2 ^ 31" using assms by (intro mult_strict_mono) auto
  then have "w * h < 2 ^ 63" and "0 \<le> w * h" using assms by auto
  then have "signed_take_bit 63 (w * h) = w * h" by (intro signed_take_bit_int_eq_self) auto
  then show ?thesis by (simp add: pixels_def signed_of_int del: of_int_mult)
qed

lemma decodeConfig_ok:
  assumes "decodeConfig cd p r = Inr (w, h)"
  shows "0 < w \<and> 0 < h \<and> pixels w h \<le> maxPixels p \<and> cd_DecodeConfig cd r = Inr (w, h)"
  using assms by (auto simp: decodeConfig_def split: sum.splits if_splits)

lemma decodeConfig_error:
  assumes "decodeConfig cd p r = Inl e" and "errors_Is e s"
  shows "s \<in> {ErrUnsupportedFormat, ErrImageTooBig, ErrCanceled, ErrDeadlineExceeded}"
  using assms by (auto simp: decodeConfig_def split: sum.splits if_splits)

lemma readHead_error:
  "readHead r = Inl e \<Longrightarrow> errors_Is e s \<Longrightarrow> s \<in> {ErrCanceled, ErrDeadlineExceeded}"
  by (auto simp: readHead_def split: prod.splits if_splits)

lemma seek_start_spec:
  assumes "seek_start rs = (e, rs')"
  shows "rs_data rs' = rs_data rs \<and> rs_end rs' = rs_end rs \<and> (e = None \<longrightarrow> rs_pos rs' = 0)"
  using assms by (auto simp: seek_start_def Let_def split: option.splits)

lemma advance_data [simp]: "rs_data (advance n rs) = rs_data rs" "rs_end (advance n rs) = rs_end rs"
  by (simp_all add: advance_def)

lemma rewind_Inr:
  assumes "rewind (res, rs) = (Inr info, rs')"
  shows "res = Inr info \<and> rs_data rs' = rs_data rs \<and> rs_end rs' = rs_end rs \<and> rs_pos rs' = 0"
  using assms seek_start_spec [of rs]
  by (auto simp: rewind_def split: prod.splits option.splits sum.splits)

lemma rewind_Inl:
  assumes "rewind (res, rs) = (Inl e, rs')"
  shows "res = Inl e \<or> (\<exists>l. e = wrapf (lib_err l))"
  using assms by (auto simp: rewind_def split: prod.splits option.splits sum.splits)

text \<open>
  An accepted upload: the bytes carry the signature of the reported type and are no animated
  WebP, the header gives the reported size within the limit, and the stream is back at its
  start with its bytes unchanged.
\<close>

lemma Validate_ok:
  assumes run: "Validate cd used p rs = (Inr info, rs')" and start: "rs_pos rs = 0"
  shows "rs_pos rs' = 0 \<and> rs_data rs' = rs_data rs
    \<and> checkMime (take sniffLen (rs_data rs)) = Inr (i_MimeType info)
    \<and> cd_DecodeConfig cd (rs_data rs, rs_end rs) = Inr (i_Width info, i_Height info)
    \<and> 0 < i_Width info \<and> 0 < i_Height info \<and> pixels (i_Width info) (i_Height info) \<le> maxPixels p"
proof -
  from run obtain head mime where hd: "readHead (remaining rs) = Inr head"
    and mime: "checkMime head = Inr mime"
    by (auto simp: Validate_def Let_def dest!: rewind_Inr split: sum.splits)
  obtain se rs1 where sk: "seek_start (advance sniffLen rs) = (se, rs1)" by fastforce
  have body: "rewind (case se of Some l \<Rightarrow> (Inl (wrapf (lib_err l)), rs1)
      | None \<Rightarrow> (case decodeConfig cd p (remaining rs1) of
                  Inl e \<Rightarrow> (Inl e, advance (used (remaining rs1)) rs1)
                | Inr (w, h) \<Rightarrow> (Inr \<lparr>i_MimeType = mime, i_Width = w, i_Height = h\<rparr>,
                    advance (used (remaining rs1)) rs1))) = (Inr info, rs')"
    using run by (simp add: Validate_def hd mime sk)
  have sk': "rs_data rs1 = rs_data rs" "rs_end rs1 = rs_end rs" "se = None \<longrightarrow> rs_pos rs1 = 0"
    using seek_start_spec [OF sk] by auto
  from body obtain w h where se: "se = None" and dc: "decodeConfig cd p (remaining rs1) = Inr (w, h)"
    and info: "info = \<lparr>i_MimeType = mime, i_Width = w, i_Height = h\<rparr>"
    by (cases se) (auto dest!: rewind_Inr split: sum.splits)
  have whole: "remaining rs1 = (rs_data rs, rs_end rs)" using sk' se by (simp add: remaining_def)
  from body se dc have "rs_data rs' = rs_data rs \<and> rs_pos rs' = 0"
    using sk' by (auto dest!: rewind_Inr)
  moreover have "head = take sniffLen (rs_data rs)"
    using hd start by (auto simp: readHead_def remaining_def split: if_splits)
  ultimately show ?thesis using decodeConfig_ok [OF dc] mime info whole by auto
qed

text \<open>A refused upload is refused for its format, its size, or an error of the stream.\<close>

lemma Validate_error:
  assumes "Validate cd used p rs = (Inl e, rs')" and "errors_Is e s"
  shows "s \<in> {ErrUnsupportedFormat, ErrImageTooBig, ErrCanceled, ErrDeadlineExceeded}"
  using assms readHead_error [of "remaining rs" e s]
  by (auto simp: Validate_def Let_def checkMime_error
      dest!: rewind_Inl dest: decodeConfig_error readHead_error split: sum.splits prod.splits option.splits)

lemma thumbnails_loop_dom:
  "thumbnails_loop cd p img sizes t = Inr t' \<Longrightarrow> dom t' = dom t \<union> set sizes"
  by (induction sizes arbitrary: t) (auto split: prod.splits if_splits sum.splits)

lemma Thumbnails_all: "Thumbnails cd p r sizes = Inr t \<Longrightarrow> dom t = set sizes"
  by (auto simp: Thumbnails_def dest: thumbnails_loop_dom split: sum.splits)

lemma thumbnails_loop_error:
  "thumbnails_loop cd p img sizes t = Inl e \<Longrightarrow> errors_Is e s \<Longrightarrow>
     s \<in> {ErrUnsupportedSize, ErrCanceled, ErrDeadlineExceeded}"
  by (induction sizes arbitrary: t) (auto simp: encode_def split: prod.splits if_splits sum.splits)

lemma decode_error:
  assumes "decode cd p r = Inl e" and "errors_Is e s"
  shows "s \<in> {ErrUnsupportedFormat, ErrImageTooBig, ErrCanceled, ErrDeadlineExceeded}"
  using assms readHead_error [of r e s]
  by (auto simp: decode_def checkMime_error dest: decodeConfig_error split: sum.splits)

lemma Thumbnails_error:
  assumes "Thumbnails cd p r sizes = Inl e" and "errors_Is e s"
  shows "s \<in> {ErrUnsupportedFormat, ErrImageTooBig, ErrUnsupportedSize, ErrCanceled, ErrDeadlineExceeded}"
  using assms decode_error [of cd p r e s]
  by (auto simp: Thumbnails_def dest: thumbnails_loop_error split: sum.splits)

section \<open>Properties\<close>

text \<open>
  (C37) An accepted upload is what it claims: its bytes carry the signature of the reported type
  (a WebP is not animated), its header declares positive dimensions within the pixel limit, and
  the file is handed on unread, at its start and with its bytes unchanged.
\<close>

theorem Validate_accepts:
  assumes "Validate cd used p rs = (Inr info, rs')" and "rs_pos rs = 0"
    and "i_Width info < 2 ^ 31" and "i_Height info < 2 ^ 31"
  shows "remaining rs' = (rs_data rs, rs_end rs')
    \<and> ((i_MimeType info = mimeJPEG \<and> take 3 (take sniffLen (rs_data rs)) = jpegSig)
      \<or> (i_MimeType info = mimePNG \<and> take 8 (take sniffLen (rs_data rs)) = pngSig)
      \<or> (i_MimeType info = mimeWebP \<and> webpSig (take sniffLen (rs_data rs))
          \<and> isAnimatedWebP (take sniffLen (rs_data rs)) = False))
    \<and> 0 < i_Width info \<and> 0 < i_Height info \<and> i_Width info * i_Height info \<le> maxPixels p"
proof -
  note V = Validate_ok [OF assms(1,2)]
  have "pixels (i_Width info) (i_Height info) = i_Width info * i_Height info"
    using V assms(3,4) by (intro pixels_exact) auto
  with V show ?thesis by (simp add: remaining_def checkMime_ok)
qed

definition png0 :: ReadSeeker where
  "png0 = \<lparr>rs_data = pngSig @ [1, 2], rs_end = None, rs_pos = 0, rs_seek_err = (\<lambda>_. None), rs_seeks = 0\<rparr>"

definition tiny :: "unit codec" where
  "tiny = \<lparr>cd_DecodeConfig = (\<lambda>_. Inr (3, 2)), cd_Decode = (\<lambda>_. Inl LibOther), cd_Fill = (\<lambda>i w h. i),
     cd_OverlayWhite = (\<lambda>i w h. i), cd_EncodeJPEG = (\<lambda>q i. Inr [])\<rparr>"

definition limit6 :: Processor where "limit6 = \<lparr>maxPixels = 6, jpegQuality = 85\<rparr>"

lemma png0_valid:
  "\<exists>rs'. Validate tiny (\<lambda>_. 10) limit6 png0 = (Inr \<lparr>i_MimeType = mimePNG, i_Width = 3, i_Height = 2\<rparr>, rs')"
proof -
  have "fst (Validate tiny (\<lambda>_. 10) limit6 png0) = Inr \<lparr>i_MimeType = mimePNG, i_Width = 3, i_Height = 2\<rparr>"
    by code_simp
  then show ?thesis by (metis prod.collapse)
qed

theorem Validate_accepts_witness:
  "\<exists>rs'. Validate tiny (\<lambda>_. 10) limit6 png0 = (Inr \<lparr>i_MimeType = mimePNG, i_Width = 3, i_Height = 2\<rparr>, rs')
     \<and> fst (remaining rs') = rs_data png0"
proof -
  obtain rs' where run: "Validate tiny (\<lambda>_. 10) limit6 png0
      = (Inr \<lparr>i_MimeType = mimePNG, i_Width = 3, i_Height = 2\<rparr>, rs')" using png0_valid by blast
  from Validate_accepts [OF run] have "remaining rs' = (rs_data png0, rs_end rs')" by (simp add: png0_def)
  with run show ?thesis by simp
qed

text \<open>
  What a refused upload may be refused for: an unsupported format, an image too big, or an
  error of the stream; never a sentinel another part of the program reacts to.
\<close>

theorem Validate_refuses:
  assumes "Validate cd used p rs = (Inl e, rs')" and "errors_Is e s"
  shows "s \<in> {ErrUnsupportedFormat, ErrImageTooBig, ErrCanceled, ErrDeadlineExceeded}"
  by (rule Validate_error [OF assms])

theorem Validate_refuses_witness:
  "\<exists>e rs'. Validate tiny (\<lambda>_. 10) limit6 (png0\<lparr>rs_data := [1]\<rparr>) = (Inl e, rs') \<and> errors_Is e ErrUnsupportedFormat
     \<and> ErrUnsupportedFormat \<in> {ErrUnsupportedFormat, ErrImageTooBig, ErrCanceled, ErrDeadlineExceeded}"
proof -
  obtain r rs' where run: "Validate tiny (\<lambda>_. 10) limit6 (png0\<lparr>rs_data := [1]\<rparr>) = (r, rs')" by fastforce
  have "(case fst (Validate tiny (\<lambda>_. 10) limit6 (png0\<lparr>rs_data := [1]\<rparr>)) of
      Inl e \<Rightarrow> errors_Is e ErrUnsupportedFormat | Inr _ \<Rightarrow> False)" by code_simp
  with run obtain e where "r = Inl e" "errors_Is e ErrUnsupportedFormat" by (cases r) auto
  with run Validate_refuses [of tiny "\<lambda>_. 10" limit6 "png0\<lparr>rs_data := [1]\<rparr>" e rs' ErrUnsupportedFormat]
  show ?thesis by blast
qed

text \<open>
  A successful rendering has a thumbnail for every size asked for and for no other, so a
  completed avatar never lacks one.
\<close>

theorem Thumbnails_complete:
  assumes "Thumbnails cd p r ThumbnailSizes = Inr t"
  shows "dom t = {ThumbnailSmall, ThumbnailMedium}"
  using Thumbnails_all [OF assms] by (simp add: ThumbnailSizes_def)

theorem Thumbnails_complete_witness:
  "\<exists>t. Thumbnails (tiny\<lparr>cd_Decode := (\<lambda>_. Inr ())\<rparr>) limit6 (jpegSig, None) ThumbnailSizes = Inr t
     \<and> dom t = {ThumbnailSmall, ThumbnailMedium}"
proof -
  have "is_ok (Thumbnails (tiny\<lparr>cd_Decode := (\<lambda>_. Inr ())\<rparr>) limit6 (jpegSig, None) ThumbnailSizes)"
    by code_simp
  then obtain t where "Thumbnails (tiny\<lparr>cd_Decode := (\<lambda>_. Inr ())\<rparr>) limit6 (jpegSig, None) ThumbnailSizes = Inr t"
    by (auto simp: is_ok_def split: sum.splits)
  with Thumbnails_complete [OF this] show ?thesis by blast
qed

end
