(* ===== verification/Service.thy ===== *)
theory Service
  imports PostgresRepo ImageProc
begin

text \<open>
  Package \<open>internal/server/service\<close>: upload, content, deletion and metadata, over the interfaces of
  \<open>Interfaces\<close>. Every operation runs on a world \<open>'w\<close>; identifiers, message ids and metrics are
  operations on it too. Spans, logs and the duration given to the metrics are left out.
\<close>

section \<open>The service\<close>

record 'w Metrics =
  m_ObserveUpload :: "bool \<Rightarrow> 'w \<Rightarrow> 'w"
  m_IncDelete :: "bool \<Rightarrow> 'w \<Rightarrow> 'w"

record Placeholder =
  ph_data :: bytes
  ph_etag :: string

record 'w Service =
  svc_repo :: "'w service_Repository"
  svc_storage :: "'w Storage"
  svc_publisher :: "'w Publisher"
  svc_validator :: "ReadSeeker \<Rightarrow> (error + Info) \<times> ReadSeeker"
  svc_placeholder :: Placeholder
  svc_metrics :: "'w Metrics"
  svc_us :: "uuid \<Rightarrow> string"
  svc_NewUUID :: "'w \<Rightarrow> uuid \<times> 'w"
  svc_NewString :: "'w \<Rightarrow> string \<times> 'w"

text \<open>\<open>digest\<close> is the SHA-256 of the embedded image, in hexadecimal.\<close>

definition etagLen :: nat where "etagLen = 16"

definition placeholder_New :: "bytes \<Rightarrow> string \<Rightarrow> Placeholder" where
  "placeholder_New defaultPNG digest = \<lparr>ph_data = defaultPNG, ph_etag = take etagLen digest\<rparr>"

section \<open>Upload\<close>

record UploadInput =
  u_UserID :: string
  u_FileName :: string
  u_Size :: int
  u_File :: ReadSeeker

definition markFailed :: "'w Service \<Rightarrow> uuid \<Rightarrow> 'w \<Rightarrow> 'w" where
  "markFailed V i w = snd (sr_SetUploadStatus (svc_repo V) i UploadStatusFailed w)"

definition new_avatar :: "'w Service \<Rightarrow> UploadInput \<Rightarrow> Info \<Rightarrow> uuid \<Rightarrow> NewAvatar" where
  "new_avatar V inp info i =
     \<lparr>n_ID = i, n_UserID = u_UserID inp, n_FileName = u_FileName inp, n_MimeType = i_MimeType info,
      n_SizeBytes = u_Size inp, n_Width = i_Width info, n_Height = i_Height info,
      n_S3Key = OriginalKey (svc_us V) i\<rparr>"

text \<open>The steps after the record is created; the client going away no longer interrupts them.\<close>

definition store_original ::
  "'w Service \<Rightarrow> UploadInput \<Rightarrow> ReadSeeker \<Rightarrow> Info \<Rightarrow> uuid \<Rightarrow> Avatar \<Rightarrow> 'w \<Rightarrow> (error + Avatar) \<times> 'w" where
  "store_original V inp file info i avatar w =
     (let key = OriginalKey (svc_us V) i
      in case st_Put (svc_storage V) key (fst (remaining file)) (u_Size inp) (i_MimeType info) w of
           (Some e, w) \<Rightarrow> (Inl (wrapf e), markFailed V i w)
         | (None, w) \<Rightarrow>
             (case sr_SetUploadStatus (svc_repo V) i UploadStatusUploaded w of
                (Some e, w) \<Rightarrow> (Inl (wrapf e), markFailed V i w)
              | (None, w) \<Rightarrow>
                  (let (mid, w) = svc_NewString V w;
                       event = UploadEvent (NewUploadEvent (svc_us V) mid i (u_UserID inp) key);
                       (err, w) = pub_Publish (svc_publisher V) event w
                   in (Inr (avatar\<lparr>AvUploadStatus := UploadStatusUploaded\<rparr>), w))))"

definition upload_body :: "'w Service \<Rightarrow> UploadInput \<Rightarrow> 'w \<Rightarrow> (error + Avatar) \<times> 'w" where
  "upload_body V inp w =
     (case svc_validator V (u_File inp) of
        (Inl e, file) \<Rightarrow> (Inl (wrapf e), w)
      | (Inr info, file) \<Rightarrow>
          (let (i, w) = svc_NewUUID V w
           in case sr_Create (svc_repo V) (new_avatar V inp info i) w of
                (Inl e, w) \<Rightarrow> (Inl (wrapf e), w)
              | (Inr avatar, w) \<Rightarrow> store_original V inp file info i avatar w))"

definition Upload :: "'w Service \<Rightarrow> UploadInput \<Rightarrow> 'w \<Rightarrow> (error + Avatar) \<times> 'w" where
  "Upload V inp w =
     (let (res, w) = upload_body V inp w
      in (res, m_ObserveUpload (svc_metrics V) (is_ok res) w))"

section \<open>Content\<close>

definition cacheReady :: duration where "cacheReady = 24 * Hour"
definition cachePending :: duration where "cachePending = Minute"
definition cachePlaceholder :: duration where "cachePlaceholder = 5 * Minute"
definition cacheCurrent :: duration where "cacheCurrent = 5 * Minute"

record Content =
  c_Body :: bytes
  c_BodyErr :: "lib_error option"
  c_ContentType :: string
  c_ETag :: string
  c_Size :: int
  c_MaxAge :: duration
  c_IsDefault :: bool

definition placeholder_ContentType :: string where "placeholder_ContentType = ''image/png''"

definition content_of :: "'w Service \<Rightarrow> Avatar \<Rightarrow> ThumbnailSize \<Rightarrow> 'w \<Rightarrow> (error + Content) \<times> 'w" where
  "content_of V avatar sz w =
     (let (key, maxAge) =
            (if sz \<noteq> '''' then
               (case Thumbnail avatar sz of
                  Some thumbnail \<Rightarrow> (thumbnail, cacheReady)
                | None \<Rightarrow>
                    if AvProcessingStatus avatar \<noteq> ProcessingStatusFailed
                    then (S3Key avatar, cachePending) else (S3Key avatar, cacheReady))
             else (S3Key avatar, cacheReady))
      in case st_Get (svc_storage V) key w of
           (Inl e, w) \<Rightarrow> (Inl e, w)
         | (Inr object, w) \<Rightarrow>
             (Inr \<lparr>c_Body = Body object, c_BodyErr = BodyErr object,
                   c_ContentType = ContentType object, c_ETag = ETag object, c_Size = Size object,
                   c_MaxAge = maxAge, c_IsDefault = False\<rparr>, w))"

definition defaultContent :: "'w Service \<Rightarrow> Content" where
  "defaultContent V =
     \<lparr>c_Body = ph_data (svc_placeholder V), c_BodyErr = None,
      c_ContentType = placeholder_ContentType, c_ETag = ph_etag (svc_placeholder V),
      c_Size = int (length (ph_data (svc_placeholder V))), c_MaxAge = cachePlaceholder,
      c_IsDefault = True\<rparr>"

definition AvatarContent :: "'w Service \<Rightarrow> uuid \<Rightarrow> ThumbnailSize \<Rightarrow> 'w \<Rightarrow> (error + Content) \<times> 'w" where
  "AvatarContent V i sz w =
     (case sr_Get (svc_repo V) i w of
        (Inl e, w) \<Rightarrow> (Inl (wrapf e), w)
      | (Inr avatar, w) \<Rightarrow>
          (case content_of V avatar sz w of
             (Inl e, w) \<Rightarrow> (Inl (wrapf e), w)
           | (Inr c, w) \<Rightarrow> (Inr c, w)))"

definition UserAvatarContent ::
  "'w Service \<Rightarrow> string \<Rightarrow> ThumbnailSize \<Rightarrow> 'w \<Rightarrow> (error + Content) \<times> 'w" where
  "UserAvatarContent V userID sz w =
     (case sr_GetCurrent (svc_repo V) userID w of
        (Inl e, w) \<Rightarrow>
          if errors_Is e ErrNotFound then (Inr (defaultContent V), w) else (Inl (wrapf e), w)
      | (Inr avatar, w) \<Rightarrow>
          (case content_of V avatar sz w of
             (Inl e, w) \<Rightarrow>
               if errors_Is e ErrNotFound then (Inr (defaultContent V), w) else (Inl (wrapf e), w)
           | (Inr c, w) \<Rightarrow> (Inr (c\<lparr>c_MaxAge := min (c_MaxAge c) cacheCurrent\<rparr>), w)))"

text \<open>The time to cache a representation of an avatar, and the key it comes from.\<close>

definition served :: "Avatar \<Rightarrow> ThumbnailSize \<Rightarrow> string \<times> duration" where
  "served a sz =
     (if sz = '''' then (S3Key a, cacheReady)
      else case Thumbnail a sz of
             Some k \<Rightarrow> (k, cacheReady)
           | None \<Rightarrow> (S3Key a, if AvProcessingStatus a = ProcessingStatusFailed then cacheReady else cachePending))"

section \<open>Deletion\<close>

definition removeFiles :: "'w Service \<Rightarrow> uuid \<Rightarrow> string list \<Rightarrow> 'w \<Rightarrow> 'w" where
  "removeFiles V i keys w =
     (case st_DeleteMany (svc_storage V) keys w of
        (Some e, w) \<Rightarrow> w
      | (None, w) \<Rightarrow> snd (sr_MarkFilesRemoved (svc_repo V) i w))"

definition remove :: "'w Service \<Rightarrow> Avatar \<Rightarrow> string \<Rightarrow> 'w \<Rightarrow> error option \<times> 'w" where
  "remove V avatar requesterID w =
     (if UserID avatar \<noteq> requesterID then (Some (wrapf (Sentinel ErrForbidden)), w)
      else case sr_SoftDelete (svc_repo V) (ID avatar) w of
             (Some e, w) \<Rightarrow> (Some (wrapf e), w)
           | (None, w) \<Rightarrow>
               (let keys = StorageKeys (svc_us V) avatar;
                    (mid, w) = svc_NewString V w;
                    event = DeleteEvent (NewDeleteEvent (svc_us V) mid (ID avatar) keys)
                in case pub_Publish (svc_publisher V) event w of
                     (Some e, w) \<Rightarrow> (None, removeFiles V (ID avatar) keys w)
                   | (None, w) \<Rightarrow> (None, w)))"

definition Delete :: "'w Service \<Rightarrow> uuid \<Rightarrow> string \<Rightarrow> 'w \<Rightarrow> error option \<times> 'w" where
  "Delete V i requesterID w =
     (let (err, w) =
            (case sr_Get (svc_repo V) i w of
               (Inl e, w) \<Rightarrow> (Some (wrapf e), w)
             | (Inr avatar, w) \<Rightarrow> remove V avatar requesterID w)
      in (err, m_IncDelete (svc_metrics V) (err = None) w))"

definition DeleteCurrent :: "'w Service \<Rightarrow> string \<Rightarrow> string \<Rightarrow> 'w \<Rightarrow> error option \<times> 'w" where
  "DeleteCurrent V userID requesterID w =
     (let (err, w) =
            (case sr_GetCurrent (svc_repo V) userID w of
               (Inl e, w) \<Rightarrow> (Some (wrapf e), w)
             | (Inr avatar, w) \<Rightarrow> remove V avatar requesterID w)
      in (err, m_IncDelete (svc_metrics V) (err = None) w))"

section \<open>Metadata\<close>

definition Metadata :: "'w Service \<Rightarrow> uuid \<Rightarrow> 'w \<Rightarrow> (error + Avatar) \<times> 'w" where
  "Metadata V i w = wrap_res (sr_Get (svc_repo V) i w)"

fun collect :: "(error + Avatar) list \<Rightarrow> Avatar list \<Rightarrow> error + Avatar list" where
  "collect [] avatars = Inr avatars"
| "collect (Inl e # rest) avatars = Inl (wrapf e)"
| "collect (Inr a # rest) avatars = collect rest (avatars @ [a])"

definition ListByUser :: "'w Service \<Rightarrow> string \<Rightarrow> 'w \<Rightarrow> (error + Avatar list) \<times> 'w" where
  "ListByUser V userID w =
     (let (items, w) = sr_ListByUser (svc_repo V) userID w in (collect items [], w))"

section \<open>What the service relies on\<close>

text \<open>An operation leaves an observation of the world alone.\<close>

definition keeps :: "('w \<Rightarrow> 'o) \<Rightarrow> ('w \<Rightarrow> 'r \<times> 'w) \<Rightarrow> bool" where
  "keeps f op = (\<forall>w. f (snd (op w)) = f w)"

lemma keepsD: "keeps f op \<Longrightarrow> op w = (r, w') \<Longrightarrow> f w' = f w"
  unfolding keeps_def by (metis snd_conv)

text \<open>
  The contracts of the three dependencies, and that each of them leaves alone what belongs to
  the others. The table the next statement sees is part of the database's side: what other
  processes do to it is accounted to the next statement.
\<close>

locale service_env =
  repo: service_repo "svc_repo V" tbl fair + store: object_store "svc_storage V" objs
  + pub: event_publisher "svc_publisher V" sent up
  for V :: "'w Service" and tbl :: "'w \<Rightarrow> table" and fair :: "'w \<Rightarrow> bool"
    and objs :: "'w \<Rightarrow> string \<rightharpoonup> blob" and sent :: "'w \<Rightarrow> content list" and up :: "'w \<Rightarrow> bool" +
  assumes Create_keeps: "keeps (\<lambda>w. (objs w, sent w, up w)) (sr_Create (svc_repo V) a)"
    and Get_keeps: "keeps (\<lambda>w. (objs w, sent w, up w)) (sr_Get (svc_repo V) i)"
    and GetCurrent_keeps: "keeps (\<lambda>w. (objs w, sent w, up w)) (sr_GetCurrent (svc_repo V) u)"
    and SetUpload_keeps: "keeps (\<lambda>w. (objs w, sent w, up w)) (sr_SetUploadStatus (svc_repo V) i s)"
    and SoftDelete_keeps: "keeps (\<lambda>w. (objs w, sent w, up w)) (sr_SoftDelete (svc_repo V) i)"
    and Mark_keeps: "keeps (\<lambda>w. (objs w, sent w, up w)) (sr_MarkFilesRemoved (svc_repo V) i)"
    and Put_keeps: "keeps (\<lambda>w. (tbl w, fair w, sent w, up w)) (st_Put (svc_storage V) k d n ct)"
    and GetObj_keeps: "keeps (\<lambda>w. (tbl w, fair w, sent w, up w)) (st_Get (svc_storage V) k)"
    and DeleteMany_keeps: "keeps (\<lambda>w. (tbl w, fair w, sent w, up w)) (st_DeleteMany (svc_storage V) ks)"
    and Publish_keeps: "keeps (\<lambda>w. (tbl w, fair w, objs w)) (pub_Publish (svc_publisher V) ev)"
    and NewUUID_keeps: "keeps (\<lambda>w. (tbl w, fair w, objs w, sent w, up w)) (svc_NewUUID V)"
    and NewString_keeps: "keeps (\<lambda>w. (tbl w, fair w, objs w, sent w, up w)) (svc_NewString V)"
    and ObserveUpload_keeps: "keeps (\<lambda>w. (tbl w, fair w, objs w, sent w, up w))
      (\<lambda>w. ((), m_ObserveUpload (svc_metrics V) b w))"
    and IncDelete_keeps: "keeps (\<lambda>w. (tbl w, fair w, objs w, sent w, up w))
      (\<lambda>w. ((), m_IncDelete (svc_metrics V) b w))"

section \<open>Rows behind the contracts\<close>

lemma row_evolves_uploaded:
  "row_evolves r r' \<Longrightarrow> upload_status r = s \<Longrightarrow> s \<noteq> UploadStatusUploading \<Longrightarrow> upload_status r' = s"
  unfolding row_evolves_def by (metis upload_run_terminal)

lemma created_row:
  assumes "createAvatarQuery a now t = Some (t', new_row now a)" and "db_step\<^sup>*\<^sup>* t' u"
  shows "find_row (n_ID a) t = None \<and> (\<exists>r. find_row (n_ID a) u = Some r \<and> row_evolves (new_row now a) r)"
proof -
  from assms(1) have t': "t' = t @ [new_row now a]" and fresh: "n_ID a \<notin> row_id ` set t"
    by (auto simp: createAvatarQuery_def split: if_splits)
  then have none: "find_row (n_ID a) t = None" by (simp add: find_row_None)
  then have "find_row (n_ID a) t' = Some (new_row now a)" by (simp add: t' find_row_snoc new_row_def)
  then have "\<exists>r. find_row (n_ID a) u = Some r \<and> row_evolves (new_row now a) r"
    using db_steps_rows_evolve [OF assms(2)] by (simp add: rows_evolve_def)
  with none show ?thesis by blast
qed

lemma created_table_ok:
  assumes "table_ok t" and "createAvatarQuery a now t = Some (t', new_row now a)" and "db_step\<^sup>*\<^sup>* t' u"
  shows "table_ok u"
proof -
  have "table_ok (statement_effect (StCreate a) now t)"
    by (rule statement_table_ok [OF assms(1)]) simp
  with assms(2) have "table_ok t'" by simp
  with db_steps_table_ok assms(3) show ?thesis by blast
qed

lemma transition_steps:
  assumes "transition_law tbl i P f w res w'"
    and "\<And>now t. db_step\<^sup>*\<^sup>* t (fst (update_where (\<lambda>r. row_id r = i \<and> live r \<and> P r) (f now) t))"
  shows "db_step\<^sup>*\<^sup>* (tbl w) (tbl w')"
proof (cases res)
  case None
  with assms(1) obtain now where
    "db_step\<^sup>*\<^sup>* (fst (update_where (\<lambda>r. row_id r = i \<and> live r \<and> P r) (f now) (tbl w))) (tbl w')"
    by (auto simp: transition_law_def simp del: update_where_fst)
  with assms(2) show ?thesis by (rule rtranclp_trans)
next
  case (Some e)
  with assms(1) show ?thesis by (simp add: transition_law_def)
qed

text \<open>A transition that reports success took the one live row from a permitted status.\<close>

lemma transition_row:
  assumes law: "transition_law tbl i P f w None w'" and ok: "table_ok (tbl w)"
    and id: "\<And>now r. row_id (f now r) = row_id r"
  shows "\<exists>now r r'. find_row i (tbl w) = Some r \<and> live r \<and> P r
    \<and> find_row i (tbl w') = Some r' \<and> row_evolves (f now r) r'"
proof -
  let ?Q = "\<lambda>r. row_id r = i \<and> live r \<and> P r"
  from law obtain now where some: "filter ?Q (tbl w) \<noteq> []"
    and steps: "db_step\<^sup>*\<^sup>* (fst (update_where ?Q (f now) (tbl w))) (tbl w')"
    by (auto simp: transition_law_def simp del: update_where_fst)
  from some obtain r where r: "r \<in> set (tbl w)" "?Q r" by (auto simp: filter_empty_conv)
  then have fr: "find_row i (tbl w) = Some r"
    using find_row_member ok unfolding table_ok_def by blast
  have "find_row i (fst (update_where ?Q (f now) (tbl w)))
      = map_option (\<lambda>r. if ?Q r then f now r else r) (find_row i (tbl w))"
    unfolding update_where_fst by (rule find_row_map) (simp add: id)
  with fr r(2) have "find_row i (fst (update_where ?Q (f now) (tbl w))) = Some (f now r)" by simp
  then obtain r' where "find_row i (tbl w') = Some r'" "row_evolves (f now r) r'"
    using db_steps_rows_evolve [OF steps] unfolding rows_evolve_def by blast
  with fr r(2) show ?thesis by blast
qed

section \<open>Upload\<close>

context service_env
begin

lemmas frames =
  Create_keeps [THEN keepsD] Get_keeps [THEN keepsD] GetCurrent_keeps [THEN keepsD]
  SetUpload_keeps [THEN keepsD] SoftDelete_keeps [THEN keepsD] Mark_keeps [THEN keepsD]
  Put_keeps [THEN keepsD] GetObj_keeps [THEN keepsD] DeleteMany_keeps [THEN keepsD]
  Publish_keeps [THEN keepsD] NewUUID_keeps [THEN keepsD] NewString_keeps [THEN keepsD]

lemma ObserveUpload_frame:
  "tbl (m_ObserveUpload (svc_metrics V) b w) = tbl w" "fair (m_ObserveUpload (svc_metrics V) b w) = fair w"
  "objs (m_ObserveUpload (svc_metrics V) b w) = objs w" "sent (m_ObserveUpload (svc_metrics V) b w) = sent w"
  "up (m_ObserveUpload (svc_metrics V) b w) = up w"
  using ObserveUpload_keeps by (simp_all add: keeps_def)

lemma IncDelete_frame:
  "tbl (m_IncDelete (svc_metrics V) b w) = tbl w" "fair (m_IncDelete (svc_metrics V) b w) = fair w"
  "objs (m_IncDelete (svc_metrics V) b w) = objs w" "sent (m_IncDelete (svc_metrics V) b w) = sent w"
  "up (m_IncDelete (svc_metrics V) b w) = up w"
  using IncDelete_keeps by (simp_all add: keeps_def)

text \<open>A failed upload is marked, or is left for the reconciler; files and events stay.\<close>

lemma markFailed_spec:
  assumes "fair w"
  shows "fair (markFailed V i w) \<and> objs (markFailed V i w) = objs w \<and> sent (markFailed V i w) = sent w
    \<and> up (markFailed V i w) = up w \<and> db_step\<^sup>*\<^sup>* (tbl w) (tbl (markFailed V i w))"
proof -
  obtain r w' where m: "sr_SetUploadStatus (svc_repo V) i UploadStatusFailed w = (r, w')" by fastforce
  have "db_step\<^sup>*\<^sup>* (tbl w) (tbl w')"
    by (rule transition_steps [OF repo.SetUpload_law [OF assms m] set_upload_step])
  with m frames(4) [OF m] repo.SetUpload_fair [OF assms m] show ?thesis by (simp add: markFailed_def)
qed

text \<open>
  Storing the original for a record that exists: only the key of the record is written, at
  most the one event is sent, and on success the bytes are stored and the row is uploaded.
\<close>

lemma store_original_spec:
  assumes fair: "fair w" and up: "up w" and tok: "table_ok (tbl w)"
    and run: "store_original V inp file info i avatar w = (res, w')"
  defines "key \<equiv> OriginalKey (svc_us V) i"
  shows "fair w' \<and> up w' \<and> db_step\<^sup>*\<^sup>* (tbl w) (tbl w')"
    and "k \<noteq> key \<Longrightarrow> objs w' k = objs w k"
    and "res = Inl e \<Longrightarrow> sent w' = sent w"
    and "res = Inr av \<Longrightarrow> av = avatar\<lparr>AvUploadStatus := UploadStatusUploaded\<rparr>
      \<and> (\<exists>mid. sent w' = sent w
           \<or> sent w' = sent w @ [wire (UploadEvent (NewUploadEvent (svc_us V) mid i (u_UserID inp) key))])
      \<and> (\<exists>r. find_row i (tbl w') = Some r \<and> upload_status r = UploadStatusUploaded)"
    and "res = Inr av \<Longrightarrow> u_Size inp = int (length (fst (remaining file))) \<Longrightarrow> i_MimeType info \<noteq> '''' \<Longrightarrow>
      \<exists>et. objs w' key = Some \<lparr>bl_data = fst (remaining file), bl_type = i_MimeType info, bl_etag = et\<rparr>"
proof -
  let ?d = "fst (remaining file)"
  obtain e1 w1 where put: "st_Put (svc_storage V) key ?d (u_Size inp) (i_MimeType info) w = (e1, w1)"
    by fastforce
  from frames(7) [OF put] have f1: "tbl w1 = tbl w" "fair w1" "sent w1 = sent w" "up w1"
    using fair up by auto
  have o1: "k \<noteq> key \<Longrightarrow> objs w1 k = objs w k" for k by (rule store.Put_frame [OF put])
  have all: "fair w' \<and> up w' \<and> db_step\<^sup>*\<^sup>* (tbl w) (tbl w') \<and> objs w' = objs w1
    \<and> (\<forall>e. res = Inl e \<longrightarrow> sent w' = sent w)
    \<and> (\<forall>av. res = Inr av \<longrightarrow> e1 = None \<and> av = avatar\<lparr>AvUploadStatus := UploadStatusUploaded\<rparr>
      \<and> (\<exists>mid. sent w' = sent w
           \<or> sent w' = sent w @ [wire (UploadEvent (NewUploadEvent (svc_us V) mid i (u_UserID inp) key))])
      \<and> (\<exists>r. find_row i (tbl w') = Some r \<and> upload_status r = UploadStatusUploaded))"
  proof (cases e1)
    case (Some e)
    with run put have "res = Inl (wrapf e)" "w' = markFailed V i w1"
      by (auto simp: store_original_def key_def Let_def)
    with markFailed_spec [OF f1(2)] f1 show ?thesis by simp
  next
    case None
    obtain e2 w2 where set: "sr_SetUploadStatus (svc_repo V) i UploadStatusUploaded w1 = (e2, w2)"
      by fastforce
    note law = repo.SetUpload_law [OF f1(2) set]
    from frames(4) [OF set] repo.SetUpload_fair [OF f1(2) set] f1
    have f2: "objs w2 = objs w1" "sent w2 = sent w" "up w2" "fair w2" by auto
    have s2: "db_step\<^sup>*\<^sup>* (tbl w) (tbl w2)"
      using transition_steps [OF law set_upload_step] f1 by simp
    show ?thesis
    proof (cases e2)
      case (Some e)
      with run put None set have "res = Inl (wrapf e)" "w' = markFailed V i w2"
        by (auto simp: store_original_def key_def Let_def)
      with markFailed_spec [OF f2(4), of i] f2 s2 show ?thesis by (auto intro: rtranclp_trans)
    next
      case e2: None
      obtain mid w3 where mid: "svc_NewString V w2 = (mid, w3)" by fastforce
      let ?ev = "UploadEvent (NewUploadEvent (svc_us V) mid i (u_UserID inp) key)"
      obtain pe w4 where pub: "pub_Publish (svc_publisher V) ?ev w3 = (pe, w4)" by fastforce
      have res: "res = Inr (avatar\<lparr>AvUploadStatus := UploadStatusUploaded\<rparr>)" "w' = w4"
        using run put None set e2 mid pub by (auto simp: store_original_def key_def Let_def)
      from frames(12) [OF mid] f2 have f3: "tbl w3 = tbl w2" "fair w3" "objs w3 = objs w1"
        "sent w3 = sent w" "up w3" by auto
      from frames(10) [OF pub] f3 have f4: "tbl w4 = tbl w2" "fair w4" "objs w4 = objs w1" by auto
      have up4: "up w4" by (rule pub.Publish_up [OF f3(5) pub])
      have sent4: "sent w4 = sent w \<or> sent w4 = sent w @ [wire ?ev]"
      proof (cases pe)
        case None
        with pub.Publish_ok [OF f3(5), of ?ev w4] pub f3(4) show ?thesis by simp
      next
        case (Some x)
        with pub.Publish_err [OF f3(5), of ?ev x w4] pub f3(4) show ?thesis by simp
      qed
      have tok1: "table_ok (tbl w1)" using tok f1(1) by simp
      from transition_row [OF law [unfolded e2] tok1]
      obtain now r r' where "find_row i (tbl w2) = Some r'" "row_evolves (set_upload UploadStatusUploaded now r) r'"
        by (auto simp: set_upload_def)
      then have "find_row i (tbl w2) = Some r' \<and> upload_status r' = UploadStatusUploaded"
        using row_evolves_uploaded [of "set_upload UploadStatusUploaded now r" r'] by (simp add: set_upload_def)
      with res f4 up4 sent4 s2 None show ?thesis by auto
    qed
  qed
  then show "fair w' \<and> up w' \<and> db_step\<^sup>*\<^sup>* (tbl w) (tbl w')" by blast
  show "objs w' k = objs w k" if "k \<noteq> key" using all o1 [OF that] by simp
  show "sent w' = sent w" if "res = Inl e" using all that by blast
  show "av = avatar\<lparr>AvUploadStatus := UploadStatusUploaded\<rparr>
      \<and> (\<exists>mid. sent w' = sent w
           \<or> sent w' = sent w @ [wire (UploadEvent (NewUploadEvent (svc_us V) mid i (u_UserID inp) key))])
      \<and> (\<exists>r. find_row i (tbl w') = Some r \<and> upload_status r = UploadStatusUploaded)" if "res = Inr av"
    using all that by blast
  show "\<exists>et. objs w' key = Some \<lparr>bl_data = ?d, bl_type = i_MimeType info, bl_etag = et\<rparr>"
    if "res = Inr av" "u_Size inp = int (length ?d)" "i_MimeType info \<noteq> ''''"
    using store.Put_ok [of key ?d "u_Size inp" "i_MimeType info" w w1] put all that by auto
qed

text \<open>What an upload does, whatever its outcome: nothing is stored without a row to find it by.\<close>

lemma Upload_any:
  assumes fair: "fair w" and up: "up w" and tok: "table_ok (tbl w)"
    and run: "Upload V inp w = (res, w')"
  shows "fair w' \<and> up w' \<and> db_step\<^sup>*\<^sup>* (tbl w) (tbl w')"
    and "res = Inl e \<Longrightarrow> sent w' = sent w"
    and "objs w' k \<noteq> objs w k \<Longrightarrow> \<exists>i r. k = OriginalKey (svc_us V) i \<and> find_row i (tbl w) = None
      \<and> find_row i (tbl w') = Some r \<and> s3_key r = k \<and> user_id r = u_UserID inp"
proof -
  obtain w1 where body: "upload_body V inp w = (res, w1)"
    and w': "w' = m_ObserveUpload (svc_metrics V) (is_ok res) w1"
    using run by (auto simp: Upload_def Let_def split: prod.splits)
  have all: "fair w1 \<and> up w1 \<and> db_step\<^sup>*\<^sup>* (tbl w) (tbl w1) \<and> (\<forall>e. res = Inl e \<longrightarrow> sent w1 = sent w)
    \<and> (\<forall>k. objs w1 k \<noteq> objs w k \<longrightarrow> (\<exists>i r. k = OriginalKey (svc_us V) i \<and> find_row i (tbl w) = None
      \<and> find_row i (tbl w1) = Some r \<and> s3_key r = k \<and> user_id r = u_UserID inp))"
  proof (cases "svc_validator V (u_File inp)")
    case (Pair vr fl)
    show ?thesis
    proof (cases vr)
      case (Inl e)
      with Pair body fair up show ?thesis by (auto simp: upload_body_def)
    next
      case (Inr info)
      obtain i w2 where nid: "svc_NewUUID V w = (i, w2)" by fastforce
      from frames(11) [OF nid] fair up have f2: "tbl w2 = tbl w" "fair w2" "objs w2 = objs w"
        "sent w2 = sent w" "up w2" by auto
      let ?a = "new_avatar V inp info i"
      obtain cr w3 where cre: "sr_Create (svc_repo V) ?a w2 = (cr, w3)" by fastforce
      from frames(1) [OF cre] f2 have f3: "objs w3 = objs w" "sent w3 = sent w" "up w3" by auto
      have fair3: "fair w3" by (rule repo.Create_fair [OF f2(2) cre])
      show ?thesis
      proof (cases cr)
        case (Inl e)
        have "db_step\<^sup>*\<^sup>* (tbl w) (tbl w3)" using repo.Create_err [OF f2(2)] cre Inl f2(1) by simp
        with Pair Inr Inl nid cre body f3 fair3 show ?thesis by (auto simp: upload_body_def)
      next
        case av: (Inr av)
        from repo.Create_ok [OF f2(2) cre [unfolded av]] f2(1) obtain now t
          where q: "createAvatarQuery ?a now (tbl w) = Some (t, new_row now ?a)"
            and st: "db_step\<^sup>*\<^sup>* t (tbl w3)" by auto
        have tok3: "table_ok (tbl w3)" by (rule created_table_ok [OF tok q st])
        have so: "store_original V inp fl info i av w3 = (res, w1)"
          using Pair Inr av nid cre body by (auto simp: upload_body_def)
        note S = store_original_spec [OF fair3 f3(3) tok3 so]
        have "db_step\<^sup>*\<^sup>* (tbl w) t"
          using statement_step [of "StCreate ?a" "tbl w" now] q by simp
        then have steps: "db_step\<^sup>*\<^sup>* (tbl w) (tbl w1)" using st S(1) by (meson rtranclp_trans)
        have st1: "db_step\<^sup>*\<^sup>* t (tbl w1)" using st S(1) by (meson rtranclp_trans)
        from created_row [OF q st1] obtain r where r: "find_row i (tbl w) = None"
          "find_row i (tbl w1) = Some r" "row_evolves (new_row now ?a) r" by (auto simp: new_avatar_def)
        then have "s3_key r = OriginalKey (svc_us V) i" "user_id r = u_UserID inp"
          by (auto simp: row_evolves_def new_row_def new_avatar_def)
        with S steps f3 r show ?thesis by metis
      qed
    qed
  qed
  then show "fair w' \<and> up w' \<and> db_step\<^sup>*\<^sup>* (tbl w) (tbl w')" by (simp add: w' ObserveUpload_frame)
  show "sent w' = sent w" if "res = Inl e" using all that by (simp add: w' ObserveUpload_frame)
  show "\<exists>i r. k = OriginalKey (svc_us V) i \<and> find_row i (tbl w) = None
      \<and> find_row i (tbl w') = Some r \<and> s3_key r = k \<and> user_id r = u_UserID inp" if "objs w' k \<noteq> objs w k"
    using all that by (simp add: w' ObserveUpload_frame)
qed

lemma Upload_ok:
  assumes fair: "fair w" and up: "up w" and tok: "table_ok (tbl w)"
    and run: "Upload V inp w = (Inr av, w')"
    and val: "svc_validator V (u_File inp) = (Inr info, file)" "i_MimeType info \<noteq> ''''"
    and sz: "u_Size inp = int (length (fst (remaining file)))"
  shows "UserID av = u_UserID inp \<and> AvUploadStatus av = UploadStatusUploaded
    \<and> S3Key av = OriginalKey (svc_us V) (ID av) \<and> MimeType av = i_MimeType info
    \<and> Width av = i_Width info \<and> Height av = i_Height info \<and> SizeBytes av = u_Size inp
    \<and> find_row (ID av) (tbl w) = None
    \<and> (\<exists>r. find_row (ID av) (tbl w') = Some r \<and> upload_status r = UploadStatusUploaded
         \<and> s3_key r = S3Key av \<and> user_id r = u_UserID inp)
    \<and> (\<exists>et. objs w' = (objs w)(S3Key av \<mapsto>
          \<lparr>bl_data = fst (remaining file), bl_type = i_MimeType info, bl_etag = et\<rparr>))
    \<and> (\<exists>mid. sent w' = sent w \<or> sent w' = sent w @
          [wire (UploadEvent (NewUploadEvent (svc_us V) mid (ID av) (UserID av) (S3Key av)))])"
proof -
  obtain w1 where body: "upload_body V inp w = (Inr av, w1)"
    and w': "w' = m_ObserveUpload (svc_metrics V) True w1"
    using run by (auto simp: Upload_def Let_def split: prod.splits)
  obtain i w2 where nid: "svc_NewUUID V w = (i, w2)" by fastforce
  from frames(11) [OF nid] fair up have f2: "tbl w2 = tbl w" "fair w2" "objs w2 = objs w"
    "sent w2 = sent w" "up w2" by auto
  let ?a = "new_avatar V inp info i"
  from body val nid obtain av0 w3 where cre: "sr_Create (svc_repo V) ?a w2 = (Inr av0, w3)"
    and so: "store_original V inp file info i av0 w3 = (Inr av, w1)"
    by (auto simp: upload_body_def split: prod.splits sum.splits)
  from frames(1) [OF cre] f2 have f3: "objs w3 = objs w" "sent w3 = sent w" "up w3" by auto
  have fair3: "fair w3" by (rule repo.Create_fair [OF f2(2) cre])
  from repo.Create_ok [OF f2(2) cre] f2(1) obtain now t
    where q: "createAvatarQuery ?a now (tbl w) = Some (t, new_row now ?a)"
      and av0: "av0 = scanAvatar (new_row now ?a)" and st: "db_step\<^sup>*\<^sup>* t (tbl w3)" by auto
  note S = store_original_spec [OF fair3 f3(3) created_table_ok [OF tok q st] so]
  have av: "av = av0\<lparr>AvUploadStatus := UploadStatusUploaded\<rparr>" using S(4) by blast
  have fields: "ID av = i" "UserID av = u_UserID inp" "S3Key av = OriginalKey (svc_us V) i"
    "MimeType av = i_MimeType info" "Width av = i_Width info" "Height av = i_Height info"
    "SizeBytes av = u_Size inp" "AvUploadStatus av = UploadStatusUploaded"
    by (simp_all add: av av0 scanAvatar_def new_row_def new_avatar_def)
  have "db_step\<^sup>*\<^sup>* t (tbl w1)" using st S(1) by (meson rtranclp_trans)
  from created_row [OF q this] obtain r where fresh: "find_row i (tbl w) = None"
    and r: "find_row i (tbl w1) = Some r" "row_evolves (new_row now ?a) r" by (auto simp: new_avatar_def)
  have row: "s3_key r = OriginalKey (svc_us V) i" "user_id r = u_UserID inp"
    using r(2) by (simp_all add: row_evolves_def new_row_def new_avatar_def)
  from S(5) [OF refl sz val(2)] obtain et where
    "objs w1 (OriginalKey (svc_us V) i) =
       Some \<lparr>bl_data = fst (remaining file), bl_type = i_MimeType info, bl_etag = et\<rparr>" by blast
  with S(2) f3(1) have "objs w1 = (objs w)(OriginalKey (svc_us V) i \<mapsto>
      \<lparr>bl_data = fst (remaining file), bl_type = i_MimeType info, bl_etag = et\<rparr>)" by (auto simp: fun_eq_iff)
  with fields fresh S(4) f3(2) r(1) row show ?thesis by (auto simp: w' ObserveUpload_frame)
qed

section \<open>Content\<close>

lemma content_of_spec:
  assumes run: "content_of V a sz w = (res, w')"
  shows "objs w' = objs w \<and> tbl w' = tbl w \<and> sent w' = sent w \<and> fair w' = fair w \<and> up w' = up w"
    and "res = Inr c \<Longrightarrow> \<exists>b. objs w (fst (served a sz)) = Some b \<and> c_MaxAge c = snd (served a sz)
      \<and> c_ContentType c = bl_type b \<and> c_ETag c = bl_etag b \<and> c_Size c = int (length (bl_data b))
      \<and> \<not> c_IsDefault c \<and> (c_BodyErr c = None \<longrightarrow> c_Body c = bl_data b)"
    and "res = Inl e \<Longrightarrow> errors_Is e ErrNotFound \<Longrightarrow> objs w (fst (served a sz)) = None"
    and "res = Inl e \<Longrightarrow> errors_Is e sn \<Longrightarrow>
      sn \<in> {ErrNotFound, ErrUnavailable, ErrCanceled, ErrDeadlineExceeded}"
proof -
  obtain g where get: "st_Get (svc_storage V) (fst (served a sz)) w = (g, w')"
    and res: "res = (case g of Inl e \<Rightarrow> Inl e | Inr object \<Rightarrow>
      Inr \<lparr>c_Body = Body object, c_BodyErr = BodyErr object, c_ContentType = ContentType object,
           c_ETag = ETag object, c_Size = Size object, c_MaxAge = snd (served a sz), c_IsDefault = False\<rparr>)"
    using run by (auto simp: content_of_def served_def Let_def split: prod.splits sum.splits option.splits if_splits)
  show "objs w' = objs w \<and> tbl w' = tbl w \<and> sent w' = sent w \<and> fair w' = fair w \<and> up w' = up w"
    using frames(8) [OF get] store.Get_objs [OF get] by simp
  show "\<exists>b. objs w (fst (served a sz)) = Some b \<and> c_MaxAge c = snd (served a sz)
      \<and> c_ContentType c = bl_type b \<and> c_ETag c = bl_etag b \<and> c_Size c = int (length (bl_data b))
      \<and> \<not> c_IsDefault c \<and> (c_BodyErr c = None \<longrightarrow> c_Body c = bl_data b)" if "res = Inr c"
    using that res store.Get_ok [of "fst (served a sz)" w] get by (cases g) auto
  show "objs w (fst (served a sz)) = None" if "res = Inl e" "errors_Is e ErrNotFound"
    using that res store.Get_err [of "fst (served a sz)" w] get by (cases g) auto
  show "sn \<in> {ErrNotFound, ErrUnavailable, ErrCanceled, ErrDeadlineExceeded}"
    if "res = Inl e" "errors_Is e sn"
    using that res store.Get_err_sentinel [of "fst (served a sz)" w] get by (cases g) auto
qed

text \<open>
  A user's picture: the newest uploaded avatar, or the placeholder when there is none or its
  object is gone; never cached longer than \<open>cacheCurrent\<close>, never \<open>ErrNotFound\<close>.
\<close>

lemma UserAvatarContent_spec:
  assumes fair: "fair w" and run: "UserAvatarContent V u sz w = (res, w')"
  shows "res = Inr c \<Longrightarrow> c_MaxAge c \<le> cacheCurrent
      \<and> (c_IsDefault c \<longrightarrow> c = defaultContent V)
      \<and> (\<not> c_IsDefault c \<longrightarrow> (\<exists>r\<in>set (user_rows u UploadStatusUploaded (tbl w)).
           (\<forall>r'\<in>set (user_rows u UploadStatusUploaded (tbl w)). created_at r' \<le> created_at r)
           \<and> (\<exists>b. objs w (fst (served (scanAvatar r) sz)) = Some b
                \<and> (c_BodyErr c = None \<longrightarrow> c_Body c = bl_data b))))"
    and "res = Inl e \<Longrightarrow> \<not> errors_Is e ErrNotFound"
proof -
  obtain g w1 where cur: "sr_GetCurrent (svc_repo V) u w = (g, w1)" by fastforce
  from frames(3) [OF cur] have f1: "objs w1 = objs w" by simp
  have "(\<forall>c. res = Inr c \<longrightarrow> c_MaxAge c \<le> cacheCurrent
      \<and> (c_IsDefault c \<longrightarrow> c = defaultContent V)
      \<and> (\<not> c_IsDefault c \<longrightarrow> (\<exists>r\<in>set (user_rows u UploadStatusUploaded (tbl w)).
           (\<forall>r'\<in>set (user_rows u UploadStatusUploaded (tbl w)). created_at r' \<le> created_at r)
           \<and> (\<exists>b. objs w (fst (served (scanAvatar r) sz)) = Some b
                \<and> (c_BodyErr c = None \<longrightarrow> c_Body c = bl_data b)))))
    \<and> (\<forall>e. res = Inl e \<longrightarrow> \<not> errors_Is e ErrNotFound)"
  proof (cases g)
    case (Inl e)
    with run cur show ?thesis
      by (auto simp: UserAvatarContent_def defaultContent_def cachePlaceholder_def cacheCurrent_def
          split: if_splits)
  next
    case (Inr a)
    from repo.GetCurrent_ok [OF fair cur [unfolded Inr]] obtain r
      where r: "r \<in> set (user_rows u UploadStatusUploaded (tbl w))" "a = scanAvatar r"
        "\<forall>r'\<in>set (user_rows u UploadStatusUploaded (tbl w)). created_at r' \<le> created_at r" by blast
    obtain cr w2 where co: "content_of V a sz w1 = (cr, w2)" by fastforce
    note C = content_of_spec [OF co]
    show ?thesis
    proof (cases cr)
      case (Inl e)
      with run cur Inr co show ?thesis
        by (auto simp: UserAvatarContent_def defaultContent_def cachePlaceholder_def cacheCurrent_def
            split: if_splits)
    next
      case c: (Inr c0)
      with run cur Inr co have res: "res = Inr (c0\<lparr>c_MaxAge := min (c_MaxAge c0) cacheCurrent\<rparr>)"
        by (auto simp: UserAvatarContent_def)
      from C(2) [OF c] f1 r show ?thesis unfolding res by auto
    qed
  qed
  then show "res = Inr c \<Longrightarrow> c_MaxAge c \<le> cacheCurrent
      \<and> (c_IsDefault c \<longrightarrow> c = defaultContent V)
      \<and> (\<not> c_IsDefault c \<longrightarrow> (\<exists>r\<in>set (user_rows u UploadStatusUploaded (tbl w)).
           (\<forall>r'\<in>set (user_rows u UploadStatusUploaded (tbl w)). created_at r' \<le> created_at r)
           \<and> (\<exists>b. objs w (fst (served (scanAvatar r) sz)) = Some b
                \<and> (c_BodyErr c = None \<longrightarrow> c_Body c = bl_data b))))"
    and "res = Inl e \<Longrightarrow> \<not> errors_Is e ErrNotFound" by blast+
qed

section \<open>Deletion\<close>

lemma deleted_stays:
  assumes "find_row i t = Some r" and "deleted_at r \<noteq> None" and "db_step\<^sup>*\<^sup>* t t'"
  shows "\<exists>r'. find_row i t' = Some r' \<and> deleted_at r' \<noteq> None"
proof -
  from db_steps_rows_evolve [OF assms(3)] assms(1) obtain r' where "find_row i t' = Some r'"
    and "row_evolves r r'" unfolding rows_evolve_def by blast
  with assms(2) show ?thesis by (auto simp: row_evolves_def)
qed

text \<open>
  The direct removal of files: only the given keys go, and the row is marked only when every
  one of them is gone.
\<close>

lemma removeFiles_spec:
  assumes fair: "fair w" and run: "removeFiles V i keys w = w'"
  shows "fair w' \<and> sent w' = sent w \<and> up w' = up w \<and> db_step\<^sup>*\<^sup>* (tbl w) (tbl w')"
    and "objs w' k \<noteq> objs w k \<Longrightarrow> k \<in> set keys \<and> objs w' k = None"
    and "tbl w' \<noteq> tbl w \<Longrightarrow> k \<in> set keys \<Longrightarrow> objs w' k = None"
proof -
  obtain e w1 where del: "st_DeleteMany (svc_storage V) keys w = (e, w1)" by fastforce
  from frames(9) [OF del] fair have f1: "tbl w1 = tbl w" "fair w1" "sent w1 = sent w" "up w1 = up w" by auto
  obtain m w2 where mark: "sr_MarkFilesRemoved (svc_repo V) i w1 = (m, w2)" by fastforce
  from frames(6) [OF mark] have f2: "objs w2 = objs w1" "sent w2 = sent w1" "up w2 = up w1" by auto
  have w': "w' = (case e of Some _ \<Rightarrow> w1 | None \<Rightarrow> w2)"
    using del mark by (simp add: run [symmetric] removeFiles_def split: option.splits)
  show "fair w' \<and> sent w' = sent w \<and> up w' = up w \<and> db_step\<^sup>*\<^sup>* (tbl w) (tbl w')"
    using f1 f2 repo.Mark_fair [OF f1(2) mark] repo.Mark_steps [OF f1(2) mark]
    by (simp add: w' split: option.splits)
  have o: "objs w' = objs w1" using f2 by (simp add: w' split: option.splits)
  show "k \<in> set keys \<and> objs w' k = None" if "objs w' k \<noteq> objs w k"
    using that store.Delete_frame [OF del, of k] store.Delete_shrinks [OF del, of k] unfolding o by auto
  show "objs w' k = None" if "tbl w' \<noteq> tbl w" "k \<in> set keys"
  proof (cases e)
    case None
    with store.Delete_ok [of keys w w1 k] del that(2) show ?thesis unfolding o by simp
  next
    case (Some x)
    with that(1) w' f1 show ?thesis by simp
  qed
qed

lemma remove_spec:
  assumes fair: "fair w" and up: "up w" and run: "remove V a req w = (res, w')"
  shows "UserID a \<noteq> req \<Longrightarrow> res = Some (wrapf (Sentinel ErrForbidden)) \<and> w' = w"
    and "UserID a = req \<Longrightarrow> res = Some e \<Longrightarrow> objs w' = objs w \<and> sent w' = sent w
      \<and> (\<forall>sn. errors_Is e sn \<longrightarrow> sn \<in> {ErrNotFound, ErrCanceled, ErrDeadlineExceeded})"
    and "UserID a = req \<Longrightarrow> res = None \<Longrightarrow>
      (\<exists>r. find_row (ID a) (tbl w') = Some r \<and> deleted_at r \<noteq> None)
      \<and> (\<exists>mid. sent w' = sent w \<or> sent w' = sent w @
            [wire (DeleteEvent (NewDeleteEvent (svc_us V) mid (ID a) (StorageKeys (svc_us V) a)))])
      \<and> (\<forall>k. objs w' k \<noteq> objs w k \<longrightarrow> k \<in> set (StorageKeys (svc_us V) a) \<and> objs w' k = None)"
proof -
  show "res = Some (wrapf (Sentinel ErrForbidden)) \<and> w' = w" if "UserID a \<noteq> req"
    using run that by (simp add: remove_def)
  obtain sd w1 where soft: "sr_SoftDelete (svc_repo V) (ID a) w = (sd, w1)" by fastforce
  from frames(5) [OF soft] up have f1: "objs w1 = objs w" "sent w1 = sent w" "up w1" by auto
  have fair1: "fair w1" by (rule repo.SoftDelete_fair [OF fair soft])
  show "objs w' = objs w \<and> sent w' = sent w
      \<and> (\<forall>sn. errors_Is e sn \<longrightarrow> sn \<in> {ErrNotFound, ErrCanceled, ErrDeadlineExceeded})"
    if "UserID a = req" "res = Some e"
  proof -
    from that run soft obtain x where "sd = Some x" "e = wrapf x" "w' = w1"
      by (auto simp: remove_def Let_def split: option.splits prod.splits)
    with f1 repo.SoftDelete_err [OF fair soft [unfolded \<open>sd = Some x\<close>]] show ?thesis by auto
  qed
  show "(\<exists>r. find_row (ID a) (tbl w') = Some r \<and> deleted_at r \<noteq> None)
      \<and> (\<exists>mid. sent w' = sent w \<or> sent w' = sent w @
            [wire (DeleteEvent (NewDeleteEvent (svc_us V) mid (ID a) (StorageKeys (svc_us V) a)))])
      \<and> (\<forall>k. objs w' k \<noteq> objs w k \<longrightarrow> k \<in> set (StorageKeys (svc_us V) a) \<and> objs w' k = None)"
    if "UserID a = req" "res = None"
  proof -
    let ?keys = "StorageKeys (svc_us V) a"
    from that run soft have sd: "sd = None" by (auto simp: remove_def split: option.splits)
    from repo.SoftDelete_ok [OF fair soft [unfolded sd]] obtain r
      where r: "find_row (ID a) (tbl w1) = Some r" "deleted_at r \<noteq> None" by blast
    obtain mid w2 where mid: "svc_NewString V w1 = (mid, w2)" by fastforce
    from frames(12) [OF mid] f1 fair1 have f2: "tbl w2 = tbl w1" "fair w2" "objs w2 = objs w"
      "sent w2 = sent w" "up w2" by auto
    let ?ev = "DeleteEvent (NewDeleteEvent (svc_us V) mid (ID a) ?keys)"
    obtain pe w3 where pub: "pub_Publish (svc_publisher V) ?ev w2 = (pe, w3)" by fastforce
    from frames(10) [OF pub] f2 have f3: "tbl w3 = tbl w1" "fair w3" "objs w3 = objs w" by auto
    show ?thesis
    proof (cases pe)
      case None
      then have "w' = w3" using run that soft sd mid pub by (auto simp: remove_def Let_def)
      with pub.Publish_ok [OF f2(5), of ?ev w3] pub None f2(4) f3 r show ?thesis by auto
    next
      case (Some x)
      then have w': "w' = removeFiles V (ID a) ?keys w3"
        using run that soft sd mid pub by (auto simp: remove_def Let_def)
      note R = removeFiles_spec [OF f3(2) refl, of "ID a" ?keys]
      have "\<exists>r. find_row (ID a) (tbl w') = Some r \<and> deleted_at r \<noteq> None"
        using deleted_stays [of "ID a" "tbl w1" r "tbl w'"] r R(1) f3(1) by (simp add: w')
      moreover have "sent w3 = sent w \<or> sent w3 = sent w @ [wire ?ev]"
        using pub.Publish_err [OF f2(5), of ?ev x w3] pub Some f2(4) by simp
      ultimately show ?thesis using R(1,2) f3(3) unfolding w' by auto
    qed
  qed
qed

lemma Delete_spec:
  assumes fair: "fair w" and up: "up w" and run: "Delete V i req w = (res, w')"
  shows "res = None \<Longrightarrow> \<exists>r. live_row i (tbl w) = Some r \<and> user_id r = req
      \<and> (\<exists>r'. find_row i (tbl w') = Some r' \<and> deleted_at r' \<noteq> None)
      \<and> (\<exists>mid. sent w' = sent w \<or> sent w' = sent w @ [wire (DeleteEvent
            (NewDeleteEvent (svc_us V) mid i (StorageKeys (svc_us V) (scanAvatar r))))])
      \<and> (\<forall>k. objs w' k \<noteq> objs w k \<longrightarrow>
            k \<in> set (StorageKeys (svc_us V) (scanAvatar r)) \<and> objs w' k = None)"
    and "res = Some e \<Longrightarrow> objs w' = objs w \<and> sent w' = sent w"
    and "res = Some e \<Longrightarrow> errors_Is e ErrForbidden \<Longrightarrow>
      \<exists>r. live_row i (tbl w) = Some r \<and> user_id r \<noteq> req"
proof -
  obtain g w1 where get: "sr_Get (svc_repo V) i w = (g, w1)" by fastforce
  from frames(2) [OF get] up have f1: "objs w1 = objs w" "sent w1 = sent w" "up w1" by auto
  have fair1: "fair w1" by (rule repo.Get_fair [OF fair get])
  have "(res = None \<longrightarrow> (\<exists>r. live_row i (tbl w) = Some r \<and> user_id r = req
      \<and> (\<exists>r'. find_row i (tbl w') = Some r' \<and> deleted_at r' \<noteq> None)
      \<and> (\<exists>mid. sent w' = sent w \<or> sent w' = sent w @ [wire (DeleteEvent
            (NewDeleteEvent (svc_us V) mid i (StorageKeys (svc_us V) (scanAvatar r))))])
      \<and> (\<forall>k. objs w' k \<noteq> objs w k \<longrightarrow>
            k \<in> set (StorageKeys (svc_us V) (scanAvatar r)) \<and> objs w' k = None)))
    \<and> (\<forall>e. res = Some e \<longrightarrow> objs w' = objs w \<and> sent w' = sent w
        \<and> (errors_Is e ErrForbidden \<longrightarrow> (\<exists>r. live_row i (tbl w) = Some r \<and> user_id r \<noteq> req)))"
  proof (cases g)
    case (Inl x)
    with run get f1 repo.Get_err [OF fair, of i x w1 ErrForbidden] show ?thesis
      by (auto simp: Delete_def IncDelete_frame)
  next
    case (Inr a)
    from repo.Get_ok [OF fair get [unfolded Inr]] obtain r
      where r: "live_row i (tbl w) = Some r" and a: "a = scanAvatar r" by blast
    have ids: "ID a = i" "UserID a = user_id r"
      using live_row_Some [OF r] by (simp_all add: a scanAvatar_def)
    obtain w2 where rm: "remove V a req w1 = (res, w2)"
      and w': "w' = m_IncDelete (svc_metrics V) (res = None) w2"
      using run get Inr by (auto simp: Delete_def Let_def split: prod.splits)
    note R = remove_spec [OF fair1 f1(3) rm, unfolded ids]
    have err: "errors_Is e ErrForbidden \<longrightarrow> user_id r \<noteq> req" if "res = Some e" for e
      using R(2) [of e] that by fastforce
    show ?thesis
    proof (cases "user_id r = req")
      case True
      then show ?thesis using R(2,3) f1 r a err by (auto simp: w' IncDelete_frame)
    next
      case False
      then show ?thesis using R(1) f1 r by (auto simp: w' IncDelete_frame)
    qed
  qed
  then show "res = None \<Longrightarrow> \<exists>r. live_row i (tbl w) = Some r \<and> user_id r = req
      \<and> (\<exists>r'. find_row i (tbl w') = Some r' \<and> deleted_at r' \<noteq> None)
      \<and> (\<exists>mid. sent w' = sent w \<or> sent w' = sent w @ [wire (DeleteEvent
            (NewDeleteEvent (svc_us V) mid i (StorageKeys (svc_us V) (scanAvatar r))))])
      \<and> (\<forall>k. objs w' k \<noteq> objs w k \<longrightarrow>
            k \<in> set (StorageKeys (svc_us V) (scanAvatar r)) \<and> objs w' k = None)"
    and "res = Some e \<Longrightarrow> objs w' = objs w \<and> sent w' = sent w"
    and "res = Some e \<Longrightarrow> errors_Is e ErrForbidden \<Longrightarrow>
      \<exists>r. live_row i (tbl w) = Some r \<and> user_id r \<noteq> req" by blast+
qed

end

section \<open>Lists\<close>

lemma collect_ok: "collect xs acc = Inr as \<longleftrightarrow> (\<exists>ys. xs = map Inr ys \<and> as = acc @ ys)"
  by (induction xs acc rule: collect.induct) (auto simp: Cons_eq_map_conv)

context service_env
begin

text \<open>A list that is returned is complete: every uploaded avatar of the user, newest first.\<close>

lemma ListByUser_ok:
  assumes "fair w" and "ListByUser V u w = (Inr avs, w')"
  shows "\<exists>rs. mset rs = mset (user_rows u UploadStatusUploaded (tbl w))
    \<and> sorted_wrt (\<lambda>r r'. created_at r' \<le> created_at r) rs \<and> avs = map scanAvatar rs"
proof -
  from assms(2) obtain ys where l: "sr_ListByUser (svc_repo V) u w = (ys, w')" and c: "collect ys [] = Inr avs"
    by (auto simp: ListByUser_def Let_def split: prod.splits)
  from repo.List_ok [OF assms(1) l] obtain rs k tail
    where rs: "mset rs = mset (user_rows u UploadStatusUploaded (tbl w))"
      "sorted_wrt (\<lambda>r r'. created_at r' \<le> created_at r) rs"
      and ys: "ys = map (\<lambda>r. Inr (scanAvatar r)) (take k rs) @ tail"
      and tail: "tail = [] \<and> length rs \<le> k \<or> (\<exists>l. tail = [Inl (wrapf (lib_err l))])" by blast
  from c have y: "ys = map Inr avs" by (auto simp: collect_ok)
  then have "\<forall>x\<in>set tail. \<exists>a. x = Inr a" using ys by (metis in_set_conv_nth length_map nth_map set_append Un_iff)
  with tail have "tail = []" "length rs \<le> k" by auto
  with ys y have "map Inr avs = map (Inr :: _ \<Rightarrow> error + Avatar) (map scanAvatar rs)" by simp
  then have "avs = map scanAvatar rs" by (metis list.inj_map_strong sum.inject(2))
  with rs show ?thesis by blast
qed

end

end
