(* ===== verification/Handler.thy ===== *)
theory Handler
  imports Service BrokerConsumer
begin

text \<open>
  Package \<open>internal/worker/handler\<close>: thumbnails for an uploaded original, clean-up for a deleted
  avatar, and what a failure leaves behind. The decode slots are two operations on the world:
  taking one, which fails when the context is done first, and giving it back.
\<close>

section \<open>The handler\<close>

record 'w WorkerHandler =
  wh_repo :: "'w handler_Repository"
  wh_storage :: "'w Storage"
  wh_Thumbnails :: "stream \<Rightarrow> ThumbnailSize list \<Rightarrow> error + (ThumbnailSize \<rightharpoonup> bytes)"
  wh_maxOriginalBytes :: int
  wh_acquire :: "'w \<Rightarrow> lib_error option \<times> 'w"
  wh_release :: "'w \<Rightarrow> 'w"
  wh_ObserveProcessing :: "bool \<Rightarrow> 'w \<Rightarrow> 'w"
  wh_us :: "uuid \<Rightarrow> string"
  wh_up :: "string \<Rightarrow> uuid option"

definition nonRetryable :: "error \<Rightarrow> error" where
  "nonRetryable e = Errorf [Sentinel ErrNonRetryable, e]"

definition countRetry :: "'w WorkerHandler \<Rightarrow> uuid \<Rightarrow> 'w \<Rightarrow> 'w" where
  "countRetry H i w = snd (hr_IncrementRetry (wh_repo H) i w)"

definition failure :: "'w WorkerHandler \<Rightarrow> uuid \<Rightarrow> Message \<Rightarrow> error \<Rightarrow> 'w \<Rightarrow> error option \<times> 'w" where
  "failure H i msg e w =
     (if \<not> errors_Is e ErrNonRetryable \<and> \<not> Final msg then (Some e, countRetry H i w)
      else case hr_SetProcessingStatus (wh_repo H) i ProcessingStatusFailed w of
             (None, w) \<Rightarrow> (Some e, w)
           | (Some markErr, w) \<Rightarrow>
               if errors_Is markErr ErrNotFound \<or> errors_Is markErr ErrInvalidTransition
               then (Some e, w)
               else if Final msg then (Some e, w)
               else (Some (wrapf markErr), w))"

fun done_status :: "ProcessingStatus \<Rightarrow> bool" where
  "done_status ProcessingStatusCompleted = True"
| "done_status ProcessingStatusFailed = True"
| "done_status ProcessingStatusPending = False"
| "done_status ProcessingStatusProcessing = False"

text \<open>\<open>start\<close>: \<open>Inr None\<close> is the result with \<open>false\<close>: there is nothing to do.\<close>

definition start :: "'w WorkerHandler \<Rightarrow> uuid \<Rightarrow> 'w \<Rightarrow> (error + Avatar option) \<times> 'w" where
  "start H i w =
     (case hr_Get (wh_repo H) i w of
        (Inl e, w) \<Rightarrow> if errors_Is e ErrNotFound then (Inr None, w) else (Inl (wrapf e), w)
      | (Inr avatar, w) \<Rightarrow>
          if done_status (AvProcessingStatus avatar) then (Inr None, w)
          else case hr_SetProcessingStatus (wh_repo H) i ProcessingStatusProcessing w of
                 (None, w) \<Rightarrow> (Inr (Some avatar), w)
               | (Some e, w) \<Rightarrow>
                   if errors_Is e ErrNotFound \<or> errors_Is e ErrInvalidTransition then (Inr None, w)
                   else (Inl (wrapf e), w))"

text \<open>
  \<open>io.ReadAll(io.LimitReader(body, n))\<close>: a broken stream is noticed only before the limit.
\<close>

definition ReadLimited :: "StoredObject \<Rightarrow> int \<Rightarrow> lib_error + bytes" where
  "ReadLimited obj n =
     (if int (length (Body obj)) < n \<and> BodyErr obj \<noteq> None then Inl (the (BodyErr obj))
      else Inr (take (nat n) (Body obj)))"

definition readOriginal :: "'w WorkerHandler \<Rightarrow> Avatar \<Rightarrow> 'w \<Rightarrow> (error + bytes) \<times> 'w" where
  "readOriginal H avatar w =
     (case st_Get (wh_storage H) (S3Key avatar) w of
        (Inl e, w) \<Rightarrow>
          if errors_Is e ErrNotFound then (Inl (nonRetryable (wrapf e)), w) else (Inl (wrapf e), w)
      | (Inr object, w) \<Rightarrow>
          if Size object > wh_maxOriginalBytes H then (Inl (nonRetryable ErrText), w)
          else case ReadLimited object (wh_maxOriginalBytes H) of
                 Inl l \<Rightarrow> (Inl (wrapf (lib_err l)), w)
               | Inr d \<Rightarrow> (Inr d, w))"

definition render :: "'w WorkerHandler \<Rightarrow> Avatar \<Rightarrow> 'w \<Rightarrow> (error + (ThumbnailSize \<rightharpoonup> bytes)) \<times> 'w" where
  "render H avatar w =
     (case wh_acquire H w of
        (Some l, w) \<Rightarrow> (Inl (wrapf (lib_err l)), w)
      | (None, w) \<Rightarrow>
          (case readOriginal H avatar w of
             (Inl e, w) \<Rightarrow> (Inl e, wh_release H w)
           | (Inr original, w) \<Rightarrow>
               (case wh_Thumbnails H (original, None) ThumbnailSizes of
                  Inl e \<Rightarrow> (Inl (nonRetryable (wrapf e)), wh_release H w)
                | Inr thumbnails \<Rightarrow> (Inr thumbnails, wh_release H w))))"

fun store_thumbnails :: "'w WorkerHandler \<Rightarrow> uuid \<Rightarrow> (ThumbnailSize \<rightharpoonup> bytes) \<Rightarrow> ThumbnailSize list
    \<Rightarrow> (ThumbnailSize \<rightharpoonup> string) \<Rightarrow> 'w \<Rightarrow> (error + (ThumbnailSize \<rightharpoonup> string)) \<times> 'w" where
  "store_thumbnails H i thumbnails [] keys w = (Inr keys, w)"
| "store_thumbnails H i thumbnails (sz # sizes) keys w =
     (case thumbnails sz of
        None \<Rightarrow> store_thumbnails H i thumbnails sizes keys w
      | Some d \<Rightarrow>
          (let key = ThumbnailKey (wh_us H) i sz
           in case st_Put (wh_storage H) key d (int (length d)) ThumbnailMimeType w of
                (Some e, w) \<Rightarrow> (Inl (wrapf e), w)
              | (None, w) \<Rightarrow> store_thumbnails H i thumbnails sizes (keys(sz \<mapsto> key)) w))"

definition removeThumbnails :: "'w WorkerHandler \<Rightarrow> (ThumbnailSize \<rightharpoonup> string) \<Rightarrow> 'w \<Rightarrow> 'w" where
  "removeThumbnails H keys w =
     (let orphans = List.map_filter keys ThumbnailSizes
      in if orphans = [] then w else snd (st_DeleteMany (wh_storage H) orphans w))"

definition process_avatar :: "'w WorkerHandler \<Rightarrow> Avatar \<Rightarrow> 'w \<Rightarrow> (error + bool) \<times> 'w" where
  "process_avatar H avatar w =
     (case render H avatar w of
        (Inl e, w) \<Rightarrow> (Inl e, w)
      | (Inr thumbnails, w) \<Rightarrow>
          (case store_thumbnails H (ID avatar) thumbnails ThumbnailSizes Map.empty w of
             (Inl e, w) \<Rightarrow> (Inl e, w)
           | (Inr keys, w) \<Rightarrow>
               (case hr_CompleteProcessing (wh_repo H) (ID avatar) keys w of
                  (None, w) \<Rightarrow> (Inr True, w)
                | (Some e, w) \<Rightarrow>
                    if errors_Is e ErrNotFound
                    then (Inl (nonRetryable (wrapf e)), removeThumbnails H keys w)
                    else if errors_Is e ErrInvalidTransition then (Inr False, w)
                    else (Inl (wrapf e), w))))"

definition uploaded :: "'w WorkerHandler \<Rightarrow> Message \<Rightarrow> 'w \<Rightarrow> error option \<times> 'w" where
  "uploaded H msg w =
     (case UnmarshalUpload (msg_Body msg) of
        Inl e \<Rightarrow> (Some (nonRetryable (wrapf e)), wh_ObserveProcessing H False w)
      | Inr event \<Rightarrow>
          (case wh_up H (ue_AvatarID event) of
             None \<Rightarrow> (Some (nonRetryable (wrapf ErrText)), wh_ObserveProcessing H False w)
           | Some i \<Rightarrow>
               (case start H i w of
                  (Inl e, w) \<Rightarrow> failure H i msg e (wh_ObserveProcessing H False w)
                | (Inr None, w) \<Rightarrow> (None, w)
                | (Inr (Some avatar), w) \<Rightarrow>
                    (case process_avatar H avatar w of
                       (Inl e, w) \<Rightarrow> failure H i msg e (wh_ObserveProcessing H False w)
                     | (Inr processed, w) \<Rightarrow>
                         if \<not> processed then (None, w)
                         else (None, wh_ObserveProcessing H True w)))))"

definition deleted :: "'w WorkerHandler \<Rightarrow> Message \<Rightarrow> 'w \<Rightarrow> error option \<times> 'w" where
  "deleted H msg w =
     (case UnmarshalDelete (msg_Body msg) of
        Inl e \<Rightarrow> (Some (nonRetryable (wrapf e)), w)
      | Inr event \<Rightarrow>
          (case wh_up H (de_AvatarID event) of
             None \<Rightarrow> (Some (nonRetryable (wrapf ErrText)), w)
           | Some i \<Rightarrow>
               if de_S3Keys event = [] then (Some (nonRetryable ErrText), w)
               else (case st_DeleteMany (wh_storage H) (de_S3Keys event) w of
                       (Some e, w) \<Rightarrow> (Some (wrapf e), w)
                     | (None, w) \<Rightarrow>
                         (case hr_MarkFilesRemoved (wh_repo H) i w of
                            (None, w) \<Rightarrow> (None, w)
                          | (Some e, w) \<Rightarrow>
                              if errors_Is e ErrNotFound then (Some (nonRetryable (wrapf e)), w)
                              else (Some (wrapf e), w)))))"

definition dispatch :: "'w WorkerHandler \<Rightarrow> Message \<Rightarrow> 'w \<Rightarrow> error option \<times> 'w" where
  "dispatch H msg w =
     (if msg_Type msg = RoutingKeyUploaded then uploaded H msg w
      else if msg_Type msg = RoutingKeyDeleted then deleted H msg w
      else (Some (nonRetryable ErrText), w))"

definition Handle :: "'w WorkerHandler \<Rightarrow> 'w Handler" where
  "Handle H msg w = (let (err, w) = dispatch H msg w in (Returned err, w))"

section \<open>What the handler relies on\<close>

locale handler_env =
  repo: handler_repo "wh_repo H" tbl fair + store: object_store "wh_storage H" objs
  for H :: "'w WorkerHandler" and tbl :: "'w \<Rightarrow> table" and fair :: "'w \<Rightarrow> bool"
    and objs :: "'w \<Rightarrow> string \<rightharpoonup> blob" +
  assumes Get_keeps: "keeps objs (hr_Get (wh_repo H) i)"
    and SetProcessing_keeps: "keeps objs (hr_SetProcessingStatus (wh_repo H) i s)"
    and Complete_keeps: "keeps objs (hr_CompleteProcessing (wh_repo H) i keys)"
    and Increment_keeps: "keeps objs (hr_IncrementRetry (wh_repo H) i)"
    and Mark_keeps: "keeps objs (hr_MarkFilesRemoved (wh_repo H) i)"
    and Put_keeps: "keeps (\<lambda>w. (tbl w, fair w)) (st_Put (wh_storage H) k d n ct)"
    and GetObj_keeps: "keeps (\<lambda>w. (tbl w, fair w)) (st_Get (wh_storage H) k)"
    and DeleteMany_keeps: "keeps (\<lambda>w. (tbl w, fair w)) (st_DeleteMany (wh_storage H) ks)"
    and acquire_keeps: "keeps (\<lambda>w. (tbl w, fair w, objs w)) (wh_acquire H)"
    and release_keeps: "keeps (\<lambda>w. (tbl w, fair w, objs w)) (\<lambda>w. ((), wh_release H w))"
    and Observe_keeps: "keeps (\<lambda>w. (tbl w, fair w, objs w)) (\<lambda>w. ((), wh_ObserveProcessing H b w))"
begin

lemmas frames =
  Get_keeps [THEN keepsD] SetProcessing_keeps [THEN keepsD] Complete_keeps [THEN keepsD]
  Increment_keeps [THEN keepsD] Mark_keeps [THEN keepsD] Put_keeps [THEN keepsD]
  GetObj_keeps [THEN keepsD] DeleteMany_keeps [THEN keepsD] acquire_keeps [THEN keepsD]

lemma release_frame [simp]:
  "tbl (wh_release H w) = tbl w" "fair (wh_release H w) = fair w" "objs (wh_release H w) = objs w"
  using release_keeps by (simp_all add: keeps_def)

lemma Observe_frame [simp]:
  "tbl (wh_ObserveProcessing H b w) = tbl w" "fair (wh_ObserveProcessing H b w) = fair w"
  "objs (wh_ObserveProcessing H b w) = objs w"
  using Observe_keeps by (simp_all add: keeps_def)

lemma nonRetryable_Is [simp]:
  "errors_Is (nonRetryable e) s \<longleftrightarrow> s = ErrNonRetryable \<or> errors_Is e s"
  by (auto simp: nonRetryable_def)

section \<open>Reading and rendering\<close>

text \<open>
  A broken connection while the original is read is never taken for a broken file: it is
  reported as an error that a retry may cure.
\<close>

lemma readOriginal_spec:
  assumes "readOriginal H a w = (res, w')"
  shows "tbl w' = tbl w \<and> fair w' = fair w \<and> objs w' = objs w"
    and "res = Inr d \<Longrightarrow> \<exists>b. objs w (S3Key a) = Some b \<and> d = bl_data b"
    and "res = Inl e \<Longrightarrow> errors_Is e ErrNonRetryable \<Longrightarrow>
      objs w (S3Key a) = None
      \<or> (\<exists>b. objs w (S3Key a) = Some b \<and> int (length (bl_data b)) > wh_maxOriginalBytes H)"
proof -
  obtain g where get: "st_Get (wh_storage H) (S3Key a) w = (g, w')"
    using assms by (auto simp: readOriginal_def split: prod.splits sum.splits if_splits)
  show "tbl w' = tbl w \<and> fair w' = fair w \<and> objs w' = objs w"
    using frames(7) [OF get] store.Get_objs [OF get] by simp
  show "\<exists>b. objs w (S3Key a) = Some b \<and> d = bl_data b" if "res = Inr d"
  proof -
    from that assms get obtain obj where g: "g = Inr obj" and le: "\<not> Size obj > wh_maxOriginalBytes H"
      and rd: "ReadLimited obj (wh_maxOriginalBytes H) = Inr d"
      by (auto simp: readOriginal_def split: sum.splits if_splits)
    from store.Get_ok [OF get [unfolded g]] obtain b where b: "objs w (S3Key a) = Some b"
      "Size obj = int (length (bl_data b))" "BodyErr obj = None \<longrightarrow> Body obj = bl_data b"
      "Body obj = take (length (Body obj)) (bl_data b)" by (elim exE conjE) (rule that; assumption)
    have d: "d = take (nat (wh_maxOriginalBytes H)) (Body obj)"
      and seen: "int (length (Body obj)) < wh_maxOriginalBytes H \<longrightarrow> BodyErr obj = None"
      using rd by (auto simp: ReadLimited_def split: if_splits)
    have "Body obj = bl_data b"
    proof (cases "BodyErr obj")
      case (Some l)
      with seen le b(2) have "length (bl_data b) \<le> length (Body obj)" by auto
      with b(4) show ?thesis by simp
    qed (use b(3) in simp)
    with b(1,2) le d show ?thesis by auto
  qed
  show "objs w (S3Key a) = None
      \<or> (\<exists>b. objs w (S3Key a) = Some b \<and> int (length (bl_data b)) > wh_maxOriginalBytes H)"
    if "res = Inl e" "errors_Is e ErrNonRetryable"
  proof (cases g)
    case (Inl x)
    have "\<not> errors_Is x ErrNonRetryable"
      using store.Get_err_sentinel [OF get [unfolded Inl], of ErrNonRetryable] by auto
    with that assms get Inl have "errors_Is x ErrNotFound" by (auto simp: readOriginal_def split: if_splits)
    with store.Get_err [OF get [unfolded Inl]] show ?thesis by simp
  next
    case (Inr obj)
    with that assms get have "Size obj > wh_maxOriginalBytes H"
      by (auto simp: readOriginal_def split: if_splits sum.splits)
    with store.Get_ok [OF get [unfolded Inr]] show ?thesis by auto
  qed
qed

lemma render_spec:
  assumes "render H a w = (res, w')"
  shows "tbl w' = tbl w \<and> fair w' = fair w \<and> objs w' = objs w"
    and "res = Inr th \<Longrightarrow> \<exists>b. objs w (S3Key a) = Some b
      \<and> wh_Thumbnails H (bl_data b, None) ThumbnailSizes = Inr th"
proof -
  obtain q w1 where acq: "wh_acquire H w = (q, w1)" by fastforce
  from frames(9) [OF acq] have f1: "tbl w1 = tbl w" "fair w1 = fair w" "objs w1 = objs w" by auto
  obtain r w2 where rd: "readOriginal H a w1 = (r, w2)" by fastforce
  note R = readOriginal_spec [OF rd]
  have "(tbl w' = tbl w \<and> fair w' = fair w \<and> objs w' = objs w)
    \<and> (\<forall>th. res = Inr th \<longrightarrow> (\<exists>b. objs w (S3Key a) = Some b
        \<and> wh_Thumbnails H (bl_data b, None) ThumbnailSizes = Inr th))"
  proof (cases q)
    case (Some l)
    with assms acq f1 show ?thesis by (auto simp: render_def)
  next
    case None
    show ?thesis
    proof (cases r)
      case (Inl e)
      with assms acq None rd R(1) f1 show ?thesis by (auto simp: render_def)
    next
      case (Inr d)
      from R(2) [OF Inr] f1 obtain b where "objs w (S3Key a) = Some b" "d = bl_data b" by auto
      with assms acq None rd Inr R(1) f1 show ?thesis by (auto simp: render_def split: sum.splits)
    qed
  qed
  then show "tbl w' = tbl w \<and> fair w' = fair w \<and> objs w' = objs w"
    and "res = Inr th \<Longrightarrow> \<exists>b. objs w (S3Key a) = Some b
      \<and> wh_Thumbnails H (bl_data b, None) ThumbnailSizes = Inr th" by blast+
qed

section \<open>Storing the thumbnails\<close>

lemma store_thumbnails_frame:
  "store_thumbnails H i th sizes keys w = (res, w') \<Longrightarrow>
     tbl w' = tbl w \<and> fair w' = fair w
     \<and> (\<forall>k. k \<notin> ThumbnailKey (wh_us H) i ` set sizes \<longrightarrow> objs w' k = objs w k)"
proof (induction sizes arbitrary: keys w)
  case Nil
  then show ?case by simp
next
  case (Cons sz sizes)
  show ?case
  proof (cases "th sz")
    case None
    with Cons.prems Cons.IH show ?thesis by auto
  next
    case (Some d)
    let ?k = "ThumbnailKey (wh_us H) i sz"
    obtain e w1 where put: "st_Put (wh_storage H) ?k d (int (length d)) ThumbnailMimeType w = (e, w1)"
      by fastforce
    from frames(6) [OF put] have f1: "tbl w1 = tbl w" "fair w1 = fair w" by auto
    have o1: "k \<noteq> ?k \<Longrightarrow> objs w1 k = objs w k" for k by (rule store.Put_frame [OF put])
    show ?thesis
    proof (cases e)
      case None
      with Cons.prems Some put have "store_thumbnails H i th sizes (keys(sz \<mapsto> ?k)) w1 = (res, w')" by simp
      from Cons.IH [OF this] f1 o1 show ?thesis by auto
    next
      case err: (Some x)
      with Cons.prems Some put f1 o1 show ?thesis by auto
    qed
  qed
qed

text \<open>
  When every thumbnail was stored, the collected keys are those of the sizes that were made,
  and each is the key of an object with the bytes of its thumbnail.
\<close>

lemma store_thumbnails_ok:
  assumes inj: "inj_on (ThumbnailKey (wh_us H) i) (set sizes)" and "distinct sizes"
    and "store_thumbnails H i th sizes keys w = (Inr keys', w')"
  shows "keys' = keys ++ (\<lambda>sz. if sz \<in> set sizes \<and> th sz \<noteq> None then Some (ThumbnailKey (wh_us H) i sz) else None)
    \<and> (\<forall>sz\<in>set sizes. \<forall>d. th sz = Some d \<longrightarrow>
         (\<exists>et. objs w' (ThumbnailKey (wh_us H) i sz)
            = Some \<lparr>bl_data = d, bl_type = ThumbnailMimeType, bl_etag = et\<rparr>))"
  using assms
proof (induction sizes arbitrary: keys w)
  case Nil
  then show ?case by (simp add: map_add_def)
next
  case (Cons sz sizes)
  have inj: "inj_on (ThumbnailKey (wh_us H) i) (set sizes)" using Cons.prems(1) by simp
  show ?case
  proof (cases "th sz")
    case None
    with Cons.prems have "store_thumbnails H i th sizes keys w = (Inr keys', w')" by simp
    from Cons.IH [OF inj _ this] Cons.prems(2) None show ?thesis by (auto simp: map_add_def fun_eq_iff)
  next
    case (Some d)
    let ?k = "ThumbnailKey (wh_us H) i sz"
    from Cons.prems(3) Some obtain w1
      where put: "st_Put (wh_storage H) ?k d (int (length d)) ThumbnailMimeType w = (None, w1)"
        and rest: "store_thumbnails H i th sizes (keys(sz \<mapsto> ?k)) w1 = (Inr keys', w')"
      by (auto simp: Let_def split: prod.splits option.splits)
    have "ThumbnailMimeType \<noteq> ''''" by (simp add: ThumbnailMimeType_def mimeJPEG_def)
    with store.Put_ok [OF put refl] obtain et
      where "objs w1 ?k = Some \<lparr>bl_data = d, bl_type = ThumbnailMimeType, bl_etag = et\<rparr>" by auto
    moreover have "?k \<notin> ThumbnailKey (wh_us H) i ` set sizes"
      using Cons.prems(1,2) by auto
    ultimately have here: "objs w' ?k = Some \<lparr>bl_data = d, bl_type = ThumbnailMimeType, bl_etag = et\<rparr>"
      using store_thumbnails_frame [OF rest] by simp
    from Cons.IH [OF inj _ rest] Cons.prems(2) Some here show ?thesis
      by (auto simp: map_add_def fun_eq_iff)
  qed
qed

end

section \<open>End states\<close>

text \<open>The row of an avatar needs no more work: it is deleted, completed or failed.\<close>

definition ended :: "uuid \<Rightarrow> table \<Rightarrow> bool" where
  "ended i t = (\<forall>r. find_row i t = Some r \<longrightarrow>
     deleted_at r \<noteq> None \<or> processing_status r = ProcessingStatusCompleted
     \<or> processing_status r = ProcessingStatusFailed)"

lemma row_persists:
  "db_step\<^sup>*\<^sup>* t t' \<Longrightarrow> find_row i t = Some r \<Longrightarrow> \<exists>r'. find_row i t' = Some r' \<and> row_evolves r r'"
  using db_steps_rows_evolve unfolding rows_evolve_def by blast

lemma evolves_ended:
  assumes "row_evolves r r'"
    and "deleted_at r \<noteq> None \<or> processing_status r = ProcessingStatusCompleted
      \<or> processing_status r = ProcessingStatusFailed"
  shows "deleted_at r' \<noteq> None \<or> processing_status r' = ProcessingStatusCompleted
      \<or> processing_status r' = ProcessingStatusFailed"
proof -
  from assms(1) have run: "processing_step\<^sup>*\<^sup>* (processing_status r) (processing_status r')"
    and del: "deleted_at r \<noteq> None \<longrightarrow> deleted_at r' = deleted_at r" by (simp_all add: row_evolves_def)
  from assms(2) show ?thesis using del processing_run_terminal [OF run] by auto
qed

lemma ended_stays:
  assumes "ended i t" and "find_row i t = Some r" and "db_step\<^sup>*\<^sup>* t t'"
  shows "ended i t'"
proof -
  from row_persists [OF assms(3,2)] obtain r' where r': "find_row i t' = Some r'" "row_evolves r r'" by blast
  with evolves_ended [OF r'(2)] assms(1,2) show ?thesis by (simp add: ended_def)
qed

lemma ended_if_not_live:
  assumes "table_ok t" and "live_row i t = None"
  shows "ended i t"
  unfolding ended_def
proof (intro allI impI)
  fix r
  assume "find_row i t = Some r"
  then have "r \<in> set t" "row_id r = i" by (auto dest: find_row_Some)
  with assms(2) have "\<not> live r" by (auto simp: live_row_def filter_empty_conv split: list.splits)
  then show "deleted_at r \<noteq> None \<or> processing_status r = ProcessingStatusCompleted
      \<or> processing_status r = ProcessingStatusFailed" by (simp add: live_def)
qed

text \<open>
  A transition of the processing status that succeeded into an end state, or that was refused
  because the row is gone or has left the statuses a worker can act on, leaves the row ended.
\<close>

lemma refused_ended:
  assumes law: "transition_law tbl i P f w (Some e) w'" and ok: "table_ok (tbl w)"
    and row: "find_row i (tbl w) = Some r"
    and e: "errors_Is e ErrNotFound \<or> errors_Is e ErrInvalidTransition"
    and P: "\<not> P r \<Longrightarrow> processing_status r = ProcessingStatusCompleted \<or> processing_status r = ProcessingStatusFailed"
  shows "ended i (tbl w')"
proof (cases "errors_Is e ErrNotFound")
  case True
  with law obtain t where t: "db_step\<^sup>*\<^sup>* (tbl w) t" "db_step\<^sup>*\<^sup>* t (tbl w')" "live_row i t = None"
    by (auto simp: transition_law_def)
  have "ended i t" by (rule ended_if_not_live [OF db_steps_table_ok [OF t(1) ok] t(3)])
  moreover from row_persists [OF t(1) row] obtain r' where "find_row i t = Some r'" by blast
  ultimately show ?thesis using t(2) by (rule ended_stays)
next
  case False
  with e law have none: "filter (\<lambda>r. row_id r = i \<and> live r \<and> P r) (tbl w) = []"
    and steps: "db_step\<^sup>*\<^sup>* (tbl w) (tbl w')" by (auto simp: transition_law_def)
  from row have "r \<in> set (tbl w)" "row_id r = i" by (auto dest: find_row_Some)
  with none have "\<not> live r \<or> \<not> P r" by (auto simp: filter_empty_conv)
  with P row have "ended i (tbl w)" by (auto simp: ended_def live_def)
  with row steps show ?thesis by (rule ended_stays [rotated])
qed

lemma allowed_sets:
  "processing_status r \<in> set (ProcessingStatus_AllowedFrom ProcessingStatusFailed) \<longleftrightarrow>
     processing_status r = ProcessingStatusPending \<or> processing_status r = ProcessingStatusProcessing"
  "processing_status r \<in> set (ProcessingStatus_AllowedFrom ProcessingStatusProcessing) \<longleftrightarrow>
     processing_status r = ProcessingStatusPending \<or> processing_status r = ProcessingStatusProcessing"
  "processing_status r \<in> set (ProcessingStatus_AllowedFrom ProcessingStatusCompleted) \<longleftrightarrow>
     processing_status r = ProcessingStatusProcessing"
  by (auto simp: status_defs)

lemma not_open:
  "\<not> (s = ProcessingStatusPending \<or> s = ProcessingStatusProcessing) \<Longrightarrow>
     s = ProcessingStatusCompleted \<or> s = ProcessingStatusFailed"
  by (cases s) auto

context handler_env
begin

lemma SetProcessing_steps:
  assumes "fair w" and "s \<noteq> ProcessingStatusCompleted"
    and "hr_SetProcessingStatus (wh_repo H) i s w = (r, w')"
  shows "db_step\<^sup>*\<^sup>* (tbl w) (tbl w')"
  by (rule transition_steps [OF repo.SetProcessing_law [OF assms] set_processing_step [OF assms(2)]])

lemma Complete_steps:
  assumes "fair w" and "hr_CompleteProcessing (wh_repo H) i keys w = (r, w')"
  shows "db_step\<^sup>*\<^sup>* (tbl w) (tbl w')"
  by (rule transition_steps [OF repo.Complete_law [OF assms] set_completed_step])

text \<open>
  A failed attempt: the files stay, and if the message is not to come back although it was not
  the last attempt, the row has ended.
\<close>

lemma failure_spec:
  assumes fair: "fair w" and tok: "table_ok (tbl w)" and run: "failure H i msg e w = (res, w')"
  shows "res \<noteq> None \<and> fair w' \<and> objs w' = objs w \<and> db_step\<^sup>*\<^sup>* (tbl w) (tbl w')"
    and "find_row i (tbl w) = Some r \<Longrightarrow> \<not> Final msg \<Longrightarrow> res = Some e' \<Longrightarrow>
      errors_Is e' ErrNonRetryable \<Longrightarrow> ended i (tbl w')"
proof -
  have "res \<noteq> None \<and> fair w' \<and> objs w' = objs w \<and> db_step\<^sup>*\<^sup>* (tbl w) (tbl w')
    \<and> (\<forall>r e'. find_row i (tbl w) = Some r \<longrightarrow> \<not> Final msg \<longrightarrow> res = Some e' \<longrightarrow>
        errors_Is e' ErrNonRetryable \<longrightarrow> ended i (tbl w'))"
  proof (cases "\<not> errors_Is e ErrNonRetryable \<and> \<not> Final msg")
    case True
    obtain x w1 where inc: "hr_IncrementRetry (wh_repo H) i w = (x, w1)" by fastforce
    with True run have "res = Some e" "w' = w1" by (auto simp: failure_def countRetry_def)
    with True inc repo.Increment_fair [OF fair inc] repo.Increment_steps [OF fair inc] frames(4) [OF inc]
    show ?thesis by auto
  next
    case False
    obtain m w1 where mark: "hr_SetProcessingStatus (wh_repo H) i ProcessingStatusFailed w = (m, w1)" by fastforce
    note law = repo.SetProcessing_law [OF fair _ mark, simplified]
    have w': "w' = w1" "res \<noteq> None"
      using run False mark by (auto simp: failure_def split: option.splits if_splits)
    have base: "fair w1" "objs w1 = objs w" "db_step\<^sup>*\<^sup>* (tbl w) (tbl w1)"
      using repo.SetProcessing_fair [OF fair mark] frames(2) [OF mark]
        SetProcessing_steps [OF fair _ mark] by simp_all
    have "ended i (tbl w1)" if r: "find_row i (tbl w) = Some r" and nf: "\<not> Final msg"
      and res: "res = Some e'" "errors_Is e' ErrNonRetryable" for r e'
    proof (cases m)
      case None
      from transition_row [OF law [unfolded None] tok] obtain now r0 r'
        where "find_row i (tbl w1) = Some r'" "row_evolves (set_processing ProcessingStatusFailed now r0) r'"
        by (auto simp: set_processing_def)
      moreover have "processing_status (set_processing ProcessingStatusFailed now r0) = ProcessingStatusFailed"
        by (simp add: set_processing_def)
      ultimately show ?thesis using evolves_ended by (auto simp: ended_def)
    next
      case (Some x)
      have "\<not> errors_Is x ErrNonRetryable" using law Some by (simp add: transition_law_def)
      with run False mark Some nf res have "errors_Is x ErrNotFound \<or> errors_Is x ErrInvalidTransition"
        by (auto simp: failure_def split: if_splits)
      then show ?thesis
        by (rule refused_ended [OF law [unfolded Some] tok r]) (use not_open in \<open>auto simp: allowed_sets\<close>)
    qed
    with w' base show ?thesis by blast
  qed
  then show "res \<noteq> None \<and> fair w' \<and> objs w' = objs w \<and> db_step\<^sup>*\<^sup>* (tbl w) (tbl w')"
    and "find_row i (tbl w) = Some r \<Longrightarrow> \<not> Final msg \<Longrightarrow> res = Some e' \<Longrightarrow>
      errors_Is e' ErrNonRetryable \<Longrightarrow> ended i (tbl w')" by blast+
qed

text \<open>
  \<open>start\<close>: with nothing to do, a row that exists has ended; otherwise it is in work from now on.
\<close>

lemma start_spec:
  assumes fair: "fair w" and tok: "table_ok (tbl w)" and run: "start H i w = (res, w')"
  shows "fair w' \<and> objs w' = objs w \<and> db_step\<^sup>*\<^sup>* (tbl w) (tbl w')"
    and "res = Inr None \<Longrightarrow> find_row i (tbl w) = Some r \<Longrightarrow> ended i (tbl w')"
    and "res = Inr (Some a) \<Longrightarrow> ID a = i \<and> (\<exists>r. find_row i (tbl w) = Some r \<and> a = scanAvatar r)
      \<and> (\<exists>r'. find_row i (tbl w') = Some r' \<and> processing_status r' \<noteq> ProcessingStatusPending)"
    and "res = Inl e \<Longrightarrow> \<not> errors_Is e ErrNonRetryable"
proof -
  obtain g w1 where get: "hr_Get (wh_repo H) i w = (g, w1)" by fastforce
  have b1: "fair w1" "objs w1 = objs w" "db_step\<^sup>*\<^sup>* (tbl w) (tbl w1)"
    using repo.Get_fair [OF fair get] frames(1) [OF get] repo.Get_steps [OF fair get] by simp_all
  have tok1: "table_ok (tbl w1)" by (rule db_steps_table_ok [OF b1(3) tok])
  have "fair w' \<and> objs w' = objs w \<and> db_step\<^sup>*\<^sup>* (tbl w) (tbl w')
    \<and> (\<forall>r. res = Inr None \<longrightarrow> find_row i (tbl w) = Some r \<longrightarrow> ended i (tbl w'))
    \<and> (\<forall>a. res = Inr (Some a) \<longrightarrow> ID a = i \<and> (\<exists>r. find_row i (tbl w) = Some r \<and> a = scanAvatar r)
        \<and> (\<exists>r'. find_row i (tbl w') = Some r' \<and> processing_status r' \<noteq> ProcessingStatusPending))
    \<and> (\<forall>e. res = Inl e \<longrightarrow> \<not> errors_Is e ErrNonRetryable)"
  proof (cases g)
    case (Inl x)
    then have "w' = w1" using run get by (auto simp: start_def split: if_splits)
    moreover have "ended i (tbl w1)" if "errors_Is x ErrNotFound" "find_row i (tbl w) = Some r" for r
    proof -
      have "live_row i (tbl w) = None" using repo.Get_err [OF fair get [unfolded Inl] that(1)] by simp
      then show ?thesis by (intro ended_stays [OF ended_if_not_live [OF tok] that(2) b1(3)])
    qed
    ultimately show ?thesis
      using run get Inl b1 repo.Get_err [OF fair get [unfolded Inl], of ErrNonRetryable]
      by (auto simp: start_def split: if_splits)
  next
    case (Inr a)
    from repo.Get_ok [OF fair get [unfolded Inr]] obtain r
      where lr: "live_row i (tbl w) = Some r" and a: "a = scanAvatar r" by blast
    have r: "find_row i (tbl w) = Some r" "ID a = i"
      using live_row_Some [OF lr] find_row_member [of "tbl w" r] tok
      by (auto simp: table_ok_def a scanAvatar_def)
    from row_persists [OF b1(3) r(1)] obtain r1 where r1: "find_row i (tbl w1) = Some r1" "row_evolves r r1" by blast
    show ?thesis
    proof (cases "done_status (AvProcessingStatus a)")
      case True
      then have "processing_status r = ProcessingStatusCompleted \<or> processing_status r = ProcessingStatusFailed"
        by (cases "processing_status r") (auto simp: a scanAvatar_def)
      with r1 evolves_ended [OF r1(2)] have "ended i (tbl w1)" by (auto simp: ended_def)
      with run get Inr True b1 show ?thesis by (auto simp: start_def)
    next
      case False
      obtain m w2 where mark: "hr_SetProcessingStatus (wh_repo H) i ProcessingStatusProcessing w1 = (m, w2)" by fastforce
      note law = repo.SetProcessing_law [OF b1(1) _ mark, simplified]
      have b2: "fair w2" "objs w2 = objs w" "db_step\<^sup>*\<^sup>* (tbl w) (tbl w2)"
        using repo.SetProcessing_fair [OF b1(1) mark] frames(2) [OF mark] b1
          rtranclp_trans [OF b1(3) SetProcessing_steps [OF b1(1) _ mark]] by simp_all
      show ?thesis
      proof (cases m)
        case None
        from transition_row [OF law [unfolded None] tok1] obtain now r0 r'
          where r': "find_row i (tbl w2) = Some r'" "row_evolves (set_processing ProcessingStatusProcessing now r0) r'"
          by (auto simp: set_processing_def)
        then have "processing_step\<^sup>*\<^sup>* ProcessingStatusProcessing (processing_status r')"
          by (simp add: row_evolves_def set_processing_def)
        then have "processing_status r' \<noteq> ProcessingStatusPending"
          by (auto elim: rtranclp.cases dest: processing_step_terminal)
        with r' r a run get Inr False mark None b2 show ?thesis by (auto simp: start_def)
      next
        case (Some x)
        have nr: "\<not> errors_Is x ErrNonRetryable" using law Some by (simp add: transition_law_def)
        have "ended i (tbl w2)" if "errors_Is x ErrNotFound \<or> errors_Is x ErrInvalidTransition"
          by (rule refused_ended [OF law [unfolded Some] tok1 r1(1) that])
            (use not_open in \<open>auto simp: allowed_sets\<close>)
        with run get Inr False mark Some b2 nr show ?thesis by (auto simp: start_def split: if_splits)
      qed
    qed
  qed
  then show "fair w' \<and> objs w' = objs w \<and> db_step\<^sup>*\<^sup>* (tbl w) (tbl w')"
    and "res = Inr None \<Longrightarrow> find_row i (tbl w) = Some r \<Longrightarrow> ended i (tbl w')"
    and "res = Inr (Some a) \<Longrightarrow> ID a = i \<and> (\<exists>r. find_row i (tbl w) = Some r \<and> a = scanAvatar r)
      \<and> (\<exists>r'. find_row i (tbl w') = Some r' \<and> processing_status r' \<noteq> ProcessingStatusPending)"
    and "res = Inl e \<Longrightarrow> \<not> errors_Is e ErrNonRetryable" by blast+
qed

text \<open>The keys of one avatar's thumbnails differ by the size they end in.\<close>

lemma thumbnail_keys_inj: "inj_on (ThumbnailKey (wh_us H) i) S"
  by (simp add: inj_on_def ThumbnailKey_def)

text \<open>
  The work itself. Completed: the row carries the keys, and under every key the thumbnail is
  stored. Finished elsewhere: the row has ended. A failure leaves the row as it is.
\<close>

lemma process_avatar_spec:
  assumes fair: "fair w" and tok: "table_ok (tbl w)" and run: "process_avatar H a w = (res, w')"
    and row: "find_row (ID a) (tbl w) = Some r" "processing_status r \<noteq> ProcessingStatusPending"
  shows "fair w' \<and> db_step\<^sup>*\<^sup>* (tbl w) (tbl w')"
    and "res = Inr True \<Longrightarrow> \<exists>b th r'. objs w (S3Key a) = Some b
      \<and> wh_Thumbnails H (bl_data b, None) ThumbnailSizes = Inr th
      \<and> find_row (ID a) (tbl w') = Some r' \<and> processing_status r' = ProcessingStatusCompleted
      \<and> (\<forall>sz\<in>set ThumbnailSizes. \<forall>d. th sz = Some d \<longrightarrow>
           (\<exists>m. thumbnail_s3_keys r' = Some m \<and> m sz = Some (ThumbnailKey (wh_us H) (ID a) sz))
           \<and> (\<exists>et. objs w' (ThumbnailKey (wh_us H) (ID a) sz)
                = Some \<lparr>bl_data = d, bl_type = ThumbnailMimeType, bl_etag = et\<rparr>))"
    and "res = Inr b \<Longrightarrow> ended (ID a) (tbl w')"
    and "k \<notin> ThumbnailKey (wh_us H) (ID a) ` set ThumbnailSizes \<Longrightarrow> objs w' k = objs w k"
proof -
  let ?i = "ID a"
  let ?keys_of = "ThumbnailKey (wh_us H) ?i ` set ThumbnailSizes"
  obtain rr w1 where ren: "render H a w = (rr, w1)" by fastforce
  from render_spec(1) [OF ren] fair have f1: "tbl w1 = tbl w" "fair w1" "objs w1 = objs w" by auto
  have "fair w' \<and> db_step\<^sup>*\<^sup>* (tbl w) (tbl w') \<and> (\<forall>k. k \<notin> ?keys_of \<longrightarrow> objs w' k = objs w k)
    \<and> (res = Inr True \<longrightarrow> (\<exists>b th r'. objs w (S3Key a) = Some b
      \<and> wh_Thumbnails H (bl_data b, None) ThumbnailSizes = Inr th
      \<and> find_row ?i (tbl w') = Some r' \<and> processing_status r' = ProcessingStatusCompleted
      \<and> (\<forall>sz\<in>set ThumbnailSizes. \<forall>d. th sz = Some d \<longrightarrow>
           (\<exists>m. thumbnail_s3_keys r' = Some m \<and> m sz = Some (ThumbnailKey (wh_us H) ?i sz))
           \<and> (\<exists>et. objs w' (ThumbnailKey (wh_us H) ?i sz)
                = Some \<lparr>bl_data = d, bl_type = ThumbnailMimeType, bl_etag = et\<rparr>))))
    \<and> (\<forall>b. res = Inr b \<longrightarrow> ended ?i (tbl w'))"
  proof (cases rr)
    case (Inl e)
    with run ren f1 show ?thesis by (auto simp: process_avatar_def)
  next
    case (Inr th)
    from render_spec(2) [OF ren Inr] obtain b where b: "objs w (S3Key a) = Some b"
      "wh_Thumbnails H (bl_data b, None) ThumbnailSizes = Inr th" by blast
    obtain sr w2 where st: "store_thumbnails H ?i th ThumbnailSizes Map.empty w1 = (sr, w2)" by fastforce
    from store_thumbnails_frame [OF st] f1 have f2: "tbl w2 = tbl w" "fair w2"
      and o2: "\<And>k. k \<notin> ?keys_of \<Longrightarrow> objs w2 k = objs w k" by auto
    show ?thesis
    proof (cases sr)
      case (Inl e)
      with run ren Inr st f2 o2 show ?thesis by (auto simp: process_avatar_def)
    next
      case keys: (Inr keys)
      have S: "keys = (\<lambda>sz. if sz \<in> set ThumbnailSizes \<and> th sz \<noteq> None
            then Some (ThumbnailKey (wh_us H) ?i sz) else None)"
        "\<forall>sz\<in>set ThumbnailSizes. \<forall>d. th sz = Some d \<longrightarrow> (\<exists>et. objs w2 (ThumbnailKey (wh_us H) ?i sz)
            = Some \<lparr>bl_data = d, bl_type = ThumbnailMimeType, bl_etag = et\<rparr>)"
        using store_thumbnails_ok [OF thumbnail_keys_inj _ st [unfolded keys]]
        by (simp_all add: ThumbnailSizes_def)
      obtain m w3 where co: "hr_CompleteProcessing (wh_repo H) ?i keys w2 = (m, w3)" by fastforce
      note law = repo.Complete_law [OF f2(2) co]
      have f3: "fair w3" "objs w3 = objs w2" "db_step\<^sup>*\<^sup>* (tbl w) (tbl w3)"
        using repo.Complete_fair [OF f2(2) co] frames(3) [OF co] Complete_steps [OF f2(2) co] f2(1) by simp_all
      show ?thesis
      proof (cases m)
        case None
        then have res: "res = Inr True" "w' = w3" using run ren Inr st keys co by (auto simp: process_avatar_def)
        from transition_row [OF law [unfolded None]] tok f2(1) obtain now r0 r'
          where r': "find_row ?i (tbl w3) = Some r'" "row_evolves (set_completed keys now r0) r'"
          by (auto simp: set_completed_def)
        then have "processing_status r' = ProcessingStatusCompleted" "thumbnail_s3_keys r' = Some keys"
          using processing_run_terminal [of ProcessingStatusCompleted "processing_status r'"]
          by (auto simp: row_evolves_def set_completed_def)
        with r' S f3 b res o2 show ?thesis by (auto simp: ended_def)
      next
        case (Some x)
        show ?thesis
        proof (cases "errors_Is x ErrNotFound")
          case True
          then have res: "w' = removeThumbnails H keys w3" "\<exists>e. res = Inl e"
            using run ren Inr st keys co Some by (auto simp: process_avatar_def)
          let ?orph = "List.map_filter keys ThumbnailSizes"
          have sub: "set ?orph \<subseteq> ?keys_of" by (auto simp: S(1) List.map_filter_def split: if_splits)
          obtain de w4 where del: "st_DeleteMany (wh_storage H) ?orph w3 = (de, w4)" by fastforce
          from frames(8) [OF del] store.Delete_frame [OF del] sub
          have "tbl w4 = tbl w3" "fair w4 = fair w3" "\<And>k. k \<notin> ?keys_of \<Longrightarrow> objs w4 k = objs w3 k" by auto
          with res del f3 o2 show ?thesis by (auto simp: removeThumbnails_def Let_def)
        next
          case False
          then have w': "w' = w3" using run ren Inr st keys co Some
            by (auto simp: process_avatar_def split: if_splits)
          have "ended ?i (tbl w3)" if "errors_Is x ErrInvalidTransition"
          proof (rule refused_ended [OF law [unfolded Some], of r])
            show "find_row ?i (tbl w2) = Some r" and "table_ok (tbl w2)" using row tok f2 by simp_all
            show "errors_Is x ErrNotFound \<or> errors_Is x ErrInvalidTransition" using that by simp
            show "processing_status r = ProcessingStatusCompleted \<or> processing_status r = ProcessingStatusFailed"
              if "processing_status r \<notin> set (ProcessingStatus_AllowedFrom ProcessingStatusCompleted)"
              using that row(2) by (cases "processing_status r") (simp_all add: status_defs)
          qed
          with run ren Inr st keys co Some False f3 o2 w' show ?thesis
            by (auto simp: process_avatar_def split: if_splits)
        qed
      qed
    qed
  qed
  then show "fair w' \<and> db_step\<^sup>*\<^sup>* (tbl w) (tbl w')"
    and "res = Inr True \<Longrightarrow> \<exists>b th r'. objs w (S3Key a) = Some b
      \<and> wh_Thumbnails H (bl_data b, None) ThumbnailSizes = Inr th
      \<and> find_row ?i (tbl w') = Some r' \<and> processing_status r' = ProcessingStatusCompleted
      \<and> (\<forall>sz\<in>set ThumbnailSizes. \<forall>d. th sz = Some d \<longrightarrow>
           (\<exists>m. thumbnail_s3_keys r' = Some m \<and> m sz = Some (ThumbnailKey (wh_us H) ?i sz))
           \<and> (\<exists>et. objs w' (ThumbnailKey (wh_us H) ?i sz)
                = Some \<lparr>bl_data = d, bl_type = ThumbnailMimeType, bl_etag = et\<rparr>))"
    and "res = Inr b \<Longrightarrow> ended ?i (tbl w')"
    and "k \<notin> ?keys_of \<Longrightarrow> objs w' k = objs w k" by blast+
qed

text \<open>
  An upload event that is settled without a retry, before the last attempt, leaves a row that
  existed in an end state: no avatar is forgotten half way.
\<close>

lemma uploaded_settles:
  assumes fair: "fair w" and tok: "table_ok (tbl w)" and run: "uploaded H msg w = (res, w')"
    and body: "UnmarshalUpload (msg_Body msg) = Inr ev" "wh_up H (ue_AvatarID ev) = Some i"
    and row: "find_row i (tbl w) = Some r" and nf: "\<not> Final msg"
    and settled: "res = None \<or> (\<exists>e. res = Some e \<and> errors_Is e ErrNonRetryable)"
  shows "ended i (tbl w')"
proof -
  obtain sr w1 where st: "start H i w = (sr, w1)" by fastforce
  note S = start_spec [OF fair tok st]
  have tok1: "table_ok (tbl w1)" using S(1) tok db_steps_table_ok by blast
  from S(1) row_persists [OF _ row] obtain r1 where r1: "find_row i (tbl w1) = Some r1" by blast
  show ?thesis
  proof (cases sr)
    case (Inl e)
    then have "failure H i msg e (wh_ObserveProcessing H False w1) = (res, w')"
      using run body st by (simp add: uploaded_def)
    from failure_spec [OF _ _ this] S(1) tok1 r1 nf settled show ?thesis by auto
  next
    case (Inr ao)
    show ?thesis
    proof (cases ao)
      case None
      then have "w' = w1" using run body st Inr by (auto simp: uploaded_def)
      with S(2) Inr None row show ?thesis by blast
    next
      case (Some a)
      from S(3) Inr Some obtain r2 where a: "ID a = i" "find_row i (tbl w1) = Some r2"
        "processing_status r2 \<noteq> ProcessingStatusPending" by blast
      obtain pr w2 where pa: "process_avatar H a w1 = (pr, w2)" by fastforce
      note P = process_avatar_spec [OF _ tok1 pa, of r2, unfolded a(1)]
      have p: "fair w2" "db_step\<^sup>*\<^sup>* (tbl w1) (tbl w2)" using P(1) S(1) a by auto
      show ?thesis
      proof (cases pr)
        case (Inl e)
        then have "failure H i msg e (wh_ObserveProcessing H False w2) = (res, w')"
          using run body st Inr Some pa by (simp add: uploaded_def)
        moreover from row_persists [OF p(2) r1] obtain r3 where "find_row i (tbl w2) = Some r3" by blast
        moreover have "table_ok (tbl w2)" by (rule db_steps_table_ok [OF p(2) tok1])
        ultimately show ?thesis using failure_spec [of "wh_ObserveProcessing H False w2" i msg e res w'] p nf settled
          by auto
      next
        case pb: (Inr b)
        then have "tbl w' = tbl w2"
          using run body st Inr Some pa by (auto simp: uploaded_def split: if_splits)
        with P(3) S(1) a pb show ?thesis by simp
      qed
    qed
  qed
qed

text \<open>Whatever happens to an upload event, the table only takes statements of the program.\<close>

lemma uploaded_steps:
  assumes fair: "fair w" and tok: "table_ok (tbl w)" and run: "uploaded H msg w = (res, w')"
  shows "fair w' \<and> db_step\<^sup>*\<^sup>* (tbl w) (tbl w')"
proof (cases "\<exists>ev i. UnmarshalUpload (msg_Body msg) = Inr ev \<and> wh_up H (ue_AvatarID ev) = Some i")
  case False
  then have "w' = wh_ObserveProcessing H False w"
    using run by (auto simp: uploaded_def split: sum.splits option.splits)
  with fair show ?thesis by simp
next
  case True
  then obtain ev i where body: "UnmarshalUpload (msg_Body msg) = Inr ev" "wh_up H (ue_AvatarID ev) = Some i" by blast
  obtain sr w1 where st: "start H i w = (sr, w1)" by fastforce
  note S = start_spec [OF fair tok st]
  have tok1: "table_ok (tbl w1)" using S(1) tok db_steps_table_ok by blast
  have fail: "fair w' \<and> db_step\<^sup>*\<^sup>* (tbl v) (tbl w')"
    if "failure H i msg e (wh_ObserveProcessing H False v) = (res, w')" "fair v" "table_ok (tbl v)" for e v
    using failure_spec(1) [OF _ _ that(1)] that(2,3) by simp
  show ?thesis
  proof (cases "\<exists>a. sr = Inr (Some a)")
    case False
    then consider e where "sr = Inl e" | "sr = Inr None" by (cases sr) auto
    then show ?thesis
    proof cases
      case 1
      then have "failure H i msg e (wh_ObserveProcessing H False w1) = (res, w')"
        using run body st by (simp add: uploaded_def)
      from fail [OF this] S(1) tok1 show ?thesis by (meson rtranclp_trans)
    next
      case 2
      with run body st S(1) show ?thesis by (auto simp: uploaded_def)
    qed
  next
    case True
    then obtain a where sr: "sr = Inr (Some a)" by blast
    from S(3) [OF this] obtain r where a: "ID a = i" "find_row i (tbl w1) = Some r"
      "processing_status r \<noteq> ProcessingStatusPending" by blast
    obtain pr w2 where pa: "process_avatar H a w1 = (pr, w2)" by fastforce
    from process_avatar_spec(1) [OF _ tok1 pa, of r, unfolded a(1)] S(1) a
    have p: "fair w2" "db_step\<^sup>*\<^sup>* (tbl w) (tbl w2)" "table_ok (tbl w2)"
      using db_steps_table_ok [OF _ tok1] by (auto intro: rtranclp_trans)
    show ?thesis
    proof (cases pr)
      case (Inl e)
      then have "failure H i msg e (wh_ObserveProcessing H False w2) = (res, w')"
        using run body st sr pa by (simp add: uploaded_def)
      from fail [OF this p(1,3)] p(2) show ?thesis by (meson rtranclp_trans)
    next
      case (Inr b)
      with run body st sr pa p show ?thesis by (auto simp: uploaded_def split: if_splits)
    qed
  qed
qed

text \<open>
  The clean-up of a deleted avatar is reported done only when every file is gone and the row is
  marked; the row is never marked while a file of the event may be left.
\<close>

lemma deleted_spec:
  assumes fair: "fair w" and run: "deleted H msg w = (res, w')"
  shows "res = None \<Longrightarrow> \<exists>ev i r. UnmarshalDelete (msg_Body msg) = Inr ev \<and> wh_up H (de_AvatarID ev) = Some i
      \<and> de_S3Keys ev \<noteq> [] \<and> (\<forall>k\<in>set (de_S3Keys ev). objs w' k = None)
      \<and> find_row i (tbl w') = Some r \<and> files_removed_at r \<noteq> None"
    and "tbl w' \<noteq> tbl w \<Longrightarrow> \<exists>ev. UnmarshalDelete (msg_Body msg) = Inr ev
      \<and> (\<forall>k\<in>set (de_S3Keys ev). objs w' k = None)"
    and "UnmarshalDelete (msg_Body msg) = Inr ev \<Longrightarrow> k \<notin> set (de_S3Keys ev) \<Longrightarrow> objs w' k = objs w k"
proof -
  show "\<exists>ev i r. UnmarshalDelete (msg_Body msg) = Inr ev \<and> wh_up H (de_AvatarID ev) = Some i
      \<and> de_S3Keys ev \<noteq> [] \<and> (\<forall>k\<in>set (de_S3Keys ev). objs w' k = None)
      \<and> find_row i (tbl w') = Some r \<and> files_removed_at r \<noteq> None" if "res = None"
  proof -
    from run that obtain ev i w1 where ev: "UnmarshalDelete (msg_Body msg) = Inr ev"
      "wh_up H (de_AvatarID ev) = Some i" "de_S3Keys ev \<noteq> []"
      and del: "st_DeleteMany (wh_storage H) (de_S3Keys ev) w = (None, w1)"
      and mark: "hr_MarkFilesRemoved (wh_repo H) i w1 = (None, w')"
      by (auto simp: deleted_def split: sum.splits option.splits if_splits prod.splits)
    from frames(8) [OF del] fair have "fair w1" by simp
    from repo.Mark_ok [OF this mark] ev store.Delete_ok [OF del] frames(5) [OF mark] show ?thesis by auto
  qed
  show "\<exists>ev. UnmarshalDelete (msg_Body msg) = Inr ev \<and> (\<forall>k\<in>set (de_S3Keys ev). objs w' k = None)"
    if "tbl w' \<noteq> tbl w"
  proof -
    from run that obtain ev i x w1 where ev: "UnmarshalDelete (msg_Body msg) = Inr ev"
      and del: "st_DeleteMany (wh_storage H) (de_S3Keys ev) w = (None, w1)"
      and mark: "hr_MarkFilesRemoved (wh_repo H) i w1 = (x, w')"
      by (auto simp: deleted_def dest: frames(8) split: sum.splits option.splits if_splits prod.splits)
    from frames(5) [OF mark] have "objs w' = objs w1" by simp
    with ev store.Delete_ok [OF del] show ?thesis by auto
  qed
  show "objs w' k = objs w k" if "UnmarshalDelete (msg_Body msg) = Inr ev" "k \<notin> set (de_S3Keys ev)"
  proof -
    obtain d w1 where del: "st_DeleteMany (wh_storage H) (de_S3Keys ev) w = (d, w1)" by fastforce
    from run that(1) del have "w' = w \<or> w' = w1 \<or> (\<exists>i x. hr_MarkFilesRemoved (wh_repo H) i w1 = (x, w'))"
      by (auto simp: deleted_def split: option.splits if_splits prod.splits)
    with frames(5) store.Delete_frame [OF del that(2)] show ?thesis by fastforce
  qed
qed

end

end
