(* ===== verification/Reconciler.thy ===== *)
theory Reconciler
  imports PostgresRepo
begin

text \<open>
  Package \<open>internal/worker/reconciler\<close>: one pass fails the uploads that are stuck, publishes
  again the upload events of avatars still pending, and publishes delete events for records
  whose files are not removed. The ticker loop runs passes until its context ends. Spans and
  logs are left out.
\<close>

section \<open>The reconciler\<close>

record rc_Config =
  rc_Interval :: duration
  rc_StuckAfter :: duration
  rc_Batch :: int

record 'w Reconciler =
  rc_repo :: "'w reconciler_Repository"
  rc_publisher :: "'w Publisher"
  rc_cfg :: rc_Config
  rc_us :: "uuid \<Rightarrow> string"
  rc_NewString :: "'w \<Rightarrow> string \<times> 'w"
  rc_Now :: "'w \<Rightarrow> time \<times> 'w"

text \<open>
  The loop both republishing steps share: \<open>mk\<close> builds the event of an avatar from a message
  id. The result is the number of events published and the error that ended the loop.
\<close>

fun republish ::
  "'w Reconciler \<Rightarrow> (string \<Rightarrow> Avatar \<Rightarrow> Event) \<Rightarrow> (error + Avatar) list \<Rightarrow> nat \<Rightarrow> 'w
     \<Rightarrow> (nat \<times> error option) \<times> 'w" where
  "republish R mk [] published w = ((published, None), w)"
| "republish R mk (Inl err # rest) published w = ((published, Some (wrapf err)), w)"
| "republish R mk (Inr avatar # rest) published w =
     (let (mid, w) = rc_NewString R w
      in case pub_Publish (rc_publisher R) (mk mid avatar) w of
           (Some err, w) \<Rightarrow> ((published, Some (wrapf err)), w)
         | (None, w) \<Rightarrow> republish R mk rest (Suc published) w)"

definition upload_event :: "(uuid \<Rightarrow> string) \<Rightarrow> string \<Rightarrow> Avatar \<Rightarrow> Event" where
  "upload_event us mid avatar =
     UploadEvent (NewUploadEvent us mid (ID avatar) (UserID avatar) (S3Key avatar))"

definition delete_event :: "(uuid \<Rightarrow> string) \<Rightarrow> string \<Rightarrow> Avatar \<Rightarrow> Event" where
  "delete_event us mid avatar = DeleteEvent (NewDeleteEvent us mid (ID avatar) (StorageKeys us avatar))"

definition republishUploads :: "'w Reconciler \<Rightarrow> time \<Rightarrow> 'w \<Rightarrow> (nat \<times> error option) \<times> 'w" where
  "republishUploads R before w =
     (let (items, w) = rr_SelectStuck (rc_repo R) before (rc_Batch (rc_cfg R)) w
      in republish R (upload_event (rc_us R)) items 0 w)"

definition republishCleanups :: "'w Reconciler \<Rightarrow> time \<Rightarrow> 'w \<Rightarrow> (nat \<times> error option) \<times> 'w" where
  "republishCleanups R before w =
     (let (items, w) = rr_SelectUncleaned (rc_repo R) before (rc_Batch (rc_cfg R)) w
      in republish R (delete_event (rc_us R)) items 0 w)"

text \<open>A pass: the three steps run whatever the earlier ones returned.\<close>

definition reconcile :: "'w Reconciler \<Rightarrow> 'w \<Rightarrow> error option \<times> 'w" where
  "reconcile R w =
     (let (now, w) = rc_Now R w;
          before = now - rc_StuckAfter (rc_cfg R);
          (failed, w) = rr_FailStaleUploads (rc_repo R) before w;
          failErr = (case failed of Inl e \<Rightarrow> Some (wrapf e) | Inr _ \<Rightarrow> None);
          ((republished, republishErr), w) = republishUploads R before w;
          ((cleanups, cleanupErr), w) = republishCleanups R before w
      in (errors_Join [failErr, republishErr, cleanupErr], w))"

text \<open>What the \<open>select\<close> of the ticker loop chose, turn by turn.\<close>

datatype turn = RunDone | Tick

fun reconciler_Run :: "'w Reconciler \<Rightarrow> turn list \<Rightarrow> 'w \<Rightarrow> 'w" where
  "reconciler_Run R [] w = w"
| "reconciler_Run R (RunDone # _) w = w"
| "reconciler_Run R (Tick # turns) w = reconciler_Run R turns (snd (reconcile R w))"

section \<open>What it relies on\<close>

locale reconciler_env =
  repo: reconciler_repo "rc_repo R" tbl fair + pub: event_publisher "rc_publisher R" sent up
  for R :: "'w Reconciler" and tbl :: "'w \<Rightarrow> table" and fair :: "'w \<Rightarrow> bool"
    and sent :: "'w \<Rightarrow> content list" and up :: "'w \<Rightarrow> bool" +
  assumes Stuck_keeps: "rr_SelectStuck (rc_repo R) before limit w = (ys, w') \<Longrightarrow>
      sent w' = sent w \<and> up w' = up w"
    and Uncleaned_keeps: "rr_SelectUncleaned (rc_repo R) before limit w = (ys, w') \<Longrightarrow>
      sent w' = sent w \<and> up w' = up w"
    and FailStale_keeps: "rr_FailStaleUploads (rc_repo R) before w = (res, w') \<Longrightarrow>
      sent w' = sent w \<and> up w' = up w"
    and Publish_keeps: "pub_Publish (rc_publisher R) ev w = (err, w') \<Longrightarrow>
      tbl w' = tbl w \<and> fair w' = fair w"
    and NewString_keeps: "rc_NewString R w = (mid, w') \<Longrightarrow>
      tbl w' = tbl w \<and> fair w' = fair w \<and> sent w' = sent w \<and> up w' = up w"
    and Now_keeps: "rc_Now R w = (now, w') \<Longrightarrow>
      tbl w' = tbl w \<and> fair w' = fair w \<and> sent w' = sent w \<and> up w' = up w"

text \<open>
  \<open>announced mk rs extra new\<close>: the contents \<open>new\<close> are those of one event per avatar of
  \<open>rs\<close>, in order; with \<open>extra\<close>, an event for one more avatar may have been taken although
  its publication failed.
\<close>

definition event_of :: "(string \<Rightarrow> Avatar \<Rightarrow> Event) \<Rightarrow> Avatar \<Rightarrow> content \<Rightarrow> bool" where
  "event_of mk a c = (\<exists>mid. c = wire (mk mid a))"

definition announced :: "(string \<Rightarrow> Avatar \<Rightarrow> Event) \<Rightarrow> Avatar list \<Rightarrow> content list \<Rightarrow> bool" where
  "announced mk avs new = list_all2 (event_of mk) avs new"

text \<open>
  A republishing step over the rows \<open>P\<close> selects: oldest first, at most a batch of them, an
  event for each, and without an error the batch is complete.
\<close>

definition batch_sent ::
  "int \<Rightarrow> (row \<Rightarrow> bool) \<Rightarrow> (string \<Rightarrow> Avatar \<Rightarrow> Event) \<Rightarrow> table \<Rightarrow> nat \<Rightarrow> error option \<Rightarrow> content list \<Rightarrow> bool"
where
  "batch_sent batch P mk t n err new \<longleftrightarrow>
     (\<exists>rs. mset rs = mset (filter P t) \<and> sorted (map updated_at rs)
        \<and> n \<le> min (nat batch) (length rs)
        \<and> (err = None \<longrightarrow> n = min (nat batch) (length rs))
        \<and> (announced mk (map scanAvatar (take n rs)) new
           \<or> err \<noteq> None \<and> n < min (nat batch) (length rs)
             \<and> announced mk (map scanAvatar (take (Suc n) rs)) new))"

lemma map_Inr_prefix:
  assumes "map Inr xs @ tail = map Inr avs @ rest" and "tail = [] \<or> (\<exists>e. tail = [Inl e])"
  shows "avs = take (length avs) xs \<and> length avs \<le> length xs
    \<and> (\<forall>a rest'. rest = Inr a # rest' \<longrightarrow> length avs < length xs \<and> avs @ [a] = take (Suc (length avs)) xs)
    \<and> (rest = [] \<longrightarrow> avs = xs \<and> tail = [])"
  using assms
proof (induction xs arbitrary: avs)
  case Nil
  then show ?case by (cases avs) auto
next
  case (Cons x xs)
  then show ?case by (cases avs) auto
qed

lemma batch_sentI:
  assumes sel: "mset rs = mset (filter P t)" "sorted (map updated_at rs)"
      "items = map (\<lambda>r. Inr (scanAvatar r)) (take k (take (nat batch) rs)) @ tail"
      "tail = [] \<and> length (take (nat batch) rs) \<le> k \<or> (\<exists>l. tail = [Inl (wrapf (lib_err l))])"
    and run: "items = map Inr avs @ rest" "err = None \<longleftrightarrow> rest = []"
      "announced mk avs new \<or> (\<exists>a rest'. rest = Inr a # rest' \<and> announced mk (avs @ [a]) new)"
  shows "batch_sent batch P mk t (length avs) err new"
proof -
  let ?xs = "map scanAvatar (take k (take (nat batch) rs))"
  have "map Inr ?xs @ tail = map Inr avs @ rest" using sel(3) run(1) by (simp add: comp_def)
  note pre = map_Inr_prefix [OF this]
  have t: "tail = [] \<or> (\<exists>e. tail = [Inl e])" using sel(4) by auto
  have len: "length ?xs \<le> min (nat batch) (length rs)" by simp
  have tk: "take m ?xs = map scanAvatar (take m rs)" if "m \<le> length ?xs" for m
    using that by (simp add: take_map min_def split: if_splits)
  have avs: "avs = map scanAvatar (take (length avs) rs)" and n: "length avs \<le> min (nat batch) (length rs)"
    using pre [OF t] tk [of "length avs"] len by auto
  have more: "length avs < min (nat batch) (length rs) \<and> avs @ [a] = map scanAvatar (take (Suc (length avs)) rs)"
    if "rest = Inr a # rest'" for a rest'
    using pre [OF t] that tk [of "Suc (length avs)"] len by auto
  have full: "length avs = min (nat batch) (length rs)" if "err = None"
    using pre [OF t] that run(2) sel(4) by auto
  from run(3) have "announced mk (map scanAvatar (take (length avs) rs)) new
      \<or> err \<noteq> None \<and> length avs < min (nat batch) (length rs)
        \<and> announced mk (map scanAvatar (take (Suc (length avs)) rs)) new"
  proof
    assume "announced mk avs new"
    then show ?thesis by (subst (asm) avs) blast
  next
    assume "\<exists>a rest'. rest = Inr a # rest' \<and> announced mk (avs @ [a]) new"
    then obtain a rest' where r: "rest = Inr a # rest'" "announced mk (avs @ [a]) new" by blast
    with run(2) have "err \<noteq> None" by simp
    with more [OF r(1)] r(2) show ?thesis by simp
  qed
  with sel(1,2) n full show ?thesis unfolding batch_sent_def by blast
qed

context reconciler_env
begin

lemma republish_spec:
  assumes "up w" and "republish R mk items n w = ((m, err), w')"
  shows "tbl w' = tbl w \<and> fair w' = fair w \<and> up w'
    \<and> (\<exists>avs rest new. items = map Inr avs @ rest \<and> m = n + length avs \<and> (err = None \<longleftrightarrow> rest = [])
        \<and> sent w' = sent w @ new
        \<and> (announced mk avs new \<or> (\<exists>a rest'. rest = Inr a # rest' \<and> announced mk (avs @ [a]) new)))"
  using assms
proof (induction items arbitrary: n w)
  case Nil
  then show ?case by (auto simp: announced_def)
next
  case (Cons item items)
  show ?case
  proof (cases item)
    case (Inl e)
    with Cons.prems show ?thesis by (auto simp: announced_def intro!: exI [of _ "[]"])
  next
    case (Inr a)
    obtain mid w1 where mid: "rc_NewString R w = (mid, w1)" by fastforce
    note k1 = NewString_keeps [OF mid]
    with Cons.prems have "up w1" by simp
    obtain res w2 where pub: "pub_Publish (rc_publisher R) (mk mid a) w1 = (res, w2)" by fastforce
    note k2 = Publish_keeps [OF pub] pub.Publish_up [OF \<open>up w1\<close> pub]
    have one: "event_of mk a (wire (mk mid a))" by (auto simp: event_of_def)
    show ?thesis
    proof (cases res)
      case None
      with Cons.prems Inr mid pub have run: "republish R mk items (Suc n) w2 = ((m, err), w')" by simp
      from Cons.IH [OF k2(2) run] obtain avs rest new where ih:
        "tbl w' = tbl w2" "fair w' = fair w2" "up w'" "items = map Inr avs @ rest"
        "m = Suc n + length avs" "err = None \<longleftrightarrow> rest = []" "sent w' = sent w2 @ new"
        "announced mk avs new \<or> (\<exists>a rest'. rest = Inr a # rest' \<and> announced mk (avs @ [a]) new)"
        by blast
      from pub.Publish_ok [OF \<open>up w1\<close> pub [unfolded None]] k1
      have "sent w2 = sent w @ [wire (mk mid a)]" by simp
      with ih k1 k2 Inr one show ?thesis
        by (intro conjI exI [of _ "a # avs"] exI [of _ rest] exI [of _ "wire (mk mid a) # new"])
          (auto simp: announced_def)
    next
      case (Some e)
      with Cons.prems Inr mid pub have res: "m = n" "err = Some (wrapf e)" "w' = w2" by simp_all
      from pub.Publish_err [OF \<open>up w1\<close> pub [unfolded Some]] k1
      obtain new where "sent w2 = sent w @ new" "new = [] \<or> new = [wire (mk mid a)]" by auto
      with res k1 k2 Inr one show ?thesis
        by (intro conjI exI [of _ "[]"] exI [of _ "item # items"] exI [of _ new])
          (auto simp: announced_def)
    qed
  qed
qed

lemma republishUploads_spec:
  assumes "fair w" and "up w" and batch: "0 < rc_Batch (rc_cfg R)"
    and "republishUploads R before w = ((n, err), w')"
  shows "fair w' \<and> up w' \<and> db_step\<^sup>*\<^sup>* (tbl w) (tbl w')
    \<and> (\<exists>new. sent w' = sent w @ new
        \<and> batch_sent (rc_Batch (rc_cfg R)) (is_stuck UploadStatusUploaded ProcessingStatusPending before)
            (upload_event (rc_us R)) (tbl w) n err new)"
proof -
  obtain items w1 where sel: "rr_SelectStuck (rc_repo R) before (rc_Batch (rc_cfg R)) w = (items, w1)"
    by fastforce
  with assms(4) have run: "republish R (upload_event (rc_us R)) items 0 w1 = ((n, err), w')"
    by (simp add: republishUploads_def)
  note k = Stuck_keeps [OF sel] repo.Stuck_fair [OF assms(1) sel] repo.Stuck_steps [OF assms(1) sel]
  with assms(2) have "up w1" by simp
  from republish_spec [OF this run] obtain avs rest new where r: "tbl w' = tbl w1" "fair w' = fair w1" "up w'"
    "items = map Inr avs @ rest" "n = length avs" "err = None \<longleftrightarrow> rest = []" "sent w' = sent w1 @ new"
    "announced (upload_event (rc_us R)) avs new
     \<or> (\<exists>a rest'. rest = Inr a # rest' \<and> announced (upload_event (rc_us R)) (avs @ [a]) new)"
    by auto
  from repo.Stuck_ok [OF assms(1) batch sel] batch_sentI [OF _ _ _ _ r(4,6,8)] r(5)
  have "batch_sent (rc_Batch (rc_cfg R)) (is_stuck UploadStatusUploaded ProcessingStatusPending before)
      (upload_event (rc_us R)) (tbl w) n err new" by blast
  with r k show ?thesis by auto
qed

lemma republishCleanups_spec:
  assumes "fair w" and "up w" and batch: "0 < rc_Batch (rc_cfg R)"
    and "republishCleanups R before w = ((n, err), w')"
  shows "fair w' \<and> up w' \<and> db_step\<^sup>*\<^sup>* (tbl w) (tbl w')
    \<and> (\<exists>new. sent w' = sent w @ new
        \<and> batch_sent (rc_Batch (rc_cfg R)) (is_uncleaned before) (delete_event (rc_us R)) (tbl w) n err new)"
proof -
  obtain items w1 where sel: "rr_SelectUncleaned (rc_repo R) before (rc_Batch (rc_cfg R)) w = (items, w1)"
    by fastforce
  with assms(4) have run: "republish R (delete_event (rc_us R)) items 0 w1 = ((n, err), w')"
    by (simp add: republishCleanups_def)
  note k = Uncleaned_keeps [OF sel] repo.Uncleaned_fair [OF assms(1) sel] repo.Uncleaned_steps [OF assms(1) sel]
  with assms(2) have "up w1" by simp
  from republish_spec [OF this run] obtain avs rest new where r: "tbl w' = tbl w1" "fair w' = fair w1" "up w'"
    "items = map Inr avs @ rest" "n = length avs" "err = None \<longleftrightarrow> rest = []" "sent w' = sent w1 @ new"
    "announced (delete_event (rc_us R)) avs new
     \<or> (\<exists>a rest'. rest = Inr a # rest' \<and> announced (delete_event (rc_us R)) (avs @ [a]) new)"
    by auto
  from repo.Uncleaned_ok [OF assms(1) batch sel] batch_sentI [OF _ _ _ _ r(4,6,8)] r(5)
  have "batch_sent (rc_Batch (rc_cfg R)) (is_uncleaned before) (delete_event (rc_us R)) (tbl w) n err new"
    by blast
  with r k show ?thesis by auto
qed

text \<open>
  A pass without an error failed every stale upload and published an event for the oldest
  batch of stuck and of uncleaned rows, whatever the other processes did in between.
\<close>

lemma FailStale_steps:
  assumes "fair w" and "rr_FailStaleUploads (rc_repo R) before w = (res, w')"
  shows "db_step\<^sup>*\<^sup>* (tbl w) (tbl w')"
proof (cases res)
  case (Inl e)
  with assms repo.FailStale_err show ?thesis by blast
next
  case (Inr n)
  with assms repo.FailStale_ok obtain now where
    "db_step\<^sup>*\<^sup>* (fst (failStaleUploadsQuery UploadStatusFailed UploadStatusUploading before now (tbl w))) (tbl w')"
    by blast
  moreover have "db_step\<^sup>*\<^sup>* (tbl w)
      (fst (failStaleUploadsQuery UploadStatusFailed UploadStatusUploading before now (tbl w)))"
    using statement_step [of "StFailStale before" "tbl w" now] by simp
  ultimately show ?thesis by (meson rtranclp_trans)
qed

lemma reconcile_spec:
  assumes fair: "fair w" and up: "up w" and batch: "0 < rc_Batch (rc_cfg R)"
    and run: "reconcile R w = (res, w')"
  shows "fair w' \<and> up w' \<and> (\<exists>before t1 t2 f err1 err2 n1 n2 new1 new2.
      before = fst (rc_Now R w) - rc_StuckAfter (rc_cfg R)
    \<and> db_step\<^sup>*\<^sup>* (tbl w) t1 \<and> db_step\<^sup>*\<^sup>* t1 t2 \<and> db_step\<^sup>*\<^sup>* t2 (tbl w')
    \<and> sent w' = sent w @ new1 @ new2
    \<and> batch_sent (rc_Batch (rc_cfg R)) (is_stuck UploadStatusUploaded ProcessingStatusPending before)
            (upload_event (rc_us R)) t1 n1 err1 new1
    \<and> batch_sent (rc_Batch (rc_cfg R)) (is_uncleaned before) (delete_event (rc_us R)) t2 n2 err2 new2
    \<and> (f = None \<longrightarrow> (\<exists>now. db_step\<^sup>*\<^sup>* (fst (failStaleUploadsQuery UploadStatusFailed
            UploadStatusUploading before now (tbl w))) t1))
    \<and> res = errors_Join [f, err1, err2])"
proof -
  obtain now w0 where now: "rc_Now R w = (now, w0)" by fastforce
  note k0 = Now_keeps [OF now]
  let ?b = "now - rc_StuckAfter (rc_cfg R)"
  obtain fl w1 where fl: "rr_FailStaleUploads (rc_repo R) ?b w0 = (fl, w1)" by fastforce
  obtain n1 err1 w2 where up1: "republishUploads R ?b w1 = ((n1, err1), w2)" by (metis surj_pair)
  obtain n2 err2 w3 where cl: "republishCleanups R ?b w2 = ((n2, err2), w3)" by (metis surj_pair)
  let ?f = "case fl of Inl e \<Rightarrow> Some (wrapf e) | Inr _ \<Rightarrow> None"
  from run now fl up1 cl have res: "res = errors_Join [?f, err1, err2]" "w' = w3"
    by (simp_all add: reconcile_def Let_def split: prod.splits)
  from k0 fair up have "fair w0" "up w0" by simp_all
  note k1 = repo.FailStale_fair [OF \<open>fair w0\<close> fl] FailStale_keeps [OF fl] FailStale_steps [OF \<open>fair w0\<close> fl]
  from k1 \<open>up w0\<close> have "up w1" by simp
  note s1 = republishUploads_spec [OF k1(1) this batch up1]
  then obtain new1 where b1: "sent w2 = sent w1 @ new1"
    "batch_sent (rc_Batch (rc_cfg R)) (is_stuck UploadStatusUploaded ProcessingStatusPending ?b)
       (upload_event (rc_us R)) (tbl w1) n1 err1 new1" by blast
  from s1 have "fair w2" "up w2" by simp_all
  note s2 = republishCleanups_spec [OF this batch cl]
  then obtain new2 where b2: "sent w3 = sent w2 @ new2"
    "batch_sent (rc_Batch (rc_cfg R)) (is_uncleaned ?b) (delete_event (rc_us R)) (tbl w2) n2 err2 new2"
    by blast
  have stale: "\<exists>now. db_step\<^sup>*\<^sup>* (fst (failStaleUploadsQuery UploadStatusFailed
        UploadStatusUploading ?b now (tbl w))) (tbl w1)" if none: "?f = None"
  proof -
    from none obtain n where "fl = Inr n" by (cases fl) auto
    with repo.FailStale_ok [OF \<open>fair w0\<close>] fl k0 show ?thesis by auto
  qed
  have before: "?b = fst (rc_Now R w) - rc_StuckAfter (rc_cfg R)" by (simp add: now)
  have steps: "db_step\<^sup>*\<^sup>* (tbl w) (tbl w1)" "db_step\<^sup>*\<^sup>* (tbl w1) (tbl w2)" "db_step\<^sup>*\<^sup>* (tbl w2) (tbl w')"
    using k0 k1 s1 s2 res(2) by simp_all
  have sent: "sent w' = sent w @ new1 @ new2" using b1(1) b2(1) k0 k1 res(2) by simp
  have "fair w' \<and> up w'" using s2 res(2) by simp
  moreover from before steps sent b1(2) b2(2) stale res(1) have "\<exists>before t1 t2 f err1 err2 n1 n2 new1 new2.
      before = fst (rc_Now R w) - rc_StuckAfter (rc_cfg R)
    \<and> db_step\<^sup>*\<^sup>* (tbl w) t1 \<and> db_step\<^sup>*\<^sup>* t1 t2 \<and> db_step\<^sup>*\<^sup>* t2 (tbl w')
    \<and> sent w' = sent w @ new1 @ new2
    \<and> batch_sent (rc_Batch (rc_cfg R)) (is_stuck UploadStatusUploaded ProcessingStatusPending before)
            (upload_event (rc_us R)) t1 n1 err1 new1
    \<and> batch_sent (rc_Batch (rc_cfg R)) (is_uncleaned before) (delete_event (rc_us R)) t2 n2 err2 new2
    \<and> (f = None \<longrightarrow> (\<exists>now. db_step\<^sup>*\<^sup>* (fst (failStaleUploadsQuery UploadStatusFailed
            UploadStatusUploading before now (tbl w))) t1))
    \<and> res = errors_Join [f, err1, err2]"
    by - (rule exI [of _ ?b], rule exI [of _ "tbl w1"], rule exI [of _ "tbl w2"], rule exI [of _ ?f],
        rule exI [of _ err1], rule exI [of _ err2], rule exI [of _ n1], rule exI [of _ n2],
        rule exI [of _ new1], rule exI [of _ new2], simp)
  ultimately show ?thesis by simp
qed

text \<open>The loop keeps its invariants, so each of its passes has the property above.\<close>

lemma Run_invariant:
  assumes "fair w" and "up w" and "0 < rc_Batch (rc_cfg R)"
  shows "fair (reconciler_Run R turns w) \<and> up (reconciler_Run R turns w)
    \<and> db_step\<^sup>*\<^sup>* (tbl w) (tbl (reconciler_Run R turns w))
    \<and> (\<exists>new. sent (reconciler_Run R turns w) = sent w @ new)"
  using assms
proof (induction turns arbitrary: w)
  case Nil
  then show ?case by simp
next
  case (Cons t turns)
  show ?case
  proof (cases t)
    case RunDone
    with Cons.prems show ?thesis by simp
  next
    case Tick
    obtain res w1 where run: "reconcile R w = (res, w1)" by fastforce
    note sp = reconcile_spec [OF Cons.prems run]
    then have inv: "fair w1" "up w1" by simp_all
    from sp obtain t1 t2 new1 new2 where "db_step\<^sup>*\<^sup>* (tbl w) t1" "db_step\<^sup>*\<^sup>* t1 t2" "db_step\<^sup>*\<^sup>* t2 (tbl w1)"
      and s1: "sent w1 = sent w @ new1 @ new2" by blast
    then have st: "db_step\<^sup>*\<^sup>* (tbl w) (tbl w1)" by (meson rtranclp_trans)
    from Cons.IH [OF inv Cons.prems(3)] obtain new where ih:
      "fair (reconciler_Run R turns w1)" "up (reconciler_Run R turns w1)"
      "db_step\<^sup>*\<^sup>* (tbl w1) (tbl (reconciler_Run R turns w1))" "sent (reconciler_Run R turns w1) = sent w1 @ new"
      by blast
    from st ih(3) have "db_step\<^sup>*\<^sup>* (tbl w) (tbl (reconciler_Run R turns w1))" by (rule rtranclp_trans)
    with Tick run ih s1 show ?thesis by simp
  qed
qed

end

end
