(* ===== verification/World.thy ===== *)
theory World
  imports S3 BrokerConsumer Breaker Service Handler Reconciler
begin

text \<open>
  The two processes put together the way \<open>cmd/server\<close> and \<open>cmd/worker\<close> do it: the world of
  a process (database, storage client, broker client, publisher, breakers, counters), the
  repositories, storage and publisher as operations on that world, and the service, the event
  handler and the reconciler built from them. Whatever clients meet the documented behaviour of
  the storage and of the broker, the three are given what they rely on.
\<close>

section \<open>The world of a process\<close>

text \<open>
  The circuit breakers keep a state \<open>'b\<close> each. Identifiers and the clock come from
  sequences the environment chose; the counters are those of package \<open>metrics\<close>.
\<close>

record ('s, 'c, 'b) world =
  w_pg :: pg
  w_s3 :: 's
  w_mq :: 'c
  w_pub :: pubst
  w_ctx :: pubctx
  w_storage_breaker :: 'b
  w_publisher_breaker :: 'b
  w_uuids :: "nat \<Rightarrow> uuid"
  w_ids :: "nat \<Rightarrow> string"
  w_clock :: "nat \<Rightarrow> time"
  w_count :: nat
  w_slots :: nat
  w_wait :: "nat \<Rightarrow> lib_error option"
  m_uploads :: "string \<Rightarrow> nat"
  m_deletes :: "string \<Rightarrow> nat"
  m_processing :: "string \<Rightarrow> nat"

definition lift_pg :: "(pg \<Rightarrow> 'r \<times> pg) \<Rightarrow> ('s, 'c, 'b) world \<Rightarrow> 'r \<times> ('s, 'c, 'b) world" where
  "lift_pg f w = (let (r, p) = f (w_pg w) in (r, w\<lparr>w_pg := p\<rparr>))"

definition lift_s3 :: "('s \<Rightarrow> 'r \<times> 's) \<Rightarrow> ('s, 'c, 'b) world \<Rightarrow> 'r \<times> ('s, 'c, 'b) world" where
  "lift_s3 f w = (let (r, s) = f (w_s3 w) in (r, w\<lparr>w_s3 := s\<rparr>))"

definition lift_pub ::
  "(pubctx \<Rightarrow> pubst \<times> 'c \<Rightarrow> 'r \<times> pubst \<times> 'c) \<Rightarrow> ('s, 'c, 'b) world \<Rightarrow> 'r \<times> ('s, 'c, 'b) world" where
  "lift_pub f w =
     (let (r, p, c) = f (w_ctx w) (w_pub w, w_mq w) in (r, w\<lparr>w_pub := p, w_mq := c\<rparr>))"

definition tick :: "(nat \<Rightarrow> 'r) \<Rightarrow> ('s, 'c, 'b) world \<Rightarrow> 'r \<times> ('s, 'c, 'b) world" where
  "tick f w = (f (w_count w), w\<lparr>w_count := Suc (w_count w)\<rparr>)"

section \<open>Repositories, storage, publisher\<close>

definition w_service_repo :: "('s, 'c, 'b) world service_Repository" where
  "w_service_repo = \<lparr>sr_Create = (\<lambda>a. lift_pg (pg_Create a)), sr_Get = (\<lambda>i. lift_pg (pg_Get i)),
     sr_GetCurrent = (\<lambda>u. lift_pg (pg_GetCurrent u)), sr_ListByUser = (\<lambda>u. lift_pg (pg_ListByUser u)),
     sr_SetUploadStatus = (\<lambda>i s. lift_pg (pg_SetUploadStatus i s)),
     sr_SoftDelete = (\<lambda>i. lift_pg (pg_SoftDelete i)),
     sr_MarkFilesRemoved = (\<lambda>i. lift_pg (pg_MarkFilesRemoved i))\<rparr>"

definition w_handler_repo :: "('s, 'c, 'b) world handler_Repository" where
  "w_handler_repo = \<lparr>hr_Get = (\<lambda>i. lift_pg (pg_Get i)),
     hr_SetProcessingStatus = (\<lambda>i s. lift_pg (pg_SetProcessingStatus i s)),
     hr_CompleteProcessing = (\<lambda>i keys. lift_pg (pg_CompleteProcessing i keys)),
     hr_IncrementRetry = (\<lambda>i. lift_pg (pg_IncrementRetry i)),
     hr_MarkFilesRemoved = (\<lambda>i. lift_pg (pg_MarkFilesRemoved i))\<rparr>"

definition w_reconciler_repo :: "('s, 'c, 'b) world reconciler_Repository" where
  "w_reconciler_repo = \<lparr>rr_SelectStuck = (\<lambda>before limit. lift_pg (pg_SelectStuck before limit)),
     rr_SelectUncleaned = (\<lambda>before limit. lift_pg (pg_SelectUncleaned before limit)),
     rr_FailStaleUploads = (\<lambda>before. lift_pg (pg_FailStaleUploads before))\<rparr>"

definition w_storage :: "'s s3_Storage \<Rightarrow> ('s, 'c, 'b) world Storage" where
  "w_storage st = \<lparr>st_Put = (\<lambda>k d n ct. lift_s3 (s3_Put st k d n ct)),
     st_Get = (\<lambda>k. lift_s3 (s3_Get st k)), st_DeleteMany = (\<lambda>ks. lift_s3 (s3_DeleteMany st ks))\<rparr>"

definition w_publisher :: "'c amqp \<Rightarrow> ('s, 'c, 'b) world Publisher" where
  "w_publisher C = \<lparr>pub_Publish = (\<lambda>ev. lift_pub (\<lambda>ctx. broker_Publish C ctx ev))\<rparr>"

definition storage_breaker :: "'b gobreaker \<Rightarrow> ('s, 'c, 'b) world breaker" where
  "storage_breaker gb =
     \<lparr>cb_before = (\<lambda>w. let (r, b) = gb_before gb (w_storage_breaker w) in (r, w\<lparr>w_storage_breaker := b\<rparr>)),
      cb_after = (\<lambda>ok w. w\<lparr>w_storage_breaker := gb_after gb ok (w_storage_breaker w)\<rparr>)\<rparr>"

definition publisher_breaker :: "'b gobreaker \<Rightarrow> ('s, 'c, 'b) world breaker" where
  "publisher_breaker gb =
     \<lparr>cb_before = (\<lambda>w. let (r, b) = gb_before gb (w_publisher_breaker w) in (r, w\<lparr>w_publisher_breaker := b\<rparr>)),
      cb_after = (\<lambda>ok w. w\<lparr>w_publisher_breaker := gb_after gb ok (w_publisher_breaker w)\<rparr>)\<rparr>"

section \<open>Metrics and decode slots\<close>

definition status_label :: "bool \<Rightarrow> string" where
  "status_label success = (if success then ''success'' else ''error'')"

definition inc :: "string \<Rightarrow> (string \<Rightarrow> nat) \<Rightarrow> string \<Rightarrow> nat" where
  "inc l m = m(l := Suc (m l))"

definition ObserveUpload :: "bool \<Rightarrow> ('s, 'c, 'b) world \<Rightarrow> ('s, 'c, 'b) world" where
  "ObserveUpload success w = w\<lparr>m_uploads := inc (status_label success) (m_uploads w)\<rparr>"

definition IncDelete :: "bool \<Rightarrow> ('s, 'c, 'b) world \<Rightarrow> ('s, 'c, 'b) world" where
  "IncDelete success w = w\<lparr>m_deletes := inc (status_label success) (m_deletes w)\<rparr>"

definition ObserveProcessing :: "bool \<Rightarrow> ('s, 'c, 'b) world \<Rightarrow> ('s, 'c, 'b) world" where
  "ObserveProcessing success w = w\<lparr>m_processing := inc (status_label success) (m_processing w)\<rparr>"

text \<open>
  Sending into the channel of decode slots, or the context's end first; the receive that frees
  the slot. \<open>w_slots\<close> is the number of slots this goroutine holds.
\<close>

definition acquire_slot :: "('s, 'c, 'b) world \<Rightarrow> lib_error option \<times> ('s, 'c, 'b) world" where
  "acquire_slot w =
     (case tick (w_wait w) w of
        (Some l, w) \<Rightarrow> (Some l, w)
      | (None, w) \<Rightarrow> (None, w\<lparr>w_slots := Suc (w_slots w)\<rparr>))"

definition release_slot :: "('s, 'c, 'b) world \<Rightarrow> ('s, 'c, 'b) world" where
  "release_slot w = w\<lparr>w_slots := w_slots w - 1\<rparr>"

section \<open>The processes\<close>

text \<open>
  What \<open>setup\<close> opened and what the configuration gives: the storage, the broker's client, the
  breaker, the image codec, the placeholder's bytes and digest, and \<open>google/uuid\<close>.
\<close>

record ('s, 'c, 'b, 'img) deps =
  d_storage :: "'s s3_Storage"
  d_amqp :: "'c amqp"
  d_breaker :: "'b gobreaker"
  d_codec :: "'img codec"
  d_used :: "stream \<Rightarrow> nat"
  d_image :: Processor
  d_maxUploadBytes :: int
  d_png :: bytes
  d_digest :: string
  d_reconcile :: rc_Config
  d_us :: "uuid \<Rightarrow> string"
  d_up :: "string \<Rightarrow> uuid option"

text \<open>\<open>router\<close> of the server: breakers stand before the storage and the publisher.\<close>

definition server_service :: "('s, 'c, 'b, 'img) deps \<Rightarrow> ('s, 'c, 'b) world Service" where
  "server_service D =
     \<lparr>svc_repo = w_service_repo,
      svc_storage = breaker_Storage (storage_breaker (d_breaker D)) (w_storage (d_storage D)),
      svc_publisher = breaker_Publisher (publisher_breaker (d_breaker D)) (w_publisher (d_amqp D)),
      svc_validator = Validate (d_codec D) (d_used D) (d_image D),
      svc_placeholder = placeholder_New (d_png D) (d_digest D),
      svc_metrics = \<lparr>m_ObserveUpload = ObserveUpload, m_IncDelete = IncDelete\<rparr>,
      svc_us = d_us D,
      svc_NewUUID = (\<lambda>w. tick (w_uuids w) w),
      svc_NewString = (\<lambda>w. tick (w_ids w) w)\<rparr>"

text \<open>\<open>handler\<close> and \<open>reconciler\<close> of the worker, straight on the dependencies.\<close>

definition worker_handler :: "('s, 'c, 'b, 'img) deps \<Rightarrow> ('s, 'c, 'b) world WorkerHandler" where
  "worker_handler D =
     \<lparr>wh_repo = w_handler_repo, wh_storage = w_storage (d_storage D),
      wh_Thumbnails = Thumbnails (d_codec D) (d_image D), wh_maxOriginalBytes = d_maxUploadBytes D,
      wh_acquire = acquire_slot, wh_release = release_slot, wh_ObserveProcessing = ObserveProcessing,
      wh_us = d_us D, wh_up = d_up D\<rparr>"

definition worker_reconciler :: "('s, 'c, 'b, 'img) deps \<Rightarrow> ('s, 'c, 'b) world Reconciler" where
  "worker_reconciler D =
     \<lparr>rc_repo = w_reconciler_repo, rc_publisher = w_publisher (d_amqp D), rc_cfg = d_reconcile D,
      rc_us = d_us D, rc_NewString = (\<lambda>w. tick (w_ids w) w), rc_Now = (\<lambda>w. tick (w_clock w) w)\<rparr>"

section \<open>What each operation leaves alone\<close>

definition w_tbl :: "('s, 'c, 'b) world \<Rightarrow> table" where "w_tbl w = snapshot (w_pg w)"
definition w_fair :: "('s, 'c, 'b) world \<Rightarrow> bool" where "w_fair w = pg_fair (w_pg w)"

text \<open>The objects in the bucket, the events the broker took, the publisher's invariant.\<close>

definition w_objs :: "('s \<Rightarrow> string \<rightharpoonup> blob) \<Rightarrow> ('s, 'c, 'b) world \<Rightarrow> string \<rightharpoonup> blob" where
  "w_objs objs w = objs (w_s3 w)"
definition w_sent :: "('c \<Rightarrow> mq_view) \<Rightarrow> ('s, 'c, 'b) world \<Rightarrow> content list" where
  "w_sent obs w = events_sent (obs (w_mq w))"
definition w_up :: "('c \<Rightarrow> mq_view) \<Rightarrow> ('s, 'c, 'b) world \<Rightarrow> bool" where
  "w_up obs w = pub_inv obs (w_pub w, w_mq w)"

lemmas view_defs = w_tbl_def w_fair_def w_objs_def w_sent_def w_up_def

lemma lift_pgD: "lift_pg f w = (r, w') \<Longrightarrow> f (w_pg w) = (r, w_pg w')"
  by (auto simp: lift_pg_def split: prod.splits)

lemma lift_s3D: "lift_s3 f w = (r, w') \<Longrightarrow> f (w_s3 w) = (r, w_s3 w')"
  by (auto simp: lift_s3_def split: prod.splits)

lemma lift_pubD: "lift_pub f w = (r, w') \<Longrightarrow> f (w_ctx w) (w_pub w, w_mq w) = (r, w_pub w', w_mq w')"
  by (auto simp: lift_pub_def split: prod.splits)

lemma lift_keeps:
  "keeps (\<lambda>w. (w_objs objs w, w_sent obs w, w_up obs w)) (lift_pg f)"
  "keeps (w_objs objs) (lift_pg f)"
  "keeps (\<lambda>w. (w_tbl w, w_fair w, w_sent obs w, w_up obs w)) (lift_s3 g)"
  "keeps (\<lambda>w. (w_tbl w, w_fair w)) (lift_s3 g)"
  "keeps (\<lambda>w. (w_tbl w, w_fair w, w_objs objs w)) (lift_pub h)"
  "keeps (\<lambda>w. (w_tbl w, w_fair w, w_objs objs w, w_sent obs w, w_up obs w)) (\<lambda>w. tick (k w) w)"
  by (simp_all add: keeps_def lift_pg_def lift_s3_def lift_pub_def tick_def view_defs split: prod.splits)

lemma execute_keeps:
  assumes "keeps f fn" and "breaker_keeps f cb"
  shows "keeps f (execute_err cb fn)"
  using assms by (auto simp: keeps_def execute_err_def breaker_keeps_def Let_def split: prod.splits option.splits)
    (metis snd_conv)+

lemma execute_val_keeps:
  assumes "keeps f fn" and "breaker_keeps f cb"
  shows "keeps f (execute_val cb fn)"
  using assms by (auto simp: keeps_def execute_val_def breaker_keeps_def Let_def split: prod.splits option.splits)
    (metis snd_conv)+

lemma breakers_keep:
  "breaker_keeps (\<lambda>w. (w_tbl w, w_fair w, w_sent obs w, w_up obs w)) (storage_breaker gb)"
  "breaker_keeps (w_objs objs) (storage_breaker gb)"
  "breaker_keeps (\<lambda>w. (w_sent obs w, w_up obs w)) (publisher_breaker gb)"
  "breaker_keeps (\<lambda>w. (w_tbl w, w_fair w, w_objs objs w)) (publisher_breaker gb)"
  by (simp_all add: breaker_keeps_def storage_breaker_def publisher_breaker_def view_defs split: prod.splits)

lemma slot_keeps:
  "keeps (\<lambda>w. (w_tbl w, w_fair w, w_objs objs w)) acquire_slot"
  "keeps (\<lambda>w. (w_tbl w, w_fair w, w_objs objs w)) (\<lambda>w. ((), release_slot w))"
  by (simp_all add: keeps_def acquire_slot_def release_slot_def tick_def view_defs split: option.splits)

lemma metrics_keep:
  "keeps (\<lambda>w. (w_tbl w, w_fair w, w_objs objs w, w_sent obs w, w_up obs w)) (\<lambda>w. ((), ObserveUpload b w))"
  "keeps (\<lambda>w. (w_tbl w, w_fair w, w_objs objs w, w_sent obs w, w_up obs w)) (\<lambda>w. ((), IncDelete b w))"
  "keeps (\<lambda>w. (w_tbl w, w_fair w, w_objs objs w)) (\<lambda>w. ((), ObserveProcessing b w))"
  by (simp_all add: keeps_def ObserveUpload_def IncDelete_def ObserveProcessing_def view_defs)

section \<open>The contracts on the world\<close>

lemma transition_world:
  "transition_law snapshot i P f (w_pg w) res (w_pg w') \<Longrightarrow> transition_law w_tbl i P f w res w'"
  unfolding transition_law_def w_tbl_def .

lemma w_reads: "reads_avatar (\<lambda>i. lift_pg (pg_Get i)) w_tbl w_fair"
  by unfold_locales
    (auto simp: w_tbl_def w_fair_def dest!: lift_pgD
      dest: pg_reads.Get_fair pg_reads.Get_steps pg_reads.Get_ok pg_reads.Get_err)

lemma w_marks: "marks_files (\<lambda>i. lift_pg (pg_MarkFilesRemoved i)) w_tbl w_fair"
  by unfold_locales
    (auto simp: w_tbl_def w_fair_def dest!: lift_pgD
      dest: pg_marks.Mark_fair pg_marks.Mark_steps pg_marks.Mark_ok pg_marks.Mark_err)

lemma w_service_repo_ops:
  "sr_Create w_service_repo = (\<lambda>a. lift_pg (pg_Create a))"
  "sr_Get w_service_repo = (\<lambda>i. lift_pg (pg_Get i))"
  "sr_GetCurrent w_service_repo = (\<lambda>u. lift_pg (pg_GetCurrent u))"
  "sr_ListByUser w_service_repo = (\<lambda>u. lift_pg (pg_ListByUser u))"
  "sr_SetUploadStatus w_service_repo = (\<lambda>i s. lift_pg (pg_SetUploadStatus i s))"
  "sr_SoftDelete w_service_repo = (\<lambda>i. lift_pg (pg_SoftDelete i))"
  "sr_MarkFilesRemoved w_service_repo = (\<lambda>i. lift_pg (pg_MarkFilesRemoved i))"
  by (simp_all add: w_service_repo_def)

lemma w_handler_repo_ops:
  "hr_Get w_handler_repo = (\<lambda>i. lift_pg (pg_Get i))"
  "hr_SetProcessingStatus w_handler_repo = (\<lambda>i s. lift_pg (pg_SetProcessingStatus i s))"
  "hr_CompleteProcessing w_handler_repo = (\<lambda>i keys. lift_pg (pg_CompleteProcessing i keys))"
  "hr_IncrementRetry w_handler_repo = (\<lambda>i. lift_pg (pg_IncrementRetry i))"
  "hr_MarkFilesRemoved w_handler_repo = (\<lambda>i. lift_pg (pg_MarkFilesRemoved i))"
  by (simp_all add: w_handler_repo_def)

lemma w_reconciler_repo_ops:
  "rr_SelectStuck w_reconciler_repo = (\<lambda>before limit. lift_pg (pg_SelectStuck before limit))"
  "rr_SelectUncleaned w_reconciler_repo = (\<lambda>before limit. lift_pg (pg_SelectUncleaned before limit))"
  "rr_FailStaleUploads w_reconciler_repo = (\<lambda>before. lift_pg (pg_FailStaleUploads before))"
  by (simp_all add: w_reconciler_repo_def)

lemmas pg_svc_laws = pg_svc.Create_fair pg_svc.Create_ok pg_svc.Create_err pg_svc.SetUpload_fair
  pg_svc.SetUpload_law pg_svc.SoftDelete_fair pg_svc.SoftDelete_steps pg_svc.SoftDelete_ok
  pg_svc.SoftDelete_err pg_svc.GetCurrent_fair pg_svc.GetCurrent_steps pg_svc.GetCurrent_ok
  pg_svc.GetCurrent_err pg_svc.List_fair pg_svc.List_ok

interpretation w_svc: service_repo w_service_repo w_tbl w_fair
proof (intro service_repo.intro service_repo_axioms.intro, unfold w_service_repo_ops)
  show "reads_avatar (\<lambda>i. lift_pg (pg_Get i)) w_tbl w_fair" by (rule w_reads)
  show "marks_files (\<lambda>i. lift_pg (pg_MarkFilesRemoved i)) w_tbl w_fair" by (rule w_marks)
qed (drule lift_pgD, (rule transition_world)?, unfold w_tbl_def w_fair_def,
     rule pg_svc_laws [unfolded pg_service_repo_ops]; assumption)+

interpretation w_hdl: handler_repo w_handler_repo w_tbl w_fair
proof (intro handler_repo.intro handler_repo_axioms.intro, unfold w_handler_repo_ops)
  show "reads_avatar (\<lambda>i. lift_pg (pg_Get i)) w_tbl w_fair" by (rule w_reads)
  show "marks_files (\<lambda>i. lift_pg (pg_MarkFilesRemoved i)) w_tbl w_fair" by (rule w_marks)
qed (drule lift_pgD, (rule transition_world)?, unfold w_tbl_def w_fair_def,
     rule pg_SetProcessingStatus_law pg_CompleteProcessing_law [THEN conjunct1]
       pg_CompleteProcessing_law [THEN conjunct2] pg_IncrementRetry_spec [THEN conjunct1]
       pg_IncrementRetry_spec [THEN conjunct2]; assumption)+

interpretation w_rec: reconciler_repo "w_reconciler_repo :: ('s, 'c, 'b) world reconciler_Repository" w_tbl w_fair
proof (intro reconciler_repo.intro, unfold w_reconciler_repo_ops)
  fix before limit :: int and w :: "('s, 'c, 'b) world"
  assume "limit \<le> 0"
  then show "lift_pg (pg_SelectStuck before limit) w = ([Inl ErrText], w)"
    and "lift_pg (pg_SelectUncleaned before limit) w = ([Inl ErrText], w)"
    by (simp_all add: lift_pg_def pg_Select_limit)
qed (drule lift_pgD, unfold w_tbl_def w_fair_def,
     rule pg_rec.Stuck_fair [unfolded pg_reconciler_repo_ops] pg_rec.Stuck_ok [unfolded pg_reconciler_repo_ops]
       pg_rec.Stuck_steps [unfolded pg_reconciler_repo_ops] pg_rec.Uncleaned_fair [unfolded pg_reconciler_repo_ops]
       pg_rec.Uncleaned_ok [unfolded pg_reconciler_repo_ops] pg_rec.Uncleaned_steps [unfolded pg_reconciler_repo_ops]
       pg_rec.FailStale_fair [unfolded pg_reconciler_repo_ops] pg_rec.FailStale_ok [unfolded pg_reconciler_repo_ops]
       pg_rec.FailStale_err [unfolded pg_reconciler_repo_ops]; assumption)+

section \<open>Any documented client will do\<close>

locale deployment =
  store: minio_client MC bucket objs + mq: amqp_client AC obs
  for MC :: "'s minio" and bucket :: string and objs :: "'s \<Rightarrow> string \<rightharpoonup> blob"
    and AC :: "'c amqp" and obs :: "'c \<Rightarrow> mq_view"
begin

lemma w_storage_ops:
  "st_Put (w_storage st) k d n ct = lift_s3 (s3_Put st k d n ct)"
  "st_Get (w_storage st) k = lift_s3 (s3_Get st k)"
  "st_DeleteMany (w_storage st) ks = lift_s3 (s3_DeleteMany st ks)"
  by (simp_all add: w_storage_def)

lemmas s3_laws =
  store.Put_ok store.Put_frame store.Put_err_sentinel store.Get_objs store.Get_ok store.Get_err
  store.Get_err_sentinel store.Delete_ok store.Delete_frame store.Delete_shrinks store.Delete_err_sentinel

lemma w_store: "object_store (w_storage \<lparr>s3_client = MC, s3_bucket = bucket\<rparr>) (w_objs objs)"
  by (intro object_store.intro; unfold w_storage_ops w_objs_def; drule lift_s3D;
      rule s3_laws [unfolded s3_storage_def Storage.simps]; assumption)

lemma w_Publish_spec:
  assumes up: "w_up obs w" and "pub_Publish (w_publisher AC) ev w = (res, w')"
  shows "w_up obs w'
    \<and> (res = None \<longrightarrow> w_sent obs w' = w_sent obs w @ [wire ev])
    \<and> (\<forall>e. res = Some e \<longrightarrow> w_sent obs w' = w_sent obs w \<or> w_sent obs w' = w_sent obs w @ [wire ev])
    \<and> (\<forall>e sn. res = Some e \<longrightarrow> errors_Is e sn \<longrightarrow> sn \<in> {ErrUnavailable, ErrCanceled, ErrDeadlineExceeded})"
proof -
  from assms(2) have run: "broker_Publish AC (w_ctx w) ev (w_pub w, w_mq w) = (res, w_pub w', w_mq w')"
    by (auto simp: w_publisher_def dest: lift_pubD)
  from mq.Publish_spec [OF up [unfolded w_up_def] run] show ?thesis by (simp add: w_up_def w_sent_def)
qed

lemma w_pub: "event_publisher (w_publisher AC :: ('s, 'c, 'b) world Publisher) (w_sent obs) (w_up obs)"
  by (intro event_publisher.intro; drule (1) w_Publish_spec; blast)

end

locale deployed = deployment MC bucket objs AC obs
  for MC :: "'s minio" and bucket :: string and objs :: "'s \<Rightarrow> string \<rightharpoonup> blob"
    and AC :: "'c amqp" and obs :: "'c \<Rightarrow> mq_view" +
  fixes D :: "('s, 'c, 'b, 'img) deps"
  assumes storage: "d_storage D = \<lparr>s3_client = MC, s3_bucket = bucket\<rparr>" and amqp: "d_amqp D = AC"

text \<open>The breakers in front of the storage and of the publisher.\<close>

sublocale deployed \<subseteq> cb_store: guarded_store
  "w_storage (d_storage D) :: ('s, 'c, 'b) world Storage" "w_objs objs" "storage_breaker (d_breaker D)"
  by (intro guarded_store.intro guarded_store_axioms.intro)
    (simp_all only: storage w_store breakers_keep)

sublocale deployed \<subseteq> cb_pub: guarded_publisher
  "w_publisher (d_amqp D) :: ('s, 'c, 'b) world Publisher" "w_sent obs" "w_up obs"
  "publisher_breaker (d_breaker D)"
  by (intro guarded_publisher.intro guarded_publisher_axioms.intro)
    (simp_all only: amqp w_pub breakers_keep)


section \<open>The three components have what they rely on\<close>

lemma server_service_ops:
  "svc_repo (server_service D) = w_service_repo"
  "svc_storage (server_service D) = breaker_Storage (storage_breaker (d_breaker D)) (w_storage (d_storage D))"
  "svc_publisher (server_service D) =
     breaker_Publisher (publisher_breaker (d_breaker D)) (w_publisher (d_amqp D))"
  "svc_NewUUID (server_service D) = (\<lambda>w. tick (w_uuids w) w)"
  "svc_NewString (server_service D) = (\<lambda>w. tick (w_ids w) w)"
  "svc_metrics (server_service D) = \<lparr>m_ObserveUpload = ObserveUpload, m_IncDelete = IncDelete\<rparr>"
  "svc_us (server_service D) = d_us D"
  "svc_validator (server_service D) = Validate (d_codec D) (d_used D) (d_image D)"
  by (simp_all add: server_service_def)

lemma breaker_Storage_ops:
  "st_Put (breaker_Storage cb S) k d n ct = execute_err cb (st_Put S k d n ct)"
  "st_Get (breaker_Storage cb S) k = execute_val cb (st_Get S k)"
  "st_DeleteMany (breaker_Storage cb S) ks = execute_err cb (st_DeleteMany S ks)"
  "pub_Publish (breaker_Publisher cb P) ev = execute_err cb (pub_Publish P ev)"
  by (simp_all add: breaker_Storage_def breaker_Publisher_def)

lemma w_ops:
  "st_Put (w_storage st) k d n ct = lift_s3 (s3_Put st k d n ct)"
  "st_Get (w_storage st) k = lift_s3 (s3_Get st k)"
  "st_DeleteMany (w_storage st) ks = lift_s3 (s3_DeleteMany st ks)"
  "pub_Publish (w_publisher C) ev = lift_pub (\<lambda>ctx. broker_Publish C ctx ev)"
  by (simp_all add: w_storage_def w_publisher_def)

sublocale deployed \<subseteq> svc: service_env "server_service D" w_tbl w_fair "w_objs objs" "w_sent obs" "w_up obs"
  by (intro service_env.intro service_env_axioms.intro; unfold server_service_ops breaker_Storage_ops
        w_ops w_service_repo_ops Metrics.simps;
      (rule w_svc.service_repo_axioms cb_store.guarded.object_store_axioms
         cb_pub.guarded.event_publisher_axioms)?;
      intro lift_keeps metrics_keep execute_keeps execute_val_keeps breakers_keep)

lemma worker_handler_ops:
  "wh_repo (worker_handler D) = w_handler_repo" "wh_storage (worker_handler D) = w_storage (d_storage D)"
  "wh_acquire (worker_handler D) = acquire_slot" "wh_release (worker_handler D) = release_slot"
  "wh_ObserveProcessing (worker_handler D) = ObserveProcessing" "wh_us (worker_handler D) = d_us D"
  "wh_up (worker_handler D) = d_up D" "wh_maxOriginalBytes (worker_handler D) = d_maxUploadBytes D"
  "wh_Thumbnails (worker_handler D) = Thumbnails (d_codec D) (d_image D)"
  by (simp_all add: worker_handler_def)

sublocale deployed \<subseteq> hdl: handler_env "worker_handler D" w_tbl w_fair "w_objs objs"
  by (intro handler_env.intro handler_env_axioms.intro; unfold worker_handler_ops w_ops w_handler_repo_ops;
      (rule w_hdl.handler_repo_axioms cb_store.object_store_axioms)?;
      intro lift_keeps metrics_keep slot_keeps)

lemma worker_reconciler_ops:
  "rc_repo (worker_reconciler D) = w_reconciler_repo" "rc_publisher (worker_reconciler D) = w_publisher (d_amqp D)"
  "rc_NewString (worker_reconciler D) = (\<lambda>w. tick (w_ids w) w)"
  "rc_Now (worker_reconciler D) = (\<lambda>w. tick (w_clock w) w)"
  "rc_cfg (worker_reconciler D) = d_reconcile D" "rc_us (worker_reconciler D) = d_us D"
  by (simp_all add: worker_reconciler_def)

lemma lift_pg_keeps_sent: "lift_pg f w = (r, w') \<Longrightarrow> w_sent obs w' = w_sent obs w \<and> w_up obs w' = w_up obs w"
  using lift_keeps(1) [THEN keepsD] by fastforce

lemma lift_pub_keeps_tbl: "lift_pub f w = (r, w') \<Longrightarrow> w_tbl w' = w_tbl w \<and> w_fair w' = w_fair w"
  using lift_keeps(5) [THEN keepsD] by fastforce

lemma tick_keeps_all:
  "tick (k w) w = (r, w') \<Longrightarrow>
     w_tbl w' = w_tbl w \<and> w_fair w' = w_fair w \<and> w_sent obs w' = w_sent obs w \<and> w_up obs w' = w_up obs w"
  using lift_keeps(6) [THEN keepsD] by fastforce

sublocale deployed \<subseteq> rec: reconciler_env "worker_reconciler D" w_tbl w_fair "w_sent obs" "w_up obs"
  by (intro reconciler_env.intro reconciler_env_axioms.intro; unfold worker_reconciler_ops w_ops w_reconciler_repo_ops;
      (rule w_rec.reconciler_repo_axioms cb_pub.event_publisher_axioms lift_pg_keeps_sent
         lift_pub_keeps_tbl tick_keeps_all; assumption?)?)

section \<open>The facts of the components, on the deployed processes\<close>

context deployed
begin

lemmas svc_Upload_ok = svc.Upload_ok
lemmas svc_Upload_any = svc.Upload_any
lemmas svc_Delete = svc.Delete_spec
lemmas svc_UserAvatarContent = svc.UserAvatarContent_spec
lemmas svc_ListByUser = svc.ListByUser_ok
lemmas hdl_settles = hdl.uploaded_settles
lemmas hdl_steps = hdl.uploaded_steps
lemmas hdl_process = hdl.process_avatar_spec
lemmas hdl_deleted = hdl.deleted_spec
lemmas hdl_readOriginal = hdl.readOriginal_spec
lemmas rec_reconcile = rec.reconcile_spec
lemmas rec_Run = rec.Run_invariant
lemmas guarded_storage = cb_store.is_object_store

end

end
