(* ===== verification/AmqpServer.thy ===== *)
theory AmqpServer
  imports Amqp
begin

text \<open>
  A broker in memory that meets the interface \<open>amqp_client\<close>: declared exchanges, queues and
  bindings, direct and topic routing, publisher confirms, returned messages, deliveries with
  acknowledgement, dead-lettering with the \<open>x-death\<close> history. Every request may fail before or
  after its effect, and a confirmation may be lost.
\<close>

section \<open>Routing\<close>

fun words_of :: "string \<Rightarrow> string list" where
  "words_of [] = [[]]"
| "words_of (c # s) =
     (if c = CHR ''.'' then [] # words_of s
      else case words_of s of w # ws \<Rightarrow> (c # w) # ws | [] \<Rightarrow> [[c]])"

fun topic_match :: "string list \<Rightarrow> string list \<Rightarrow> bool" where
  "topic_match [] ws = (ws = [])"
| "topic_match (p # ps) [] = (p = ''#'' \<and> topic_match ps [])"
| "topic_match (p # ps) (w # ws) =
     (if p = ''#'' then topic_match ps (w # ws) \<or> topic_match (p # ps) ws
      else (p = ''*'' \<or> p = w) \<and> topic_match ps ws)"

definition key_match :: "string \<Rightarrow> string \<Rightarrow> string \<Rightarrow> bool" where
  "key_match kind pattern key =
     (if kind = ''topic'' then topic_match (words_of pattern) (words_of key) else pattern = key)"

record amqp_server =
  as_exchanges :: "string \<rightharpoonup> string"
  as_queues :: "string \<rightharpoonup> amqp_table"
  as_bindings :: "(string \<times> string \<times> string) list"
  as_ready :: "(string \<times> string \<times> Publishing) list"
  as_pending :: "((nat \<times> nat) \<times> string \<times> string \<times> Publishing) list"
  as_closed :: "nat list"
  as_confirms :: "nat list"
  as_listens :: "nat list"
  as_returned :: "nat list"
  as_routed :: "(string \<times> string \<times> Publishing) list"
  as_answers :: "(amqp_error + bool) list"
  as_conn_closed :: bool
  as_fault :: "nat \<Rightarrow> fault"
  as_tick :: nat

definition as_next :: "amqp_server \<Rightarrow> amqp_server" where
  "as_next s = s\<lparr>as_tick := Suc (as_tick s)\<rparr>"

text \<open>The queues a message goes into, each at most once.\<close>

definition queues_for :: "amqp_server \<Rightarrow> string \<Rightarrow> string \<Rightarrow> string list" where
  "queues_for s e key =
     (case as_exchanges s e of
        None \<Rightarrow> []
      | Some kind \<Rightarrow>
          remdups (map (\<lambda>(_, _, q). q)
            (filter (\<lambda>(e', pattern, q). e' = e \<and> key_match kind pattern key) (as_bindings s))))"

definition enqueue :: "string \<Rightarrow> string \<Rightarrow> Publishing \<Rightarrow> amqp_server \<Rightarrow> amqp_server" where
  "enqueue e key m s =
     s\<lparr>as_ready := as_ready s @ map (\<lambda>q. (q, key, m)) (queues_for s e key)\<rparr>"

text \<open>One more death in the history: the entry of queue and reason moves to the front.\<close>

fun same_death :: "string \<Rightarrow> string \<Rightarrow> amqp_value \<Rightarrow> bool" where
  "same_death q reason (VTable t) =
     (table_get t ''queue'' = Some (VString q) \<and> table_get t ''reason'' = Some (VString reason))"
| "same_death q reason _ = False"

fun death_count :: "amqp_value \<Rightarrow> 64 word" where
  "death_count (VTable t) = (case table_get t ''count'' of Some (VInt64 n) \<Rightarrow> n | _ \<Rightarrow> 0)"
| "death_count _ = 0"

definition add_death :: "string \<Rightarrow> string \<Rightarrow> Publishing \<Rightarrow> Publishing" where
  "add_death q reason m =
     (let old = (case table_get (Headers m) ''x-death'' of Some (VList es) \<Rightarrow> es | _ \<Rightarrow> []);
          n = (case find (same_death q reason) old of None \<Rightarrow> 0 | Some e \<Rightarrow> death_count e);
          entry = VTable [(''queue'', VString q), (''reason'', VString reason),
                          (''count'', VInt64 (n + 1))]
      in m\<lparr>Headers := table_put ''x-death''
             (VList (entry # filter (\<lambda>e. \<not> same_death q reason e) old)) (Headers m)\<rparr>)"

text \<open>A message leaves queue \<open>q\<close> through its dead-letter exchange, or is dropped.\<close>

definition dead_letter :: "string \<Rightarrow> string \<Rightarrow> string \<Rightarrow> Publishing \<Rightarrow> amqp_server \<Rightarrow> amqp_server" where
  "dead_letter reason q key m s =
     (case as_queues s q of
        None \<Rightarrow> s
      | Some args \<Rightarrow>
          (case table_get args ''x-dead-letter-exchange'' of
             Some (VString x) \<Rightarrow>
               enqueue x (case table_get args ''x-dead-letter-routing-key'' of Some (VString k) \<Rightarrow> k | _ \<Rightarrow> key)
                 (add_death q reason m) s
           | _ \<Rightarrow> s))"

section \<open>Requests\<close>

fun take_pending :: "nat \<times> nat \<Rightarrow> ((nat \<times> nat) \<times> 'a) list \<Rightarrow> ((nat \<times> nat) \<times> 'a) list" where
  "take_pending ct [] = []"
| "take_pending ct (x # xs) = (if fst x = ct then xs else x # take_pending ct xs)"

definition as_channel :: "amqp_server \<Rightarrow> (amqp_error + nat) \<times> amqp_server" where
  "as_channel s =
     (if as_conn_closed s then (Inl AmqpClosed, as_next s)
      else case as_fault s (as_tick s) of
        NoFault \<Rightarrow>
          (Inr (Suc (sum_list (as_closed s @ as_confirms s @ as_listens s
                       @ map (\<lambda>x. fst (fst x)) (as_pending s)))), as_next s)
      | FailBefore l \<Rightarrow> (Inl (AmqpLib l), as_next s)
      | FailAfter _ l \<Rightarrow> (Inl (AmqpLib l), as_next s))"

definition as_close :: "nat \<Rightarrow> amqp_server \<Rightarrow> amqp_error option \<times> amqp_server" where
  "as_close ch s =
     (if ch \<in> set (as_closed s) then (Some AmqpClosed, s)
      else let mine = filter (\<lambda>x. fst (fst x) = ch) (as_pending s)
           in (case as_fault s (as_tick s) of
                 NoFault \<Rightarrow> None | FailBefore l \<Rightarrow> Some (AmqpLib l) | FailAfter _ l \<Rightarrow> Some (AmqpLib l),
               as_next (s\<lparr>as_closed := ch # as_closed s,
                  as_ready := map snd mine @ as_ready s,
                  as_pending := filter (\<lambda>x. fst (fst x) \<noteq> ch) (as_pending s),
                  as_confirms := removeAll ch (as_confirms s),
                  as_listens := removeAll ch (as_listens s),
                  as_returned := removeAll ch (as_returned s)\<rparr>)))"

text \<open>A request with the effect \<open>f\<close>, under the fault of the moment.\<close>

definition as_request :: "(amqp_server \<Rightarrow> amqp_server) \<Rightarrow> amqp_server \<Rightarrow> amqp_error option \<times> amqp_server" where
  "as_request f s =
     (case as_fault s (as_tick s) of
        NoFault \<Rightarrow> (None, as_next (f s))
      | FailBefore l \<Rightarrow> (Some (AmqpLib l), as_next s)
      | FailAfter _ l \<Rightarrow> (Some (AmqpLib l), as_next (f s)))"

definition as_confirm :: "nat \<Rightarrow> amqp_server \<Rightarrow> amqp_error option \<times> amqp_server" where
  "as_confirm ch = as_request (\<lambda>s. s\<lparr>as_confirms := ch # as_confirms s\<rparr>)"

definition as_notify :: "nat \<Rightarrow> amqp_server \<Rightarrow> amqp_server" where
  "as_notify ch s = s\<lparr>as_listens := ch # as_listens s\<rparr>"

definition as_accept :: "nat \<Rightarrow> string \<Rightarrow> string \<Rightarrow> Publishing \<Rightarrow> amqp_server \<Rightarrow> amqp_server" where
  "as_accept ch e key m s =
     (if queues_for s e key = []
      then (if ch \<in> set (as_listens s) then s\<lparr>as_returned := ch # as_returned s\<rparr> else s)
      else (enqueue e key m s)\<lparr>as_routed := as_routed s @ [(e, key, m)]\<rparr>)"

definition as_answer :: "amqp_error + bool \<Rightarrow> amqp_server \<Rightarrow> (amqp_error + nat) \<times> amqp_server" where
  "as_answer a s = (Inr (length (as_answers s)), as_next (s\<lparr>as_answers := as_answers s @ [a]\<rparr>))"

definition as_publish ::
  "nat \<Rightarrow> string \<Rightarrow> string \<Rightarrow> Publishing \<Rightarrow> amqp_server \<Rightarrow> (amqp_error + nat) \<times> amqp_server" where
  "as_publish ch e key m s =
     (if ch \<in> set (as_closed s) \<or> as_conn_closed s then (Inl AmqpClosed, as_next s)
      else if as_exchanges s e = None then as_answer (Inr False) (s\<lparr>as_closed := ch # as_closed s\<rparr>)
      else case as_fault s (as_tick s) of
        NoFault \<Rightarrow> as_answer (Inr True) (as_accept ch e key m s)
      | FailBefore l \<Rightarrow> (Inl (AmqpLib l), as_next s)
      | FailAfter n l \<Rightarrow>
          if n = 0 then (Inl (AmqpLib l), as_next (as_accept ch e key m s))
          else as_answer (Inl (AmqpLib l)) (as_accept ch e key m s))"

definition as_wait :: "nat \<Rightarrow> amqp_server \<Rightarrow> (amqp_error + bool) \<times> amqp_server" where
  "as_wait cf s = (if cf < length (as_answers s) then as_answers s ! cf else Inl AmqpClosed, s)"

definition as_poll :: "nat \<Rightarrow> amqp_server \<Rightarrow> bool \<times> amqp_server" where
  "as_poll ch s = (ch \<in> set (as_returned s), s\<lparr>as_returned := removeAll ch (as_returned s)\<rparr>)"

definition as_ack :: "nat \<Rightarrow> nat \<Rightarrow> amqp_server \<Rightarrow> amqp_error option \<times> amqp_server" where
  "as_ack ch t = as_request (\<lambda>s. s\<lparr>as_pending := take_pending (ch, t) (as_pending s)\<rparr>)"

definition as_reject :: "nat \<Rightarrow> nat \<Rightarrow> bool \<Rightarrow> amqp_server \<Rightarrow> amqp_error option \<times> amqp_server" where
  "as_reject ch t requeue =
     as_request (\<lambda>s.
       (case map_of (as_pending s) (ch, t) of
          None \<Rightarrow> s
        | Some (q, key, m) \<Rightarrow>
            (let s' = s\<lparr>as_pending := take_pending (ch, t) (as_pending s)\<rparr>
             in if requeue then s'\<lparr>as_ready := (q, key, m) # as_ready s'\<rparr>
                else dead_letter ''rejected'' q key m s')))"

definition as_exchange_declare :: "nat \<Rightarrow> string \<Rightarrow> string \<Rightarrow> amqp_server \<Rightarrow> amqp_error option \<times> amqp_server" where
  "as_exchange_declare ch n kind s =
     (case as_exchanges s n of
        None \<Rightarrow> as_request (\<lambda>s. s\<lparr>as_exchanges := (as_exchanges s)(n \<mapsto> kind)\<rparr>) s
      | Some k \<Rightarrow> if k = kind then as_request (\<lambda>s. s) s
                  else (Some (AmqpLib LibOther), as_next (s\<lparr>as_closed := ch # as_closed s\<rparr>)))"

definition as_queue_declare :: "nat \<Rightarrow> string \<Rightarrow> amqp_table \<Rightarrow> amqp_server \<Rightarrow> amqp_error option \<times> amqp_server" where
  "as_queue_declare ch n args s =
     (case as_queues s n of
        None \<Rightarrow> as_request (\<lambda>s. s\<lparr>as_queues := (as_queues s)(n \<mapsto> args)\<rparr>) s
      | Some a \<Rightarrow> if a = args then as_request (\<lambda>s. s) s
                  else (Some (AmqpLib LibOther), as_next (s\<lparr>as_closed := ch # as_closed s\<rparr>)))"

definition as_queue_passive :: "nat \<Rightarrow> string \<Rightarrow> amqp_server \<Rightarrow> amqp_error option \<times> amqp_server" where
  "as_queue_passive ch n s =
     (if as_queues s n = None
      then (Some (AmqpLib LibOther), as_next (s\<lparr>as_closed := ch # as_closed s\<rparr>))
      else as_request (\<lambda>s. s) s)"

definition as_queue_bind :: "nat \<Rightarrow> string \<Rightarrow> string \<Rightarrow> string \<Rightarrow> amqp_server \<Rightarrow> amqp_error option \<times> amqp_server" where
  "as_queue_bind ch q key e s =
     (if as_queues s q = None \<or> as_exchanges s e = None
      then (Some (AmqpLib LibOther), as_next (s\<lparr>as_closed := ch # as_closed s\<rparr>))
      else as_request (\<lambda>s. s\<lparr>as_bindings := (e, key, q) # as_bindings s\<rparr>) s)"

definition amqp_server_client :: "amqp_server amqp" where
  "amqp_server_client =
     \<lparr>ac_ConnIsClosed = as_conn_closed,
      ac_ConnClose = (\<lambda>s. if as_conn_closed s then (Some AmqpClosed, s)
                          else as_request (\<lambda>s. s\<lparr>as_conn_closed := True\<rparr>) s),
      ac_Channel = as_channel, ac_ChIsClosed = (\<lambda>ch s. ch \<in> set (as_closed s) \<or> as_conn_closed s),
      ac_ChClose = as_close, ac_Confirm = as_confirm, ac_NotifyReturn = as_notify,
      ac_Publish = as_publish, ac_Wait = as_wait, ac_PollReturn = as_poll, ac_Ack = as_ack,
      ac_Reject = as_reject, ac_ExchangeDeclare = as_exchange_declare,
      ac_QueueDeclare = as_queue_declare, ac_QueueDeclarePassive = as_queue_passive,
      ac_QueueBind = as_queue_bind, ac_Qos = (\<lambda>ch n. as_request (\<lambda>s. s)),
      ac_Consume = (\<lambda>ch q. as_request (\<lambda>s. s))\<rparr>"

section \<open>What the broker does by itself\<close>

text \<open>The first message of a queue becomes a delivery on a channel; or its time is up.\<close>

fun take_ready :: "string \<Rightarrow> (string \<times> 'a) list \<Rightarrow> ('a \<times> (string \<times> 'a) list) option" where
  "take_ready q [] = None"
| "take_ready q ((q', x) # xs) =
     (if q' = q then Some (x, xs)
      else map_option (\<lambda>(y, ys). (y, (q', x) # ys)) (take_ready q xs))"

definition as_deliver :: "string \<Rightarrow> nat \<Rightarrow> nat \<Rightarrow> amqp_server \<Rightarrow> (Delivery \<times> amqp_server) option" where
  "as_deliver q ch t s =
     (case take_ready q (as_ready s) of
        None \<Rightarrow> None
      | Some ((key, m), rest) \<Rightarrow>
          Some (Publishing.extend m \<lparr>d_Tag = t, d_RoutingKey = key\<rparr>,
                s\<lparr>as_ready := rest, as_pending := ((ch, t), q, key, m) # as_pending s\<rparr>))"

definition as_expire :: "string \<Rightarrow> amqp_server \<Rightarrow> amqp_server option" where
  "as_expire q s =
     (case take_ready q (as_ready s) of
        None \<Rightarrow> None
      | Some ((key, m), rest) \<Rightarrow> Some (dead_letter ''expired'' q key m (s\<lparr>as_ready := rest\<rparr>)))"

section \<open>The interface is met\<close>

definition server_view :: "amqp_server \<Rightarrow> mq_view" where
  "server_view s =
     \<lparr>v_exchanges = as_exchanges s, v_queues = as_queues s, v_bindings = set (as_bindings s),
      v_routed = as_routed s,
      v_held = mset (map (\<lambda>(q, k, m). content m) (as_ready s))
             + mset (map (\<lambda>(ct, q, k, m). content m) (as_pending s)),
      v_pending = (\<lambda>ch t. map_option (\<lambda>(q, k, m). (q, k, content m)) (map_of (as_pending s) (ch, t))),
      v_confirms = set (as_confirms s), v_listens = set (as_listens s),
      v_returned = set (as_returned s)\<rparr>"

lemma server_view_next [simp]: "server_view (as_next s) = server_view s"
  by (simp add: server_view_def as_next_def)

lemma server_view_closed [simp]:
  "server_view (s\<lparr>as_closed := x\<rparr>) = server_view s" "server_view (s\<lparr>as_answers := y\<rparr>) = server_view s"
  "server_view (s\<lparr>as_conn_closed := z\<rparr>) = server_view s"
  by (simp_all add: server_view_def)

lemma view_updates:
  "server_view (s\<lparr>as_exchanges := x\<rparr>) = (server_view s)\<lparr>v_exchanges := x\<rparr>"
  "server_view (s\<lparr>as_queues := y\<rparr>) = (server_view s)\<lparr>v_queues := y\<rparr>"
  "server_view (s\<lparr>as_bindings := z\<rparr>) = (server_view s)\<lparr>v_bindings := set z\<rparr>"
  "server_view (s\<lparr>as_confirms := cs\<rparr>) = (server_view s)\<lparr>v_confirms := set cs\<rparr>"
  "server_view (s\<lparr>as_listens := ls\<rparr>) = (server_view s)\<lparr>v_listens := set ls\<rparr>"
  "server_view (s\<lparr>as_returned := rs\<rparr>) = (server_view s)\<lparr>v_returned := set rs\<rparr>"
  by (simp_all add: server_view_def)

lemma view_fields:
  "v_exchanges (server_view s) = as_exchanges s" "v_queues (server_view s) = as_queues s"
  "v_bindings (server_view s) = set (as_bindings s)" "v_confirms (server_view s) = set (as_confirms s)"
  "v_listens (server_view s) = set (as_listens s)" "v_returned (server_view s) = set (as_returned s)"
  by (simp_all add: server_view_def)

lemma as_next_answers [simp]: "as_answers (as_next s) = as_answers s"
  by (simp add: as_next_def)

lemma mset_split:
  "mset (map f (filter P xs)) + mset (map f (filter (\<lambda>x. \<not> P x) xs)) = mset (map f xs)"
  by (induction xs) auto

lemma as_request_view:
  assumes "as_request f s = (r, s')"
  shows "server_view s' = server_view s \<or> server_view s' = server_view (f s)"
    and "r = None \<Longrightarrow> server_view s' = server_view (f s)"
  using assms by (auto simp: as_request_def split: fault.splits)

lemma content_add_death [simp]: "content (add_death q r m) = content m"
  by (simp add: content_def add_death_def Let_def)

lemma enqueue_held:
  "mset (map (\<lambda>(q, k, m). content m) (as_ready (enqueue e key m s))) =
     mset (map (\<lambda>(q, k, m). content m) (as_ready s))
     + mset (map (\<lambda>q. content m) (queues_for s e key))"
  by (simp add: enqueue_def comp_def)

lemma enqueue_fields [simp]:
  "as_pending (enqueue e key m s) = as_pending s" "as_routed (enqueue e key m s) = as_routed s"
  "as_exchanges (enqueue e key m s) = as_exchanges s" "as_queues (enqueue e key m s) = as_queues s"
  "as_bindings (enqueue e key m s) = as_bindings s" "as_confirms (enqueue e key m s) = as_confirms s"
  "as_listens (enqueue e key m s) = as_listens s" "as_returned (enqueue e key m s) = as_returned s"
  by (simp_all add: enqueue_def)

lemma enqueue_grows:
  "queues_for s e key \<noteq> [] \<Longrightarrow>
     add_mset (content m) (mset (map (\<lambda>(q, k, m). content m) (as_ready s)))
       \<subseteq># mset (map (\<lambda>(q, k, m). content m) (as_ready (enqueue e key m s)))"
  unfolding enqueue_held by (cases "queues_for s e key") auto

lemma as_accept_view:
  "server_view (as_accept ch e key m s) = server_view s \<and> queues_for s e key = []
     \<and> ch \<notin> v_listens (server_view s)
   \<or> server_view (as_accept ch e key m s) =
       (server_view s)\<lparr>v_returned := insert ch (v_returned (server_view s))\<rparr>
   \<or> routed_step e key m (server_view s) (server_view (as_accept ch e key m s))"
proof (cases "queues_for s e key = []")
  case True
  then show ?thesis by (auto simp: as_accept_def server_view_def)
next
  case False
  have "routed_step e key m (server_view s)
      (server_view ((enqueue e key m s)\<lparr>as_routed := as_routed s @ [(e, key, m)]\<rparr>))"
    using enqueue_grows [OF False, of m]
    by (auto simp: routed_step_def server_view_def intro: subset_mset.add_right_mono)
  with False show ?thesis by (simp add: as_accept_def)
qed

lemma take_pending_mset:
  "map_of xs ct = Some x \<Longrightarrow> mset (map f xs) = add_mset (f (ct, x)) (mset (map f (take_pending ct xs)))"
  by (induction xs) auto

lemma as_publish_view:
  assumes "as_publish ch e k m s = (r, s')"
  shows "server_view s' = server_view s \<or> server_view s' = server_view (as_accept ch e k m s)"
    and "r = Inr cf \<Longrightarrow> fst (as_wait cf s') = Inr True \<Longrightarrow> server_view s' = server_view (as_accept ch e k m s)"
  using assms
  by (auto simp: as_publish_def as_answer_def as_wait_def split: if_splits fault.splits)

lemma as_channel_fresh:
  assumes "as_channel s = (Inr ch, s')"
  shows "ch \<notin> set (as_confirms s) \<and> ch \<notin> (\<lambda>x. fst (fst x)) ` set (as_pending s)"
proof -
  let ?xs = "as_closed s @ as_confirms s @ as_listens s @ map (\<lambda>x. fst (fst x)) (as_pending s)"
  have "ch = Suc (sum_list ?xs)" using assms by (auto simp: as_channel_def split: if_splits fault.splits)
  moreover have "n \<le> sum_list ?xs" if "n \<in> set ?xs" for n using that by (rule member_le_sum_list) simp
  ultimately have "ch \<notin> set ?xs" by fastforce
  then show ?thesis by auto
qed

lemma map_of_filter_key:
  "map_of (filter (\<lambda>x. P (fst x)) xs) k = (if P k then map_of xs k else None)"
  by (induction xs) auto

lemma close_fields:
  "server_view (as_next (s\<lparr>as_closed := a, as_ready := b, as_pending := c, as_confirms := d,
      as_listens := e, as_returned := f\<rparr>))
   = server_view (s\<lparr>as_ready := b, as_pending := c, as_confirms := d, as_listens := e, as_returned := f\<rparr>)"
  by (simp add: server_view_def as_next_def)

lemma as_close_view:
  assumes "as_close ch s = (r, s')"
  shows "\<exists>p cs ls rs. server_view s' = (server_view s)\<lparr>v_pending := p, v_confirms := cs,
      v_listens := ls, v_returned := rs\<rparr>
    \<and> (\<forall>ch'. ch' \<noteq> ch \<longrightarrow> p ch' = v_pending (server_view s) ch'
         \<and> (ch' \<in> cs \<longleftrightarrow> ch' \<in> v_confirms (server_view s))
         \<and> (ch' \<in> ls \<longleftrightarrow> ch' \<in> v_listens (server_view s)))"
proof (cases "ch \<in> set (as_closed s)")
  case True
  with assms have "server_view s' = server_view s" by (simp add: as_close_def)
  then show ?thesis
    by (intro exI [of _ "v_pending (server_view s)"] exI [of _ "v_confirms (server_view s)"]
        exI [of _ "v_listens (server_view s)"] exI [of _ "v_returned (server_view s)"]) simp
next
  case False
  let ?mine = "filter (\<lambda>x. fst (fst x) = ch) (as_pending s)"
  let ?rest = "filter (\<lambda>x. fst (fst x) \<noteq> ch) (as_pending s)"
  let ?f = "\<lambda>(ct, q, k, m). content m"
  have "mset (map ?f ?mine) + mset (map ?f ?rest) = mset (map ?f (as_pending s))"
    by (rule mset_split)
  moreover have "mset (map (\<lambda>(q, k, m). content m) (map snd ?mine @ as_ready s))
      = mset (map ?f ?mine) + mset (map (\<lambda>(q, k, m). content m) (as_ready s))"
  proof -
    have "map (\<lambda>(q, k, m). content m) (map snd ?mine) = map ?f ?mine" by (simp add: split_beta)
    then show ?thesis by (simp only: map_append mset_append)
  qed
  ultimately have held: "mset (map (\<lambda>(q, k, m). content m) (map snd ?mine @ as_ready s)) + mset (map ?f ?rest)
      = mset (map (\<lambda>(q, k, m). content m) (as_ready s)) + mset (map ?f (as_pending s))"
    by (simp only: add.commute add.left_commute)
  have s': "server_view s' = server_view (s\<lparr>as_ready := map snd ?mine @ as_ready s,
      as_pending := ?rest, as_confirms := removeAll ch (as_confirms s),
      as_listens := removeAll ch (as_listens s), as_returned := removeAll ch (as_returned s)\<rparr>)"
  proof -
    have "s' = as_next (s\<lparr>as_closed := ch # as_closed s, as_ready := map snd ?mine @ as_ready s,
        as_pending := ?rest, as_confirms := removeAll ch (as_confirms s),
        as_listens := removeAll ch (as_listens s), as_returned := removeAll ch (as_returned s)\<rparr>)"
      using False assms by (auto simp: as_close_def Let_def)
    then show ?thesis by (simp only: close_fields)
  qed
  have pend: "map_of ?rest (ch', t) = (if ch' \<noteq> ch then map_of (as_pending s) (ch', t) else None)" for ch' t
    using map_of_filter_key [of "\<lambda>x. fst x \<noteq> ch" "as_pending s" "(ch', t)"] by simp
  show ?thesis
    unfolding s'
    by (intro exI [of _ "\<lambda>ch' t. map_option (\<lambda>(q, k, m). (q, k, content m)) (map_of ?rest (ch', t))"]
        exI [of _ "set (removeAll ch (as_confirms s))"] exI [of _ "set (removeAll ch (as_listens s))"]
        exI [of _ "set (removeAll ch (as_returned s))"])
      (simp add: server_view_def held [simplified] pend)
qed

lemma ack_view:
  assumes "map_of (as_pending s) (ch, t) = Some (q, k, m)"
  shows "v_held (server_view s)
    = add_mset (content m) (v_held (server_view (s\<lparr>as_pending := take_pending (ch, t) (as_pending s)\<rparr>)))"
  using take_pending_mset [OF assms, of "\<lambda>(ct, q, k, m). content m"] by (simp add: server_view_def)

lemma dead_letter_held:
  assumes "dead_letters (server_view s) q k"
  shows "add_mset (content m) (v_held (server_view s)) \<subseteq># v_held (server_view (dead_letter r q k m s))"
proof -
  from assms obtain args x q' where q: "as_queues s q = Some args"
    and x: "table_get args ''x-dead-letter-exchange'' = Some (VString x)"
    and key: "table_get args ''x-dead-letter-routing-key'' = None"
    and kind: "as_exchanges s x = Some ''direct''" and b: "(x, k, q') \<in> set (as_bindings s)"
    by (auto simp: dead_letters_def server_view_def)
  have "q' \<in> set (queues_for s x k)"
    using kind b by (force simp: queues_for_def key_match_def)
  then have "queues_for s x k \<noteq> []" by auto
  from enqueue_grows [OF this, of "add_death q r m"] q x key show ?thesis
    by (simp add: dead_letter_def server_view_def)
qed

lemma dead_letter_routed [simp]: "as_routed (dead_letter r q k m s) = as_routed s"
  by (simp add: dead_letter_def split: option.splits amqp_value.splits)

lemma reject_view:
  assumes run: "as_reject ch t False s = (r, s')"
    and pend: "v_pending (server_view s) ch t = Some (q, k, x)"
    and dl: "dead_letters (server_view s) q k"
  shows "v_routed (server_view s') = v_routed (server_view s)
    \<and> v_held (server_view s) \<subseteq># v_held (server_view s')"
proof -
  from pend obtain m where m: "map_of (as_pending s) (ch, t) = Some (q, k, m)" and x: "x = content m"
    by (auto simp: server_view_def)
  let ?s = "s\<lparr>as_pending := take_pending (ch, t) (as_pending s)\<rparr>"
  have "dead_letters (server_view ?s) q k" using dl by (simp add: dead_letters_def server_view_def)
  from dead_letter_held [OF this, of m "''rejected''"] ack_view [OF m]
  have "v_held (server_view s) \<subseteq># v_held (server_view (dead_letter ''rejected'' q k m ?s))" by simp
  moreover have "v_routed (server_view (dead_letter ''rejected'' q k m ?s)) = v_routed (server_view s)"
    by (simp add: server_view_def)
  ultimately show ?thesis
    using as_request_view(1) [OF run [unfolded as_reject_def]] m by (auto simp: Let_def)
qed

lemma ack_server:
  assumes run: "as_ack ch t s = (r, s')" and pend: "v_pending (server_view s) ch t = Some (q, k, x)"
  shows "v_routed (server_view s') = v_routed (server_view s)
    \<and> v_held (server_view s) \<subseteq># v_held (server_view s') + {#x#}"
proof -
  from pend obtain m where m: "map_of (as_pending s) (ch, t) = Some (q, k, m)" and x: "x = content m"
    by (auto simp: server_view_def)
  let ?s = "s\<lparr>as_pending := take_pending (ch, t) (as_pending s)\<rparr>"
  have "v_routed (server_view ?s) = v_routed (server_view s)" by (simp add: server_view_def)
  with as_request_view(1) [OF run [unfolded as_ack_def]] ack_view [OF m] x show ?thesis by auto
qed

lemma take_pending_other: "ct' \<noteq> ct \<Longrightarrow> map_of (take_pending ct xs) ct' = map_of xs ct'"
  by (induction xs) auto

lemma dead_letter_fields:
  "as_exchanges (dead_letter r q k m s) = as_exchanges s" "as_queues (dead_letter r q k m s) = as_queues s"
  "as_bindings (dead_letter r q k m s) = as_bindings s" "as_confirms (dead_letter r q k m s) = as_confirms s"
  "as_listens (dead_letter r q k m s) = as_listens s" "as_pending (dead_letter r q k m s) = as_pending s"
  by (simp_all add: dead_letter_def split: option.split amqp_value.split)

lemma settle_frame_server:
  "as_ack ch t s = (r, s') \<Longrightarrow> settle_frame ch t (server_view s) (server_view s')"
  "as_reject ch t False s = (r, s') \<Longrightarrow> settle_frame ch t (server_view s) (server_view s')"
proof -
  have refl: "settle_frame ch t v v" for v by (simp add: settle_frame_def)
  have taken: "settle_frame ch t (server_view s) (server_view (s\<lparr>as_pending := take_pending (ch, t) (as_pending s)\<rparr>))"
    by (auto simp: settle_frame_def server_view_def take_pending_other)
  show "settle_frame ch t (server_view s) (server_view s')" if "as_ack ch t s = (r, s')"
    using as_request_view(1) [OF that [unfolded as_ack_def]] refl taken by metis
  have dead: "settle_frame ch t (server_view s)
      (server_view (dead_letter r q k m (s\<lparr>as_pending := take_pending (ch, t) (as_pending s)\<rparr>)))" for r q k m
    by (auto simp: settle_frame_def server_view_def dead_letter_fields take_pending_other)
  show "settle_frame ch t (server_view s) (server_view s')" if "as_reject ch t False s = (r, s')"
    using as_request_view(1) [OF that [unfolded as_reject_def]] refl dead
    by (auto simp: Let_def split: option.splits)
qed

interpretation amqp_mem: amqp_client amqp_server_client server_view
proof (unfold_locales, unfold amqp_server_client_def amqp.simps)
  fix c c' ch and res :: "amqp_error + nat"
  show "server_view c' = server_view c" if "as_channel c = (res, c')"
    using that by (auto simp: as_channel_def split: if_splits fault.splits)
  show "ch \<notin> v_confirms (server_view c) \<and> v_pending (server_view c) ch = Map.empty"
    if "as_channel c = (Inr ch, c')"
    using as_channel_fresh [OF that] by (force simp: server_view_def map_of_eq_None_iff fun_eq_iff)
next
  fix c c' ch and res :: "amqp_error option"
  assume "as_confirm ch c = (res, c')"
  from as_request_view(1) [OF this [unfolded as_confirm_def]]
  show "server_view c' = server_view c
    \<or> server_view c' = (server_view c)\<lparr>v_confirms := insert ch (v_confirms (server_view c))\<rparr>"
    by (simp add: view_updates view_fields [symmetric])
next
  fix c c' ch
  assume "as_confirm ch c = (None, c')"
  from as_request_view(2) [OF this [unfolded as_confirm_def]]
  show "ch \<in> v_confirms (server_view c')" by (simp add: view_updates view_fields [symmetric])
next
  fix c ch
  show "server_view (as_notify ch c) = (server_view c)\<lparr>v_listens := insert ch (v_listens (server_view c))\<rparr>"
    by (simp add: as_notify_def view_updates view_fields [symmetric])
next
  fix c c' ch e k m and res :: "amqp_error + nat"
  assume "as_publish ch e k m c = (res, c')"
  from as_publish_view(1) [OF this] as_accept_view [of ch e k m c]
  show "server_view c' = server_view c \<or> routed_step e k m (server_view c) (server_view c')
    \<or> server_view c' = (server_view c)\<lparr>v_returned := insert ch (v_returned (server_view c))\<rparr>"
    by auto
next
  fix c c' cf and res :: "amqp_error + bool"
  assume "as_wait cf c = (res, c')"
  then show "server_view c' = server_view c" by (simp add: as_wait_def)
next
  fix c c1 c2 ch e k m cf
  assume l: "ch \<in> v_listens (server_view c)" and p: "as_publish ch e k m c = (Inr cf, c1)"
    and w: "as_wait cf c1 = (Inr True, c2)"
  have "server_view c1 = server_view (as_accept ch e k m c)"
    by (rule as_publish_view(2) [OF p refl]) (simp add: w)
  with as_accept_view [of ch e k m c] l
  show "routed_step e k m (server_view c) (server_view c1) \<or> ch \<in> v_returned (server_view c1)" by auto
next
  fix c c' ch
  show "server_view c' = server_view c \<and> (ch \<in> v_listens (server_view c) \<longrightarrow> ch \<notin> v_returned (server_view c))"
    if "as_poll ch c = (False, c')"
    using that by (auto simp: as_poll_def view_updates view_fields [symmetric])
  show "server_view c' = (server_view c)\<lparr>v_returned := v_returned (server_view c) - {ch}\<rparr>"
    if "as_poll ch c = (True, c')"
    using that by (auto simp: as_poll_def view_updates view_fields [symmetric])
next
  fix c c' ch n kind and res :: "amqp_error option"
  assume "as_exchange_declare ch n kind c = (res, c')"
  then show "server_view c' = server_view c \<or> (v_exchanges (server_view c) n = None
      \<and> server_view c' = (server_view c)\<lparr>v_exchanges := (v_exchanges (server_view c))(n \<mapsto> kind)\<rparr>)"
    by (auto simp: as_exchange_declare_def view_updates view_fields [symmetric] dest!: as_request_view(1)
        split: option.splits if_splits)
next
  fix c c' ch n kind
  assume "as_exchange_declare ch n kind c = (None, c')"
  then show "v_exchanges (server_view c') n = Some kind"
    by (auto simp: as_exchange_declare_def view_updates view_fields [symmetric] dest!: as_request_view(2) [OF _ refl]
        split: option.splits if_splits)
next
  fix c c' ch n args and res :: "amqp_error option"
  assume "as_queue_declare ch n args c = (res, c')"
  then show "server_view c' = server_view c \<or> (v_queues (server_view c) n = None
      \<and> server_view c' = (server_view c)\<lparr>v_queues := (v_queues (server_view c))(n \<mapsto> args)\<rparr>)"
    by (auto simp: as_queue_declare_def view_updates view_fields [symmetric] dest!: as_request_view(1)
        split: option.splits if_splits)
next
  fix c c' ch n args
  assume "as_queue_declare ch n args c = (None, c')"
  then show "v_queues (server_view c') n = Some args"
    by (auto simp: as_queue_declare_def view_updates view_fields [symmetric] dest!: as_request_view(2) [OF _ refl]
        split: option.splits if_splits)
next
  fix c c' ch n k e and res :: "amqp_error option"
  assume "as_queue_bind ch n k e c = (res, c')"
  then show "server_view c' = server_view c
      \<or> server_view c' = (server_view c)\<lparr>v_bindings := insert (e, k, n) (v_bindings (server_view c))\<rparr>"
    by (auto simp: as_queue_bind_def view_updates view_fields [symmetric] dest!: as_request_view(1) split: if_splits)
next
  fix c c' ch n k e
  assume "as_queue_bind ch n k e c = (None, c')"
  then show "(e, k, n) \<in> v_bindings (server_view c')"
    by (auto simp: as_queue_bind_def view_updates view_fields [symmetric] dest!: as_request_view(2) [OF _ refl] split: if_splits)
next
  fix c c' ch n
  show "server_view c' = server_view c" if "as_queue_passive ch n c = (res, c')" for res
    using that by (auto simp: as_queue_passive_def dest!: as_request_view(1) split: if_splits)
  show "v_queues (server_view c) n \<noteq> None" if "as_queue_passive ch n c = (None, c')"
    using that by (auto simp: as_queue_passive_def view_updates view_fields [symmetric] split: if_splits)
qed (rule as_close_view ack_server reject_view settle_frame_server; assumption)+

end
