(* ===== verification/Examples.thy ===== *)
theory Examples
  imports World AmqpServer
begin

text \<open>
  A small deployment with concrete clients: the bucket and the broker in memory, an empty
  database, a toy image codec, and the breaker as its documentation describes it. The witnesses
  of the properties run on it; no model definition depends on it.
\<close>

section \<open>A deployment\<close>

definition bucket0 :: string where "bucket0 = ''avatars''"

text \<open>An image is its bytes; a thumbnail is the first bytes, as many as the side.\<close>

definition codec0 :: "bytes codec" where
  "codec0 = \<lparr>cd_DecodeConfig = (\<lambda>(d, e). Inr (640, 480)), cd_Decode = (\<lambda>(d, e). Inr d),
     cd_Fill = (\<lambda>img w h. take (nat w) img), cd_OverlayWhite = (\<lambda>img w h. img),
     cd_EncodeJPEG = (\<lambda>q img. Inr (take 3 img))\<rparr>"

text \<open>Two identifiers are enough here.\<close>

definition us0 :: "uuid \<Rightarrow> string" where "us0 i = (if i = 7 then ''seven'' else ''other'')"
definition parse0 :: "string \<Rightarrow> uuid option" where
  "parse0 s = (if s = ''seven'' then Some 7 else if s = ''other'' then Some 0 else None)"

definition deps0 :: "(bucket_server, amqp_server, gb, bytes) deps" where
  "deps0 = \<lparr>d_storage = \<lparr>s3_client = server_client, s3_bucket = bucket0\<rparr>, d_amqp = amqp_server_client,
     d_breaker = doc_breaker, d_codec = codec0, d_used = (\<lambda>_. 9),
     d_image = \<lparr>maxPixels = 1000000, jpegQuality = 85\<rparr>, d_maxUploadBytes = 64,
     d_png = [1, 2, 3], d_digest = ''0123456789abcdef0123'',
     d_reconcile = \<lparr>rc_Interval = Minute, rc_StuckAfter = 10 * Minute, rc_Batch = 100\<rparr>,
     d_us = us0, d_up = parse0\<rparr>"

interpretation depl: deployed server_client bucket0 "bucket_objs bucket0" amqp_server_client server_view deps0
  by unfold_locales (simp_all add: deps0_def)

definition mq0 :: amqp_server where
  "mq0 = \<lparr>as_exchanges = [exchangeEvents \<mapsto> ExchangeTopic, exchangeRetry \<mapsto> ExchangeDirect,
       exchangeDead \<mapsto> ExchangeDirect],
     as_queues = [queueProcess \<mapsto> [(argDeadLetterExchange, VString exchangeRetry)], queueDead \<mapsto> []],
     as_bindings = [(exchangeEvents, bindingEvents, queueProcess), (exchangeDead, routingKeyDead, queueDead)],
     as_ready = [], as_pending = [], as_closed = [], as_confirms = [], as_listens = [], as_returned = [],
     as_routed = [], as_answers = [], as_conn_closed = False, as_fault = (\<lambda>_. NoFault), as_tick = 0\<rparr>"

definition s30 :: bucket_server where
  "s30 = \<lparr>bs_name = bucket0, bs_objs = Map.empty, bs_fault = (\<lambda>_. NoFault), bs_keep = (\<lambda>_ _. False),
     bs_tick = 0, bs_open = []\<rparr>"

definition pg0 :: pg where
  "pg0 = \<lparr>pg_tbl = [], pg_other = (\<lambda>_ t. t), pg_now = (\<lambda>n. int n), pg_fault = (\<lambda>_. NoFault),
     pg_plan = (\<lambda>_ xs. xs), pg_tick = 0\<rparr>"

definition world0 :: "(bucket_server, amqp_server, gb) world" where
  "world0 = \<lparr>w_pg = pg0, w_s3 = s30, w_mq = mq0, w_pub = new_publisher,
     w_ctx = \<lparr>inject = (\<lambda>t. t), rid = ''r1'', now = 0\<rparr>,
     w_storage_breaker = (GbClosed 0, [0]), w_publisher_breaker = (GbClosed 0, [0]),
     w_uuids = (\<lambda>n. 7), w_ids = (\<lambda>n. ''m''), w_clock = (\<lambda>n. 0), w_count = 0,
     w_slots = 0, w_wait = (\<lambda>_. None), m_uploads = (\<lambda>_. 0), m_deletes = (\<lambda>_. 0), m_processing = (\<lambda>_. 0)\<rparr>"

definition jpeg0 :: bytes where "jpeg0 = jpegSig @ [1, 2, 3, 4]"

definition upload0 :: UploadInput where
  "upload0 = \<lparr>u_UserID = ''alice'', u_FileName = ''a.jpg'', u_Size = 7,
     u_File = \<lparr>rs_data = jpeg0, rs_end = None, rs_pos = 0, rs_seek_err = (\<lambda>_. None), rs_seeks = 0\<rparr>\<rparr>"

lemma world0_fair: "w_fair world0" "w_up server_view world0" "table_ok (w_tbl world0)"
  by (simp_all add: view_defs world0_def pg0_def pg_fair_def rely_def new_publisher_inv snapshot_def
      table_ok_def ids_distinct_def)

lemma upload0_ok: "is_ok (fst (Upload (server_service deps0) upload0 world0))"
  by code_simp

definition world1 :: "(bucket_server, amqp_server, gb) world" where
  "world1 = snd (Upload (server_service deps0) upload0 world0)"

text \<open>The one row of \<open>world1\<close>, and the event that announces it.\<close>

definition msg0 :: Message where
  "msg0 = \<lparr>msg_Type = RoutingKeyUploaded, msg_MessageID = ''m'',
     msg_Body = Some (Marshal (UploadEvent (NewUploadEvent us0 ''m'' 7 ''alice''
        (OriginalKey us0 7)))), Attempt = 1, Final = False\<rparr>"

lemma world1_row: "map (\<lambda>r. (row_id r, upload_status r)) (w_tbl world1) = [(7, UploadStatusUploaded)]"
  by code_simp

lemma world1_fair: "w_fair world1" "w_up server_view world1" "table_ok (w_tbl world1)"
proof -
  have run: "Upload (server_service deps0) upload0 world0
      = (fst (Upload (server_service deps0) upload0 world0), world1)" by (simp add: world1_def)
  from depl.svc.Upload_any(1) [OF world0_fair run] world0_fair(3) db_steps_table_ok
  show "w_fair world1" "w_up server_view world1" "table_ok (w_tbl world1)" by blast+
qed

lemma uploaded0_ok: "fst (uploaded (worker_handler deps0) msg0 world1) = None"
  by code_simp

section \<open>A broker with the topology declared\<close>

definition mq_empty :: amqp_server where
  "mq_empty = mq0\<lparr>as_exchanges := Map.empty, as_queues := Map.empty, as_bindings := []\<rparr>"

definition connected0 :: "(error + Conn) \<times> amqp_server" where
  "connected0 = broker_New amqp_server_client None 4 (5 * Second) [WithProcessTimeout Minute] mq_empty"

lemma connected0_ok: "is_ok (fst connected0)"
  by (simp add: connected0_def broker_New_def declare_conn_def with_channel_def amqp_server_client_def
      as_channel_def declareTopology_def and_then_def declareRetryLevels_def newRetryLevels_default
      mq_empty_def mq0_def as_exchange_declare_def as_request_def as_next_def wrap_amqp_def
      declareQueue_def bindQueue_def as_queue_declare_def as_queue_bind_def closeChannel_def as_close_def
      level_args_def level_keys_def name_defs WithProcessTimeout_def)

text \<open>One delivery in flight on channel 9, and a handler that fails with an error to retry.\<close>

definition delivery0 :: Delivery where
  "delivery0 = \<lparr>Headers = [], m_ContentType = contentTypeJSON, DeliveryMode = Persistent, MessageId = ''m'',
     CorrelationId = '''', Type = RoutingKeyUploaded, Timestamp = 0, m_Body = None, d_Tag = 1,
     d_RoutingKey = RoutingKeyUploaded\<rparr>"

definition consumer0 :: Consumer where
  "consumer0 = \<lparr>k_ch = 9, k_levels = newRetryLevels defaultRetryDelays, k_prefetch = 4\<rparr>"

definition in_flight0 :: amqp_server where
  "in_flight0 = (snd connected0)\<lparr>as_pending := [((9, 1), queueProcess, RoutingKeyUploaded,
     Publishing.truncate delivery0)]\<rparr>"

definition failing0 :: "unit Handler" where
  "failing0 msg h = (Returned (Some ErrText), h)"

lemma in_flight0_view:
  "v_exchanges (server_view in_flight0) = v_exchanges (server_view (snd connected0))"
  "v_queues (server_view in_flight0) = v_queues (server_view (snd connected0))"
  "v_bindings (server_view in_flight0) = v_bindings (server_view (snd connected0))"
  "v_pending (server_view in_flight0) 9 1 = Some (queueProcess, RoutingKeyUploaded, content delivery0)"
  by (simp_all add: in_flight0_def server_view_def content_def Publishing.truncate_def)

text \<open>The topology is declared there, and the delivery is held for the consumer.\<close>

lemma in_flight0_topology: "topology_ok (k_levels consumer0) (server_view in_flight0)"
proof -
  obtain conn where c: "fst connected0 = Inr conn" using connected0_ok by (auto simp: is_ok_def split: sum.splits)
  then have new: "broker_New amqp_server_client None 4 (5 * Second) [WithProcessTimeout Minute] mq_empty
      = (Inr conn, snd connected0)" by (metis connected0_def prod.collapse)
  then have lv: "c_levels conn = newRetryLevels defaultRetryDelays"
    by (auto simp: broker_New_def WithProcessTimeout_def Let_def split: prod.splits option.splits if_splits)
  have "declare_conn amqp_server_client conn mq_empty = (None, snd connected0)"
    using new by (auto simp: broker_New_def Let_def split: prod.splits option.splits)
  from amqp_client.declare_conn_ok [OF amqp_mem.amqp_client_axioms this] show ?thesis
    by (simp add: topology_ok_def in_flight0_view consumer0_def lv)
qed

lemma in_flight0_pending:
  "v_pending (server_view in_flight0) (k_ch consumer0) (d_Tag delivery0)
    = Some (queueProcess, d_RoutingKey delivery0, content delivery0)"
  using in_flight0_view(4) by (simp add: consumer0_def delivery0_def)

lemma consumer0_ladder: "k_levels consumer0 \<noteq> []"
  by (simp add: consumer0_def newRetryLevels_default)

lemma delivery0_key: "d_RoutingKey delivery0 \<in> {RoutingKeyUploaded, RoutingKeyDeleted, routingKeyRetried}"
  by (simp add: delivery0_def)

lemma failing0_fails: "handle failing0 (message delivery0) () = (Some ErrText, ())"
  by (simp add: handle_def failing0_def)

end
