(* ===== verification/EndToEnd.thy ===== *)
theory EndToEnd
  imports Examples
begin

text \<open>
  An avatar on its way through all parts: what an upload of the service leaves behind, what the
  worker does with the event, and what the service serves afterwards. The counter of processed
  avatars tells a delivery that did the work from one that found it done.
\<close>

section \<open>An upload\<close>

text \<open>What an upload of the service leaves behind.\<close>

lemma stored_upload:
  assumes dep: "deployed MC b objs AC obs D" and inv: "w_fair w" "w_up obs w" "table_ok (w_tbl w)"
    and run: "Upload (server_service D) inp w = (Inr av, w')"
    and unread: "rs_pos (u_File inp) = 0" "u_Size inp = int (length (rs_data (u_File inp)))"
  shows "AvUploadStatus av = UploadStatusUploaded \<and> UserID av = u_UserID inp
    \<and> S3Key av = OriginalKey (d_us D) (ID av) \<and> find_row (ID av) (w_tbl w) = None
    \<and> (\<exists>r. find_row (ID av) (w_tbl w') = Some r \<and> upload_status r = UploadStatusUploaded
         \<and> s3_key r = S3Key av \<and> user_id r = UserID av)
    \<and> (\<exists>et. w_objs objs w' = (w_objs objs w)(S3Key av \<mapsto>
          \<lparr>bl_data = rs_data (u_File inp), bl_type = MimeType av, bl_etag = et\<rparr>))
    \<and> (\<exists>mid. w_sent obs w' = w_sent obs w \<or> w_sent obs w' = w_sent obs w @
          [wire (UploadEvent (NewUploadEvent (d_us D) mid (ID av) (UserID av) (S3Key av)))])"
proof -
  obtain info fl where val: "svc_validator (server_service D) (u_File inp) = (Inr info, fl)"
    using run by (auto simp: Upload_def upload_body_def Let_def split: prod.splits sum.splits)
  note V = Validate_ok [OF val [unfolded server_service_ops] unread(1)]
  then have rest: "fst (remaining fl) = rs_data (u_File inp)" by (simp add: remaining_def)
  have mime: "i_MimeType info \<noteq> ''''" using V by (auto simp: checkMime_ok mime_defs)
  have sz: "u_Size inp = int (length (fst (remaining fl)))" using rest unread(2) by simp
  note U = deployed.svc_Upload_ok [OF dep inv run val mime sz, unfolded server_service_ops rest]
  then have type: "MimeType av = i_MimeType info" by blast
  show ?thesis unfolding type using U by auto
qed

section \<open>Processed and counted\<close>

lemma count_kept:
  "lift_pg f w = (r, w') \<Longrightarrow> m_processing w' = m_processing w"
  "lift_s3 g w = (q, w') \<Longrightarrow> m_processing w' = m_processing w"
  "acquire_slot w = (l, w') \<Longrightarrow> m_processing w' = m_processing w"
  by (auto simp: lift_pg_def lift_s3_def acquire_slot_def tick_def split: prod.splits option.splits)

lemma release_count [simp]: "m_processing (release_slot w) = m_processing w"
  by (simp add: release_slot_def)

lemmas worker_ops = worker_handler_ops w_handler_repo_ops w_ops

lemma start_counts: "start (worker_handler D) i w = (r, w') \<Longrightarrow> m_processing w' = m_processing w"
  by (auto simp: start_def worker_ops dest!: count_kept split: prod.splits sum.splits option.splits if_splits)

lemma readOriginal_counts: "readOriginal (worker_handler D) a w = (r, w') \<Longrightarrow> m_processing w' = m_processing w"
  by (auto simp: readOriginal_def worker_ops dest!: count_kept split: prod.splits sum.splits if_splits)

lemma render_counts: "render (worker_handler D) a w = (r, w') \<Longrightarrow> m_processing w' = m_processing w"
  by (auto simp: render_def worker_ops dest!: count_kept readOriginal_counts split: prod.splits sum.splits option.splits)

lemma store_counts:
  "store_thumbnails (worker_handler D) i th sizes keys w = (r, w') \<Longrightarrow> m_processing w' = m_processing w"
proof (induction sizes arbitrary: keys w)
  case (Cons sz sizes)
  then show ?case
    by (auto simp: worker_ops Let_def dest!: count_kept split: option.splits prod.splits)
qed simp

lemma process_avatar_counts:
  "process_avatar (worker_handler D) a w = (Inr b, w') \<Longrightarrow> m_processing w' = m_processing w"
  by (auto simp: process_avatar_def worker_ops dest!: count_kept render_counts store_counts
      split: prod.splits sum.splits option.splits if_splits)

lemma failure_fails: "failure H i msg e w = (r, w') \<Longrightarrow> r \<noteq> None"
  by (auto simp: failure_def split: if_splits prod.splits option.splits)

lemma uploaded_counted:
  assumes "uploaded (worker_handler D) msg w = (None, w')"
    and "m_processing w' (status_label True) \<noteq> m_processing w (status_label True)"
    and "UnmarshalUpload (msg_Body msg) = Inr ev" and "d_up D (ue_AvatarID ev) = Some i"
  obtains a w1 w2 where "start (worker_handler D) i w = (Inr (Some a), w1)"
    and "process_avatar (worker_handler D) a w1 = (Inr True, w2)" and "w' = ObserveProcessing True w2"
proof -
  obtain s w1 where st: "start (worker_handler D) i w = (s, w1)" by fastforce
  have run: "(case s of Inl e \<Rightarrow> failure (worker_handler D) i msg e (ObserveProcessing False w1)
      | Inr None \<Rightarrow> (None, w1)
      | Inr (Some avatar) \<Rightarrow>
          (case process_avatar (worker_handler D) avatar w1 of
             (Inl e, w) \<Rightarrow> failure (worker_handler D) i msg e (ObserveProcessing False w)
           | (Inr processed, w) \<Rightarrow> if \<not> processed then (None, w) else (None, ObserveProcessing True w)))
      = (None, w')"
    using assms(1) unfolding uploaded_def worker_handler_ops assms(3) sum.case assms(4) option.case st prod.case .
  note c1 = start_counts [OF st]
  show ?thesis
  proof (cases s)
    case (Inl e)
    with run failure_fails show ?thesis by fastforce
  next
    case (Inr o')
    show ?thesis
    proof (cases o')
      case None
      with run Inr c1 assms(2) show ?thesis by simp
    next
      case (Some a)
      obtain p w2 where pr: "process_avatar (worker_handler D) a w1 = (p, w2)" by fastforce
      show ?thesis
      proof (cases p)
        case (Inl e)
        with run Inr Some pr failure_fails show ?thesis by fastforce
      next
        case p: (Inr b)
        note c2 = process_avatar_counts [OF pr [unfolded p]]
        show ?thesis
        proof (cases b)
          case True
          with run Inr Some pr p st show ?thesis by (intro that) auto
        next
          case False
          with run Inr Some pr p c1 c2 assms(2) show ?thesis by simp
        qed
      qed
    qed
  qed
qed

section \<open>From the upload to the picture\<close>


context deployed
begin

lemmas hdl_start = hdl.start_spec

lemma svc_AvatarContent:
  assumes "w_fair w" and "table_ok (w_tbl w)" and "AvatarContent (server_service D) i sz w = (Inr c, w')"
  shows "\<exists>r bl. find_row i (w_tbl w) = Some r \<and> live r \<and> w_objs objs w (fst (served (scanAvatar r) sz)) = Some bl
    \<and> c_MaxAge c = snd (served (scanAvatar r) sz) \<and> c_ContentType c = bl_type bl
    \<and> c_Size c = int (length (bl_data bl)) \<and> \<not> c_IsDefault c \<and> (c_BodyErr c = None \<longrightarrow> c_Body c = bl_data bl)"
proof -
  from assms(3) obtain a w1 where get: "sr_Get (svc_repo (server_service D)) i w = (Inr a, w1)"
    and cont: "content_of (server_service D) a sz w1 = (Inr c, w')"
    by (auto simp: AvatarContent_def split: prod.splits sum.splits)
  from svc.repo.Get_ok [OF assms(1) get] obtain r where r: "live_row i (w_tbl w) = Some r" "a = scanAvatar r" by blast
  with live_row_Some [of i "w_tbl w" r] find_row_member [of "w_tbl w" r] assms(2)
  have "find_row i (w_tbl w) = Some r" "live r" by (auto simp: table_ok_def)
  moreover have "w_objs objs w1 = w_objs objs w" using svc.frames(2) [OF get] by simp
  ultimately show ?thesis using svc.content_of_spec(2) [OF cont refl] r(2) by fastforce
qed

text \<open>
  A delivery counted as processed: the row carries the keys of all thumbnails, and under each of
  them is the thumbnail of the object the row names.
\<close>

lemma counted_completes:
  assumes v: "w_fair v" "table_ok (w_tbl v)" and up: "uploaded (worker_handler D) msg v = (None, v')"
    and cnt: "m_processing v' (status_label True) \<noteq> m_processing v (status_label True)"
    and ev: "UnmarshalUpload (msg_Body msg) = Inr ev" "d_up D (ue_AvatarID ev) = Some i"
    and row: "find_row i (w_tbl v) = Some r" and sz: "sz \<in> set ThumbnailSizes"
  shows "\<exists>bl th d r' m et. w_objs objs v (s3_key r) = Some bl
    \<and> Thumbnails (d_codec D) (d_image D) (bl_data bl, None) ThumbnailSizes = Inr th \<and> th sz = Some d
    \<and> find_row i (w_tbl v') = Some r' \<and> processing_status r' = ProcessingStatusCompleted
    \<and> thumbnail_s3_keys r' = Some m \<and> m sz = Some (ThumbnailKey (d_us D) i sz)
    \<and> w_objs objs v' (ThumbnailKey (d_us D) i sz) = Some \<lparr>bl_data = d, bl_type = ThumbnailMimeType, bl_etag = et\<rparr>
    \<and> table_ok (w_tbl v')"
proof -
  obtain a v1 v2 where st: "start (worker_handler D) i v = (Inr (Some a), v1)"
    and pr: "process_avatar (worker_handler D) a v1 = (Inr True, v2)" and v': "v' = ObserveProcessing True v2"
    by (rule uploaded_counted [OF up cnt ev])
  note S = hdl_start [OF v st]
  from S(3) [OF refl] row obtain r1 where a: "ID a = i" "S3Key a = s3_key r"
    and r1: "find_row i (w_tbl v1) = Some r1" "processing_status r1 \<noteq> ProcessingStatusPending"
    by (auto simp: scanAvatar_def)
  have v1: "w_fair v1" "w_objs objs v1 = w_objs objs v" "table_ok (w_tbl v1)"
    using S(1) db_steps_table_ok [OF _ v(2)] by auto
  note P = hdl_process [OF v1(1,3) pr r1 [folded a(1)], unfolded worker_handler_ops a]
  from P(2) [OF refl] obtain bl th r4 where bl: "w_objs objs v1 (s3_key r) = Some bl"
    and th: "Thumbnails (d_codec D) (d_image D) (bl_data bl, None) ThumbnailSizes = Inr th"
    and r4: "find_row i (w_tbl v2) = Some r4" "processing_status r4 = ProcessingStatusCompleted"
    and all: "\<forall>sz\<in>set ThumbnailSizes. \<forall>d. th sz = Some d \<longrightarrow>
      (\<exists>m. thumbnail_s3_keys r4 = Some m \<and> m sz = Some (ThumbnailKey (d_us D) i sz))
      \<and> (\<exists>et. w_objs objs v2 (ThumbnailKey (d_us D) i sz)
            = Some \<lparr>bl_data = d, bl_type = ThumbnailMimeType, bl_etag = et\<rparr>)" by blast
  from Thumbnails_all [OF th] sz obtain d where d: "th sz = Some d" by blast
  have "w_tbl v' = w_tbl v2" "w_objs objs v' = w_objs objs v2" by (simp_all add: v' ObserveProcessing_def view_defs)
  moreover have "table_ok (w_tbl v2)" using db_steps_table_ok P(1) v1(3) by blast
  ultimately show ?thesis using bl th d r4 all [rule_format, OF sz d] v1(2) by auto
qed

text \<open>A thumbnail of a completed row is the object under the key the row names.\<close>

lemma completed_shown:
  assumes u: "w_fair u" "table_ok t" "db_step\<^sup>*\<^sup>* t (w_tbl u)"
    and row: "find_row i t = Some r" "processing_status r = ProcessingStatusCompleted"
      "thumbnail_s3_keys r = Some m" "m sz = Some k" and sz: "sz \<in> set ThumbnailSizes"
    and shown: "AvatarContent (server_service D) i sz u = (Inr c, u')"
  shows "\<exists>bl. w_objs objs u k = Some bl \<and> c_MaxAge c = cacheReady \<and> c_ContentType c = bl_type bl
    \<and> c_Size c = int (length (bl_data bl)) \<and> \<not> c_IsDefault c \<and> (c_BodyErr c = None \<longrightarrow> c_Body c = bl_data bl)"
proof -
  from row_persists [OF u(3) row(1)] obtain r' where r': "find_row i (w_tbl u) = Some r'" "row_evolves r r'" by blast
  have "processing_status r' = ProcessingStatusCompleted" "thumbnail_s3_keys r' = Some m"
    using r'(2) row(2,3) processing_run_terminal by (auto simp: row_evolves_def)
  then have "served (scanAvatar r') sz = (k, cacheReady)"
    using row(4) sz by (auto simp: served_def Thumbnail_def scanAvatar_def ThumbnailSizes_def size_defs)
  with svc_AvatarContent [OF u(1) db_steps_table_ok [OF u(3,2)] shown] r'(1) show ?thesis by auto
qed

end

text \<open>
  (C2) What is shown is what was uploaded: an upload succeeds and its event reaches the broker; some
  worker is handed that event and its delivery is counted as processed; whenever the service
  afterwards returns a thumbnail of the avatar, it is the thumbnail the codec makes of the very
  bytes of the upload, a JPEG to be cached for a day. In between, the database may go through any
  statements of any process; in the bucket nobody else has written the avatar's own keys.
\<close>

theorem upload_becomes_picture:
  assumes dep: "deployed MC b objs AC obs D" and inv: "w_fair w" "w_up obs w" "table_ok (w_tbl w)"
    and run: "Upload (server_service D) inp w = (Inr av, w1)"
    and unread: "rs_pos (u_File inp) = 0" "u_Size inp = int (length (rs_data (u_File inp)))"
    and uuid: "d_up D (d_us D (ID av)) = Some (ID av)" "\<forall>c\<in>set (d_us D (ID av)). byte c < 128"
    and sent: "w_sent obs w1 = w_sent obs w @ [(typ, mid, body)]"
    and worker: "w_fair v" "db_step\<^sup>*\<^sup>* (w_tbl w1) (w_tbl v)" "w_objs objs v (S3Key av) = w_objs objs w1 (S3Key av)"
    and handled: "dispatch (worker_handler D) msg v = (None, v')" "msg_Type msg = typ" "msg_Body msg = body"
      "m_processing v' (status_label True) \<noteq> m_processing v (status_label True)"
    and later: "w_fair u" "db_step\<^sup>*\<^sup>* (w_tbl v') (w_tbl u)"
      "\<forall>sz\<in>set ThumbnailSizes. w_objs objs u (ThumbnailKey (d_us D) (ID av) sz) = w_objs objs v' (ThumbnailKey (d_us D) (ID av) sz)"
    and shown: "AvatarContent (server_service D) (ID av) sz u = (Inr c, u')" "sz \<in> set ThumbnailSizes"
  shows "\<exists>th d. Thumbnails (d_codec D) (d_image D) (rs_data (u_File inp), None) ThumbnailSizes = Inr th
    \<and> th sz = Some d \<and> c_ContentType c = ThumbnailMimeType \<and> c_Size c = int (length d)
    \<and> c_MaxAge c = cacheReady \<and> \<not> c_IsDefault c \<and> (c_BodyErr c = None \<longrightarrow> c_Body c = d)"
proof -
  note U = stored_upload [OF dep inv run unread]
  have t1: "table_ok (w_tbl w1)"
    using deployed.svc_Upload_any(1) [OF dep inv run] db_steps_table_ok inv(3) by blast
  have tv: "table_ok (w_tbl v)" by (rule db_steps_table_ok [OF worker(2) t1])
  from U obtain r1 where r1: "find_row (ID av) (w_tbl w1) = Some r1" "s3_key r1 = S3Key av" by blast
  from row_persists [OF worker(2) r1(1)] obtain r2 where r2: "find_row (ID av) (w_tbl v) = Some r2" "row_evolves r1 r2" by blast
  from U sent obtain m where "typ = RoutingKeyUploaded"
    and body: "body = Some (Marshal (UploadEvent (NewUploadEvent (d_us D) m (ID av) (UserID av) (S3Key av))))"
    by (auto simp: wire_def)
  then have did: "uploaded (worker_handler D) msg v = (None, v')" using handled(1,2) by (simp add: dispatch_def)
  have ev: "UnmarshalUpload (msg_Body msg) = Inr \<lparr>ue_MessageID = utf8_fix m, ue_AvatarID = d_us D (ID av),
      ue_UserID = utf8_fix (UserID av), ue_S3Key = utf8_fix (S3Key av)\<rparr>" (is "_ = Inr ?ev")
    using handled(3) printable_well_formed [OF uuid(2)] by (simp add: body UnmarshalUpload_Marshal NewUploadEvent_def)
  have id: "d_up D (ue_AvatarID ?ev) = Some (ID av)" using uuid(1) by simp
  obtain bl th d r' mp et where bl: "w_objs objs v (s3_key r2) = Some bl"
    and th: "Thumbnails (d_codec D) (d_image D) (bl_data bl, None) ThumbnailSizes = Inr th" "th sz = Some d"
    and row: "find_row (ID av) (w_tbl v') = Some r'" "processing_status r' = ProcessingStatusCompleted"
      "thumbnail_s3_keys r' = Some mp" "mp sz = Some (ThumbnailKey (d_us D) (ID av) sz)"
    and ob: "w_objs objs v' (ThumbnailKey (d_us D) (ID av) sz) = Some \<lparr>bl_data = d, bl_type = ThumbnailMimeType, bl_etag = et\<rparr>"
    and ok: "table_ok (w_tbl v')"
    using deployed.counted_completes [OF dep worker(1) tv did handled(4) ev id r2(1) shown(2)] by blast
  have "bl_data bl = rs_data (u_File inp)" using U bl r2(2) r1(2) worker(3) by (auto simp: row_evolves_def)
  moreover from deployed.completed_shown [OF dep later(1) ok later(2) row shown(2,1)] later(3) shown(2) ob
  have "c_MaxAge c = cacheReady \<and> c_ContentType c = ThumbnailMimeType \<and> c_Size c = int (length d)
      \<and> \<not> c_IsDefault c \<and> (c_BodyErr c = None \<longrightarrow> c_Body c = d)" by auto
  ultimately show ?thesis using th by auto
qed

definition world2 :: "(bucket_server, amqp_server, gb) world" where
  "world2 = snd (dispatch (worker_handler deps0) msg0 world1)"

lemma dispatched0: "dispatch (worker_handler deps0) msg0 world1 = (None, world2)"
proof -
  have "fst (dispatch (worker_handler deps0) msg0 world1) = None" by code_simp
  then show ?thesis by (simp add: world2_def prod_eq_iff)
qed

lemma counted0: "m_processing world2 ''success'' = 1 \<and> m_processing world1 ''success'' = 0"
  by code_simp

lemma sent_view:
  "w_sent server_view w = map snd (filter (\<lambda>(e, c). e = exchangeEvents)
     (map (\<lambda>(e, k, m). (e, content m)) (as_routed (w_mq w))))"
  by (simp add: w_sent_def events_sent_def server_view_def filter_map comp_def split_def)

lemma sent0: "w_sent server_view world1 = w_sent server_view world0 @ [(RoutingKeyUploaded, ''m'', msg_Body msg0)]"
proof -
  have "map (\<lambda>(e, k, m). (e, content m)) (as_routed (w_mq world1))
      = [(exchangeEvents, RoutingKeyUploaded, ''m'', msg_Body msg0)]" by code_simp
  then show ?thesis unfolding sent_view by (simp add: world0_def mq0_def)
qed

lemma shown0: "is_ok (fst (AvatarContent (server_service deps0) 7 ThumbnailSmall world2))"
  by code_simp

lemma world2_fair: "w_fair world2"
proof -
  have up: "uploaded (worker_handler deps0) msg0 world1 = (None, world2)"
    using dispatched0 by (simp add: dispatch_def msg0_def)
  show ?thesis using depl.hdl_steps [OF world1_fair(1,3) up] by blast
qed

theorem upload_becomes_picture_witness:
  "\<exists>c u' th. AvatarContent (server_service deps0) 7 ThumbnailSmall world2 = (Inr c, u')
     \<and> Thumbnails codec0 (d_image deps0) (jpeg0, None) ThumbnailSizes = Inr th
     \<and> c_ContentType c = ThumbnailMimeType \<and> c_MaxAge c = cacheReady"
proof -
  obtain av where run: "Upload (server_service deps0) upload0 world0 = (Inr av, world1)"
    using upload0_ok by (cases "Upload (server_service deps0) upload0 world0") (auto simp: world1_def is_ok_def split: sum.splits)
  have f: "rs_pos (u_File upload0) = 0" "u_Size upload0 = int (length (rs_data (u_File upload0)))"
    "rs_data (u_File upload0) = jpeg0"
    by (simp_all add: upload0_def jpeg0_def jpegSig_def)
  from stored_upload [OF depl.deployed_axioms world0_fair run f(1,2)] obtain r where
    "find_row (ID av) (w_tbl world1) = Some r" by blast
  from find_row_Some [OF this] have "ID av \<in> set (map row_id (w_tbl world1))" by (metis image_eqI set_map)
  also have "map row_id (w_tbl world1) = [7]" using arg_cong [OF world1_row, of "map fst"] by (simp add: comp_def case_prod_beta)
  finally have i: "ID av = 7" by simp
  obtain c u' where shown: "AvatarContent (server_service deps0) 7 ThumbnailSmall world2 = (Inr c, u')"
    using shown0 by (cases "AvatarContent (server_service deps0) 7 ThumbnailSmall world2") (auto simp: is_ok_def split: sum.splits)
  have ops: "d_up deps0 (d_us deps0 (ID av)) = Some (ID av)" "\<forall>c\<in>set (d_us deps0 (ID av)). byte c < 128"
    by (simp_all add: i deps0_def us0_def parse0_def byte_def)
  have cnt: "m_processing world2 (status_label True) \<noteq> m_processing world1 (status_label True)"
    using counted0 by (simp add: status_label_def)
  have small: "ThumbnailSmall \<in> set ThumbnailSizes" by (simp add: ThumbnailSizes_def)
  have ty: "msg_Type msg0 = RoutingKeyUploaded" by (simp add: msg0_def)
  from upload_becomes_picture [OF depl.deployed_axioms world0_fair run f(1,2) ops sent0 world1_fair(1) _ refl
      dispatched0 ty refl cnt world2_fair _ _ shown [folded i] small] shown f(3)
  show ?thesis by (auto simp: deps0_def)
qed

section \<open>From the deletion to the empty bucket\<close>

text \<open>Every row names the key its identifier gives, as \<open>Upload\<close> creates it.\<close>

definition own_keys :: "(uuid \<Rightarrow> string) \<Rightarrow> table \<Rightarrow> bool" where
  "own_keys us t \<longleftrightarrow> (\<forall>r\<in>set t. s3_key r = OriginalKey us (row_id r))"

context deployed
begin

lemma svc_Delete_steps:
  assumes "w_fair w" and "Delete (server_service D) i req w = (res, w')"
  shows "w_fair w' \<and> db_step\<^sup>*\<^sup>* (w_tbl w) (w_tbl w')"
proof -
  obtain g w1 where get: "sr_Get (svc_repo (server_service D)) i w = (g, w1)" by fastforce
  note G = svc.repo.Get_fair [OF assms(1) get] svc.repo.Get_steps [OF assms(1) get]
  show ?thesis
  proof (cases g)
    case (Inl e)
    with assms(2) get G show ?thesis by (auto simp: Delete_def svc.IncDelete_frame)
  next
    case (Inr a)
    obtain w2 where rm: "remove (server_service D) a req w1 = (res, w2)" and w': "w_tbl w' = w_tbl w2" "w_fair w' = w_fair w2"
      using assms(2) get Inr by (auto simp: Delete_def Let_def svc.IncDelete_frame split: prod.splits)
    have "w_fair w2 \<and> db_step\<^sup>*\<^sup>* (w_tbl w1) (w_tbl w2)"
    proof (cases "UserID a = req")
      case False
      with rm G(1) show ?thesis by (simp add: remove_def)
    next
      case True
      obtain sd w3 where soft: "sr_SoftDelete (svc_repo (server_service D)) (ID a) w1 = (sd, w3)" by fastforce
      note S = svc.repo.SoftDelete_fair [OF G(1) soft] svc.repo.SoftDelete_steps [OF G(1) soft]
      show ?thesis
      proof (cases sd)
        case (Some e)
        with rm True soft S show ?thesis by (auto simp: remove_def)
      next
        case None
        obtain m w4 where mid: "svc_NewString (server_service D) w3 = (m, w4)" by fastforce
        let ?keys = "StorageKeys (svc_us (server_service D)) a"
        obtain p w5 where pub: "pub_Publish (svc_publisher (server_service D))
            (DeleteEvent (NewDeleteEvent (svc_us (server_service D)) m (ID a) ?keys)) w4 = (p, w5)" by fastforce
        have f: "w_tbl w5 = w_tbl w3" "w_fair w5" using svc.frames(12) [OF mid] svc.frames(10) [OF pub] S(1) by auto
        have "w2 = (if p = None then w5 else removeFiles (server_service D) (ID a) ?keys w5)"
          using rm True soft None mid pub by (auto simp: remove_def Let_def split: option.splits)
        with svc.removeFiles_spec(1) [OF f(2) refl, of "ID a" ?keys] f S(2) show ?thesis
          by (auto split: if_splits)
      qed
    qed
    with G(2) w' show ?thesis by (auto intro: rtranclp_trans)
  qed
qed

lemma hdl_deleted_steps:
  assumes "w_fair w" and "deleted (worker_handler D) msg w = (res, w')"
  shows "db_step\<^sup>*\<^sup>* (w_tbl w) (w_tbl w')"
proof -
  have mark: "db_step\<^sup>*\<^sup>* (w_tbl v) (w_tbl v')"
    if "w_fair v" "hr_MarkFilesRemoved (wh_repo (worker_handler D)) i v = (q, v')" for v v' i q
    using hdl.repo.Mark_steps [OF that] .
  from assms show ?thesis
    by (auto simp: deleted_def dest!: hdl.frames(8) mark [rotated] split: sum.splits option.splits prod.splits if_splits)
qed

text \<open>What the service has deleted it never shows again.\<close>

lemma deleted_hidden:
  assumes w: "w_fair w" "w_up obs w" "table_ok (w_tbl w)" and run: "Delete (server_service D) i req w = (None, w1)"
    and u: "w_fair u" "db_step\<^sup>*\<^sup>* (w_tbl w1) (w_tbl u)"
  shows "AvatarContent (server_service D) i sz u \<noteq> (Inr c, u')"
proof
  assume c: "AvatarContent (server_service D) i sz u = (Inr c, u')"
  obtain r1 where "find_row i (w_tbl w1) = Some r1" "deleted_at r1 \<noteq> None"
    using svc_Delete(1) [OF w(1,2) run refl] by blast
  note stays = svc.deleted_stays [OF this u(2)]
  have "table_ok (w_tbl u)"
    using db_steps_table_ok svc_Delete_steps [OF w(1) run] w(3) u(2) by blast
  from svc_AvatarContent [OF u(1) this c] stays show False by (auto simp: live_def)
qed

text \<open>A delivery of its event that is settled without an error leaves none of its files.\<close>

lemma deleted_gone:
  assumes w: "w_fair w" "w_up obs w" "own_keys (d_us D) (w_tbl w)"
    and run: "Delete (server_service D) i req w = (None, w1)"
    and uuid: "d_up D (d_us D i) = Some i" "\<forall>c\<in>set (d_us D i). byte c < 128"
    and sent: "w_sent obs w1 = w_sent obs w @ [(typ, mid, body)]"
    and v: "w_fair v" "db_step\<^sup>*\<^sup>* (w_tbl w1) (w_tbl v)"
    and msg: "msg_Type msg = typ" "msg_Body msg = body" and handled: "dispatch (worker_handler D) msg v = (None, v')"
  shows "\<exists>r. find_row i (w_tbl v') = Some r \<and> deleted_at r \<noteq> None \<and> files_removed_at r \<noteq> None"
    and "w_objs objs v' k = (if k \<in> insert (OriginalKey (d_us D) i) (ThumbnailKey (d_us D) i ` set ThumbnailSizes)
           then None else w_objs objs v k)"
proof -
  from svc_Delete(1) [OF w(1,2) run refl] obtain r r1 m where r: "live_row i (w_tbl w) = Some r"
    and r1: "find_row i (w_tbl w1) = Some r1" "deleted_at r1 \<noteq> None"
    and ev: "w_sent obs w1 = w_sent obs w \<or> w_sent obs w1 = w_sent obs w @ [wire (DeleteEvent
          (NewDeleteEvent (d_us D) m i (StorageKeys (d_us D) (scanAvatar r))))]"
    unfolding server_service_ops by blast
  let ?keys = "StorageKeys (d_us D) (scanAvatar r)"
  have row: "ID (scanAvatar r) = i" "S3Key (scanAvatar r) = OriginalKey (d_us D) i"
    using live_row_Some [OF r] w(3) by (auto simp: scanAvatar_def own_keys_def)
  then have keys: "set ?keys = insert (OriginalKey (d_us D) i) (ThumbnailKey (d_us D) i ` set ThumbnailSizes)"
    by (simp add: StorageKeys_def)
  from ev sent have ty: "typ = RoutingKeyDeleted"
    and body: "body = Some (Marshal (DeleteEvent (NewDeleteEvent (d_us D) m i ?keys)))" by (auto simp: wire_def)
  have del: "deleted (worker_handler D) msg v = (None, v')"
    using handled msg(1) ty by (simp add: dispatch_def RoutingKeyDeleted_def RoutingKeyUploaded_def)
  have um: "UnmarshalDelete (msg_Body msg) = Inr \<lparr>de_MessageID = utf8_fix m, de_AvatarID = d_us D i, de_S3Keys = ?keys\<rparr>"
    using msg(2) printable_well_formed [OF uuid(2)] storage_keys_ascii [of "d_us D" "scanAvatar r"] uuid(2)
    by (simp add: body UnmarshalDelete_Marshal NewDeleteEvent_def row)
  note G = hdl_deleted [OF v(1) del, unfolded worker_handler_ops]
  from G(1) [OF refl] um uuid(1) obtain r2 where r2: "find_row i (w_tbl v') = Some r2" "files_removed_at r2 \<noteq> None"
    and gone: "\<forall>k\<in>set ?keys. w_objs objs v' k = None" by auto
  have "db_step\<^sup>*\<^sup>* (w_tbl w1) (w_tbl v')" using v(2) hdl_deleted_steps [OF v(1) del] by simp
  from svc.deleted_stays [OF r1 this] r2
  show "\<exists>r. find_row i (w_tbl v') = Some r \<and> deleted_at r \<noteq> None \<and> files_removed_at r \<noteq> None" by auto
  show "w_objs objs v' k = (if k \<in> insert (OriginalKey (d_us D) i) (ThumbnailKey (d_us D) i ` set ThumbnailSizes)
           then None else w_objs objs v k)"
    using gone G(3) [OF um] keys by auto
qed

end


definition world_d :: "(bucket_server, amqp_server, gb) world" where
  "world_d = snd (Delete (server_service deps0) 7 ''alice'' world1)"

definition del_msg1 :: Message where
  "del_msg1 = msg0\<lparr>msg_Type := RoutingKeyDeleted, msg_Body := Some (Marshal (DeleteEvent
     (NewDeleteEvent us0 ''m'' 7 (OriginalKey us0 7 # map (ThumbnailKey us0 7) ThumbnailSizes))))\<rparr>"

lemma deleted0: "fst (Delete (server_service deps0) 7 ''alice'' world1) = None"
  by code_simp

lemma cleaned0: "fst (dispatch (worker_handler deps0) del_msg1 world_d) = None"
  by code_simp

lemma world1_keys: "own_keys us0 (w_tbl world1)"
proof -
  have "map (\<lambda>r. (row_id r, s3_key r)) (w_tbl world1) = [(7, OriginalKey us0 7)]" by code_simp
  then show ?thesis by (auto simp: own_keys_def)
qed

lemma sent1: "w_sent server_view world_d = w_sent server_view world1 @ [(RoutingKeyDeleted, ''m'', msg_Body del_msg1)]"
proof -
  have "map (\<lambda>(e, k, m). (e, content m)) (as_routed (w_mq world_d))
   = [(exchangeEvents, RoutingKeyUploaded, ''m'', msg_Body msg0), (exchangeEvents, RoutingKeyDeleted, ''m'', msg_Body del_msg1)]"
    by code_simp
  moreover have "w_sent server_view world1 = [(RoutingKeyUploaded, ''m'', msg_Body msg0)]"
    unfolding sent0 by (simp add: w_sent_def events_sent_def server_view_def world0_def mq0_def)
  ultimately show ?thesis by (simp add: sent_view [of world_d])
qed

lemma deletion0: "Delete (server_service deps0) 7 ''alice'' world1 = (None, world_d)"
  using deleted0 by (simp add: world_d_def prod_eq_iff)

lemma world_d_fair: "w_fair world_d"
  using depl.svc_Delete_steps [OF world1_fair(1) deletion0] by blast


end
