(* ===== verification/ConsumerPool.thy ===== *)
theory ConsumerPool
  imports Examples
begin

text \<open>
  The goroutines of \<open>Consume\<close> in \<open>internal/broker/consumer.go\<close> as a transition system: the pump,
  the \<open>prefetch\<close> workers, the unbuffered channel \<open>jobs\<close> between them, and what the client library
  and the context do from outside. \<open>Consume\<close> of \<open>BrokerConsumer\<close> is one schedule of it. A
  worker's call of \<open>process\<close> takes effect as a whole at its end: what other goroutines do to the
  database meanwhile is in the model of the database, the publisher serialises itself.
\<close>

section \<open>The goroutines\<close>

text \<open>
  The pump waits in its outer \<open>select\<close>, offers a delivery in the inner one, or has returned and
  closed \<open>jobs\<close>. A worker waits for a job, is in \<open>process\<close>, or has left its loop.
\<close>

datatype pump_pc = Selecting | Offering Delivery | Pumped "error option"

datatype worker_pc = Idle | Busy Delivery | Exited

text \<open>
  \<open>po_buffer\<close> is what the channel of deliveries holds, \<open>po_stopped\<close> that it is closed; \<open>po_closed\<close>
  is the notice that the channel of the broker is gone, \<open>po_done\<close> that the context is. The result
  is there once \<open>Consume\<close> has returned. For the proofs it is noted what has arrived, what the
  workers were given, what they have finished with, and what the pump left when it returned.
\<close>

record 'w pool =
  po_pump :: pump_pc
  po_workers :: "worker_pc list"
  po_buffer :: "Delivery list"
  po_stopped :: bool
  po_closed :: "amqp_error option"
  po_done :: bool
  po_result :: "error option option"
  po_state :: 'w
  po_arrived :: "Delivery list"
  po_given :: "Delivery list"
  po_finished :: "Delivery list"
  po_left :: "Delivery list"

text \<open>\<open>Consume\<close> up to its call of \<open>pump\<close>.\<close>

definition pool_of :: "Consumer \<Rightarrow> 'w \<Rightarrow> 'w pool" where
  "pool_of K w =
     \<lparr>po_pump = Selecting, po_workers = replicate (nat (k_prefetch K)) Idle, po_buffer = [], po_stopped = False,
      po_closed = None, po_done = False, po_result = None, po_state = w,
      po_arrived = [], po_given = [], po_finished = [], po_left = []\<rparr>"

definition Consume_start ::
  "'c amqp \<Rightarrow> Consumer \<Rightarrow> 'h \<times> pubst \<times> 'c \<Rightarrow> (error \<times> 'h \<times> pubst \<times> 'c) + ('h \<times> pubst \<times> 'c) pool" where
  "Consume_start C K w =
     (let (h, p, c) = w
      in case ac_Qos C (k_ch K) (k_prefetch K) c of
           (Some e, c) \<Rightarrow> Inl (wrapf (amqp_err e), h, p, c)
         | (None, c) \<Rightarrow>
             (case ac_Consume C (k_ch K) queueProcess c of
                (Some e, c) \<Rightarrow> Inl (wrapf (amqp_err e), h, p, c)
              | (None, c) \<Rightarrow> Inr (pool_of K (h, p, c))))"

section \<open>The steps\<close>

text \<open>
  What the code does: the cases of the two \<open>select\<close>s (any of those that are ready may be taken),
  the workers' loop over \<open>jobs\<close>, and the return after \<open>wg.Wait\<close>.
\<close>

inductive pool_step ::
  "'c amqp \<Rightarrow> Consumer \<Rightarrow> 'h Handler \<Rightarrow> ('h \<times> pubst \<times> 'c) pool \<Rightarrow> ('h \<times> pubst \<times> 'c) pool \<Rightarrow> bool"
  for C K handler where
  see_done: "po_pump s = Selecting \<Longrightarrow> po_done s \<Longrightarrow> pool_step C K handler s (s\<lparr>po_pump := Pumped None\<rparr>)"
| see_closed: "po_pump s = Selecting \<Longrightarrow> po_closed s = Some e \<Longrightarrow>
    pool_step C K handler s (s\<lparr>po_pump := Pumped (Some (wrapf (amqp_err e)))\<rparr>)"
| see_stopped: "po_pump s = Selecting \<Longrightarrow> po_buffer s = [] \<Longrightarrow> po_stopped s \<Longrightarrow>
    pool_step C K handler s (s\<lparr>po_pump := Pumped (Some ErrText)\<rparr>)"
| receive: "po_pump s = Selecting \<Longrightarrow> po_buffer s = d # ds \<Longrightarrow>
    pool_step C K handler s (s\<lparr>po_pump := Offering d, po_buffer := ds\<rparr>)"
| give: "po_pump s = Offering d \<Longrightarrow> i < length (po_workers s) \<Longrightarrow> po_workers s ! i = Idle \<Longrightarrow>
    pool_step C K handler s (s\<lparr>po_pump := Selecting, po_workers := (po_workers s)[i := Busy d],
      po_given := po_given s @ [d]\<rparr>)"
| leave: "po_pump s = Offering d \<Longrightarrow> po_done s \<Longrightarrow>
    pool_step C K handler s (s\<lparr>po_pump := Pumped None, po_left := [d]\<rparr>)"
| finish: "i < length (po_workers s) \<Longrightarrow> po_workers s ! i = Busy d \<Longrightarrow> process C K handler d (po_state s) = Some w \<Longrightarrow>
    pool_step C K handler s (s\<lparr>po_workers := (po_workers s)[i := Idle], po_state := w,
      po_finished := po_finished s @ [d]\<rparr>)"
| quit: "po_pump s = Pumped r \<Longrightarrow> i < length (po_workers s) \<Longrightarrow> po_workers s ! i = Idle \<Longrightarrow>
    pool_step C K handler s (s\<lparr>po_workers := (po_workers s)[i := Exited]\<rparr>)"
| return: "po_pump s = Pumped r \<Longrightarrow> set (po_workers s) \<subseteq> {Exited} \<Longrightarrow> po_result s = None \<Longrightarrow>
    pool_step C K handler s (s\<lparr>po_result := Some r\<rparr>)"

text \<open>What happens from outside: a delivery, the end of the context, of the channel, of the deliveries.\<close>

inductive pool_env :: "'w pool \<Rightarrow> 'w pool \<Rightarrow> bool" where
  arrive: "\<not> po_stopped s \<Longrightarrow>
    pool_env s (s\<lparr>po_buffer := po_buffer s @ [d], po_arrived := po_arrived s @ [d]\<rparr>)"
| cancel: "pool_env s (s\<lparr>po_done := True\<rparr>)"
| lose: "po_closed s = None \<Longrightarrow> pool_env s (s\<lparr>po_closed := Some e\<rparr>)"
| stop: "pool_env s (s\<lparr>po_stopped := True\<rparr>)"

definition pool_run ::
  "'c amqp \<Rightarrow> Consumer \<Rightarrow> 'h Handler \<Rightarrow> ('h \<times> pubst \<times> 'c) pool \<Rightarrow> ('h \<times> pubst \<times> 'c) pool \<Rightarrow> bool" where
  "pool_run C K handler = (\<lambda>s s'. pool_step C K handler s s' \<or> pool_env s s')\<^sup>*\<^sup>*"

definition work_over :: "'w pool \<Rightarrow> bool" where
  "work_over s \<longleftrightarrow> po_done s \<or> po_closed s \<noteq> None \<or> po_stopped s"

section \<open>What every reachable state satisfies\<close>

definition offered :: "'w pool \<Rightarrow> Delivery list" where
  "offered s = (case po_pump s of Offering d \<Rightarrow> [d] | _ \<Rightarrow> [])"

fun jobs_of :: "worker_pc list \<Rightarrow> Delivery list" where
  "jobs_of [] = []"
| "jobs_of (Busy d # ws) = d # jobs_of ws"
| "jobs_of (_ # ws) = jobs_of ws"

text \<open>Why the pump has returned, as the last event it has seen.\<close>

definition pump_end :: "'w pool \<Rightarrow> error option \<Rightarrow> pump_event \<Rightarrow> bool" where
  "pump_end s r ev \<longleftrightarrow>
     (case ev of
        CtxDone \<Rightarrow> po_done s \<and> r = None \<and> po_left s = []
      | Delivered d taken \<Rightarrow> \<not> taken \<and> po_done s \<and> r = None \<and> po_left s = [d]
      | ChannelClosed e \<Rightarrow> po_closed s = Some e \<and> r = Some (wrapf (amqp_err e)) \<and> po_left s = []
      | DeliveriesStopped \<Rightarrow> po_stopped s \<and> r = Some ErrText \<and> po_left s = [])"

text \<open>
  Nothing that arrived is lost from sight, in the order it came; each worker's job was given to
  it and is not finished; the state is what \<open>process\<close> has made of the start, one finished
  delivery after the other; a worker has left only after the pump, \<open>Consume\<close> returned only
  after all of them.
\<close>

definition pool_inv ::
  "'c amqp \<Rightarrow> Consumer \<Rightarrow> 'h Handler \<Rightarrow> 'h \<times> pubst \<times> 'c \<Rightarrow> ('h \<times> pubst \<times> 'c) pool \<Rightarrow> bool" where
  "pool_inv C K handler w s \<longleftrightarrow>
     po_arrived s = po_given s @ po_left s @ offered s @ po_buffer s
   \<and> mset (po_given s) = mset (po_finished s) + mset (jobs_of (po_workers s))
   \<and> process_all C K handler (po_finished s) w = Some (po_state s)
   \<and> length (po_workers s) = nat (k_prefetch K)
   \<and> (case po_pump s of
        Pumped r \<Rightarrow> \<exists>ev. pump_end s r ev
      | _ \<Rightarrow> Exited \<notin> set (po_workers s) \<and> po_left s = [])
   \<and> (case po_result s of
        Some r \<Rightarrow> po_pump s = Pumped r \<and> set (po_workers s) \<subseteq> {Exited}
      | None \<Rightarrow> True)"

lemma jobs_of_replicate [simp]: "jobs_of (replicate n Idle) = []"
  by (induction n) auto

lemma jobs_of_exited: "set ws \<subseteq> {Exited} \<Longrightarrow> jobs_of ws = []"
  by (induction ws) auto

lemma jobs_of_length: "length (jobs_of ws) \<le> length ws"
  by (induction ws rule: jobs_of.induct) auto

lemma mset_jobs_update:
  "i < length ws \<Longrightarrow> mset (jobs_of (ws[i := v])) + mset (jobs_of [ws ! i]) = mset (jobs_of ws) + mset (jobs_of [v])"
proof (induction ws arbitrary: i)
  case (Cons u ws)
  show ?case
  proof (cases i)
    case 0
    then show ?thesis by (cases u; cases v) auto
  next
    case (Suc j)
    with Cons.IH [of j] Cons.prems show ?thesis by (cases u) (auto simp: add_ac)
  qed
qed simp

lemma mset_jobs_idle:
  "i < length ws \<Longrightarrow> ws ! i = Idle \<Longrightarrow> mset (jobs_of (ws[i := Busy d])) = add_mset d (mset (jobs_of ws))"
  "i < length ws \<Longrightarrow> ws ! i = Idle \<Longrightarrow> mset (jobs_of (ws[i := Exited])) = mset (jobs_of ws)"
  "i < length ws \<Longrightarrow> ws ! i = Busy d \<Longrightarrow> add_mset d (mset (jobs_of (ws[i := Idle]))) = mset (jobs_of ws)"
  using mset_jobs_update [of i ws "Busy d"] mset_jobs_update [of i ws Exited] mset_jobs_update [of i ws Idle] by simp_all

lemma process_all_append:
  "process_all C K handler (ds @ es) w = Option.bind (process_all C K handler ds w) (process_all C K handler es)"
  by (induction ds arbitrary: w) (auto split: option.splits)

lemma pump_ended:
  assumes "pump_end s r ev"
  shows "pump (map (\<lambda>d. Delivered d True) ds @ [ev]) = (Some r, ds)"
  by (induction ds) (use assms in \<open>auto simp: pump_end_def split: pump_event.splits\<close>)

lemma pool_inv_start: "pool_inv C K handler w (pool_of K w)"
  by (simp add: pool_inv_def pool_of_def offered_def)

lemma in_update: "x \<in> set (xs[i := v]) \<Longrightarrow> x = v \<or> x \<in> set xs"
  using set_update_subset_insert [of xs i v] by blast

lemma pool_step_inv:
  assumes "pool_step C K handler s s'" and "pool_inv C K handler w s"
  shows "pool_inv C K handler w s'"
  using assms
proof (induction rule: pool_step.induct)
  case (see_done s)
  then have "pump_end (s\<lparr>po_pump := Pumped None\<rparr>) None CtxDone" by (simp add: pump_end_def pool_inv_def)
  with see_done show ?case by (auto simp: pool_inv_def offered_def split: option.splits)
next
  case (see_closed s e)
  then have "pump_end (s\<lparr>po_pump := Pumped (Some (wrapf (amqp_err e)))\<rparr>) (Some (wrapf (amqp_err e))) (ChannelClosed e)"
    by (simp add: pump_end_def pool_inv_def)
  with see_closed show ?case by (auto simp: pool_inv_def offered_def split: option.splits)
next
  case (see_stopped s)
  then have "pump_end (s\<lparr>po_pump := Pumped (Some ErrText)\<rparr>) (Some ErrText) DeliveriesStopped"
    by (simp add: pump_end_def pool_inv_def)
  with see_stopped show ?case by (auto simp: pool_inv_def offered_def split: option.splits)
next
  case (receive s d ds)
  then show ?case by (auto simp: pool_inv_def offered_def split: option.splits)
next
  case (give s d i)
  then have "Exited \<notin> set ((po_workers s)[i := Busy d])" by (auto simp: pool_inv_def dest: in_update)
  with give show ?case by (auto simp: pool_inv_def offered_def mset_jobs_idle split: option.splits)
next
  case (leave s d)
  then have "pump_end (s\<lparr>po_pump := Pumped None, po_left := [d]\<rparr>) None (Delivered d False)"
    by (simp add: pump_end_def pool_inv_def)
  with leave show ?case by (auto simp: pool_inv_def offered_def split: option.splits)
next
  case (finish i s d w')
  let ?s = "s\<lparr>po_workers := (po_workers s)[i := Idle], po_state := w', po_finished := po_finished s @ [d]\<rparr>"
  have same: "pump_end ?s = pump_end s" by (intro ext) (simp add: pump_end_def split: pump_event.split)
  have "po_result s = None"
  proof (rule ccontr)
    assume "po_result s \<noteq> None"
    with finish.prems have "set (po_workers s) \<subseteq> {Exited}" by (auto simp: pool_inv_def)
    moreover have "Busy d \<in> set (po_workers s)" using finish.hyps(1,2) by (auto simp: in_set_conv_nth)
    ultimately show False by blast
  qed
  moreover have "Exited \<notin> set (po_workers s) \<Longrightarrow> Exited \<notin> set ((po_workers s)[i := Idle])" by (auto dest: in_update)
  moreover have "process_all C K handler (po_finished s @ [d]) w = Some w'"
    using finish by (simp add: pool_inv_def process_all_append)
  moreover have "mset (po_given s) = mset (po_finished s @ [d]) + mset (jobs_of ((po_workers s)[i := Idle]))"
    using finish mset_jobs_idle(3) [OF finish.hyps(1,2)] by (simp add: pool_inv_def)
  moreover have "offered ?s = offered s" by (simp add: offered_def)
  ultimately show ?case using finish.prems by (auto simp: pool_inv_def same split: pump_pc.splits)
next
  case (quit s r i)
  let ?s = "s\<lparr>po_workers := (po_workers s)[i := Exited]\<rparr>"
  have same: "pump_end ?s = pump_end s" by (intro ext) (simp add: pump_end_def split: pump_event.split)
  have "set ((po_workers s)[i := Exited]) \<subseteq> {Exited}" if "set (po_workers s) \<subseteq> {Exited}" using that by (auto dest: in_update)
  with quit show ?case by (auto simp: pool_inv_def offered_def mset_jobs_idle same split: option.splits)
next
  case (return s r)
  let ?s = "s\<lparr>po_result := Some r\<rparr>"
  have same: "pump_end ?s = pump_end s" by (intro ext) (simp add: pump_end_def split: pump_event.split)
  from return show ?case by (auto simp: pool_inv_def offered_def same)
qed

lemma pump_end_env: "pool_env s s' \<Longrightarrow> pump_end s r ev \<Longrightarrow> pump_end s' r ev"
  by (induction rule: pool_env.induct) (auto simp: pump_end_def split: pump_event.splits)

lemma pool_env_inv:
  assumes "pool_env s s'" and "pool_inv C K handler w s"
  shows "pool_inv C K handler w s'"
proof -
  have "po_pump s' = po_pump s \<and> po_result s' = po_result s \<and> po_workers s' = po_workers s \<and> po_left s' = po_left s
      \<and> po_given s' = po_given s \<and> po_finished s' = po_finished s \<and> po_state s' = po_state s
      \<and> (\<exists>ds. po_buffer s' = po_buffer s @ ds \<and> po_arrived s' = po_arrived s @ ds)"
    using assms(1) by cases auto
  with assms(2) pump_end_env [OF assms(1)] show ?thesis
    by (auto simp: pool_inv_def offered_def split: pump_pc.splits option.splits)
qed

lemma pool_reachable:
  assumes "pool_run C K handler (pool_of K w) s"
  shows "pool_inv C K handler w s"
  using assms unfolding pool_run_def
  by (induction rule: rtranclp_induct) (auto intro: pool_inv_start pool_step_inv pool_env_inv)

lemma pool_run_step: "pool_step C K handler s s' \<Longrightarrow> pool_run C K handler s0 s \<Longrightarrow> pool_run C K handler s0 s'"
  unfolding pool_run_def
  by (rule rtranclp.rtrancl_into_rtrancl [where r = "\<lambda>s s'. pool_step C K handler s s' \<or> pool_env s s'"]) blast+

section \<open>It ends\<close>

text \<open>A bound on the steps the code can still do by itself.\<close>

fun worker_rank :: "worker_pc \<Rightarrow> nat" where
  "worker_rank Idle = 1" | "worker_rank (Busy _) = 2" | "worker_rank Exited = 0"

fun pump_rank :: "pump_pc \<Rightarrow> nat" where
  "pump_rank Selecting = 1" | "pump_rank (Offering _) = 3" | "pump_rank (Pumped _) = 0"

definition pool_rank :: "'w pool \<Rightarrow> nat" where
  "pool_rank s = pump_rank (po_pump s) + (\<Sum>v\<leftarrow>po_workers s. worker_rank v) + 3 * length (po_buffer s)
     + (if po_result s = None then 1 else 0)"

lemma ranks_update:
  "i < length ws \<Longrightarrow> (\<Sum>v\<leftarrow>ws[i := u]. worker_rank v) + worker_rank (ws ! i) = (\<Sum>v\<leftarrow>ws. worker_rank v) + worker_rank u"
proof (induction ws arbitrary: i)
  case (Cons v ws)
  then show ?case by (cases i) (auto simp: add_ac)
qed simp

lemma pool_step_rank: "pool_step C K handler s s' \<Longrightarrow> pool_rank s' < pool_rank s"
proof (induction rule: pool_step.induct)
  case (give s d i)
  then show ?case using ranks_update [of i "po_workers s" "Busy d"] by (simp add: pool_rank_def)
next
  case (finish i s d w)
  then show ?case using ranks_update [of i "po_workers s" Idle] by (simp add: pool_rank_def)
next
  case (quit s r i)
  then show ?case using ranks_update [of i "po_workers s" Exited] by (simp add: pool_rank_def)
qed (simp_all add: pool_rank_def)

lemma pool_steps_bounded:
  assumes "(pool_step C K handler ^^ n) s s'"
  shows "n + pool_rank s' \<le> pool_rank s"
  using assms
proof (induction n arbitrary: s')
  case (Suc n)
  then obtain t where t: "(pool_step C K handler ^^ n) s t" "pool_step C K handler t s'" by auto
  from Suc.IH [OF t(1)] pool_step_rank [OF t(2)] show ?case by simp
qed simp

text \<open>\<open>process\<close> panics only without a ladder.\<close>

lemma process_returns: "k_levels K \<noteq> [] \<Longrightarrow> \<exists>w'. process C K handler d w = Some w'"
  using retryLevelFor_total [of "k_levels K" "attemptNumber (Headers d)"]
  by (cases "handle handler (message d) (fst w)")
    (auto simp: process_def Let_def split: option.splits prod.splits)

text \<open>Once the work has ended, a pool that has not returned is never stuck.\<close>

lemma pool_not_stuck:
  assumes inv: "pool_inv C K handler w s" and "work_over s" and "po_result s = None"
    and "0 < k_prefetch K" and lv: "k_levels K \<noteq> []"
  shows "\<exists>s'. pool_step C K handler s s'"
proof (cases "\<exists>i d. i < length (po_workers s) \<and> po_workers s ! i = Busy d")
  case True
  then obtain i d where "i < length (po_workers s)" "po_workers s ! i = Busy d" by blast
  with process_returns [OF lv] show ?thesis by (meson pool_step.finish)
next
  case False
  then have idle: "v = Idle \<or> v = Exited" if "v \<in> set (po_workers s)" for v
    using that by (cases v) (auto simp: in_set_conv_nth)
  have ne: "po_workers s \<noteq> []" using inv assms(4) by (auto simp: pool_inv_def)
  show ?thesis
  proof (cases "po_pump s")
    case Selecting
    with assms(2) show ?thesis
      by (cases "po_buffer s") (auto simp: work_over_def intro: pool_step.intros)
  next
    case (Offering d)
    with inv have "Exited \<notin> set (po_workers s)" by (simp add: pool_inv_def)
    moreover have "0 < length (po_workers s)" using ne by simp
    ultimately have "po_workers s ! 0 = Idle" using idle [of "po_workers s ! 0"] by (metis nth_mem)
    with Offering ne show ?thesis by (meson pool_step.give length_greater_0_conv)
  next
    case (Pumped r)
    show ?thesis
    proof (cases "Idle \<in> set (po_workers s)")
      case True
      with Pumped show ?thesis by (metis in_set_conv_nth pool_step.quit)
    next
      case False
      with idle have "set (po_workers s) \<subseteq> {Exited}" by blast
      with Pumped assms(3) show ?thesis by (meson pool_step.return)
    qed
  qed
qed

text \<open>And what has ended stays so while the code goes on.\<close>

lemma pool_step_ended: "pool_step C K handler s s' \<Longrightarrow> work_over s \<Longrightarrow> work_over s'"
  by (induction rule: pool_step.induct) (auto simp: work_over_def)

section \<open>A run\<close>

text \<open>Two workers; a delivery is taken, and the context ends while it is processed.\<close>

definition consumer1 :: Consumer where
  "consumer1 = \<lparr>k_ch = 9, k_levels = newRetryLevels defaultRetryDelays, k_prefetch = 2\<rparr>"

lemma consumer1_levels: "k_levels consumer1 = k_levels consumer0" "k_ch consumer1 = k_ch consumer0"
  by (simp_all add: consumer1_def consumer0_def)

definition busy1 :: "'w pool \<Rightarrow> 'w pool" where
  "busy1 s = s\<lparr>po_workers := [Busy delivery0, Idle], po_done := True, po_arrived := [delivery0], po_given := [delivery0]\<rparr>"

lemma busy1_reached: "pool_run C consumer1 handler (pool_of consumer1 w) (busy1 (pool_of consumer1 w))"
proof -
  let ?R = "\<lambda>s s'. pool_step C consumer1 handler s s' \<or> pool_env s s'"
  let ?s = "pool_of consumer1 w"
  let ?s1 = "?s\<lparr>po_buffer := [delivery0], po_arrived := [delivery0]\<rparr>"
  let ?s2 = "?s1\<lparr>po_pump := Offering delivery0, po_buffer := []\<rparr>"
  let ?s3 = "?s\<lparr>po_workers := [Busy delivery0, Idle], po_arrived := [delivery0], po_given := [delivery0]\<rparr>"
  have ws: "po_workers ?s = [Idle, Idle]" and k: "0 < k_prefetch consumer1"
    by (simp_all add: pool_of_def consumer1_def numeral_2_eq_2)
  have a: "?R ?s ?s1" using pool_env.arrive [of ?s delivery0] by (simp add: pool_of_def)
  have b: "?R ?s1 ?s2" using pool_step.receive [of ?s1 delivery0 "[]"] by (simp add: pool_of_def)
  have c: "?R ?s2 ?s3"
    using pool_step.give [of ?s2 delivery0 0 C consumer1 handler] ws k by (simp add: pool_of_def)
  have d: "?R ?s3 (busy1 ?s)" using pool_env.cancel [of ?s3] by (simp add: busy1_def pool_of_def)
  show ?thesis unfolding pool_run_def
    by (rule converse_rtranclp_into_rtranclp [where r = ?R, OF a],
        rule converse_rtranclp_into_rtranclp [where r = ?R, OF b],
        rule converse_rtranclp_into_rtranclp [where r = ?R, OF c], rule r_into_rtranclp [where r = ?R, OF d])
qed

lemma started1: "\<exists>c. Consume_start amqp_server_client consumer1 (h, new_publisher, mq_empty) = Inr (pool_of consumer1 (h, new_publisher, c))"
  by (auto simp: Consume_start_def amqp_server_client_def as_request_def as_next_def mq_empty_def mq0_def wrap_amqp_def)

section \<open>Consuming\<close>

lemma Consume_start_pool:
  assumes "Consume_start C K w0 = Inr s0"
  obtains w where "s0 = pool_of K w"
    "\<And>evs r ds. pump evs = (r, ds) \<Longrightarrow> Consume C K handler evs w0 = map_option (\<lambda>w. (r, w)) (process_all C K handler ds w)"
proof -
  obtain h p c where w0: "w0 = (h, p, c)" by (cases w0)
  obtain c1 where q: "ac_Qos C (k_ch K) (k_prefetch K) c = (None, c1)"
    using assms w0 by (auto simp: Consume_start_def split: prod.splits option.splits)
  obtain c2 where m: "ac_Consume C (k_ch K) queueProcess c1 = (None, c2)" and s0: "s0 = pool_of K (h, p, c2)"
    using assms w0 q by (auto simp: Consume_start_def split: prod.splits option.splits)
  show ?thesis by (rule that [OF s0]) (simp add: Consume_def w0 q m)
qed

lemma rank_le: "(\<Sum>v\<leftarrow>ws. worker_rank v) \<le> 2 * length ws"
proof (induction ws)
  case (Cons v ws)
  then show ?case by (cases v) auto
qed simp

text \<open>
  (C7) \<open>Consume\<close> returns. Once the context is done, the channel is lost or the deliveries stop,
  however the goroutines are scheduled and whichever ready case their \<open>select\<close>s take, the code
  does at most three steps for each buffered delivery, two for each worker and four more, and
  cannot stop before it has returned: no worker waits for ever for a job, and the pump never
  waits for ever for a worker.
\<close>

theorem consume_returns:
  assumes "Consume_start C K w0 = Inr s0" and "pool_run C K handler s0 s" and "work_over s"
    and "0 < k_prefetch K" and "k_levels K \<noteq> []"
  shows "(\<forall>n s'. (pool_step C K handler ^^ n) s s' \<longrightarrow>
        n \<le> 3 * length (po_buffer s) + 2 * nat (k_prefetch K) + 4
      \<and> (po_result s' = None \<longrightarrow> (\<exists>s''. pool_step C K handler s' s'')))
    \<and> (\<exists>s'. (pool_step C K handler)\<^sup>*\<^sup>* s s' \<and> po_result s' \<noteq> None)"
proof -
  obtain w where s0: "s0 = pool_of K w" by (rule Consume_start_pool [OF assms(1)])
  note inv = pool_reachable [OF assms(2) [unfolded s0]]
  have bound: "n \<le> 3 * length (po_buffer s) + 2 * nat (k_prefetch K) + 4"
    if "(pool_step C K handler ^^ n) s s'" for n s'
  proof -
    have "pump_rank (po_pump s) \<le> 3" by (cases "po_pump s") auto
    moreover have "(\<Sum>v\<leftarrow>po_workers s. worker_rank v) \<le> 2 * nat (k_prefetch K)"
      using rank_le [of "po_workers s"] inv by (simp add: pool_inv_def)
    ultimately have "pool_rank s \<le> 3 * length (po_buffer s) + 2 * nat (k_prefetch K) + 4" by (simp add: pool_rank_def)
    with pool_steps_bounded [OF that] show ?thesis by simp
  qed
  have on: "pool_inv C K handler w s' \<and> work_over s'" if "(pool_step C K handler)\<^sup>*\<^sup>* s s'" for s'
    using that by (induction rule: rtranclp_induct) (use inv assms(3) in \<open>auto intro: pool_step_inv pool_step_ended\<close>)
  have live: "\<exists>s''. pool_step C K handler s' s''" if "(pool_step C K handler)\<^sup>*\<^sup>* s s'" "po_result s' = None" for s'
    using on [OF that(1)] pool_not_stuck that(2) assms(4,5) by blast
  have "\<exists>s'. (pool_step C K handler)\<^sup>*\<^sup>* t s' \<and> po_result s' \<noteq> None" if "(pool_step C K handler)\<^sup>*\<^sup>* s t" for t
    using that
  proof (induction "pool_rank t" arbitrary: t rule: less_induct)
    case less
    show ?case
    proof (cases "po_result t")
      case None
      then obtain u where u: "pool_step C K handler t u" using live [OF less.prems] by blast
      then have "(pool_step C K handler)\<^sup>*\<^sup>* s u" using less.prems by (rule rtranclp.rtrancl_into_rtrancl [rotated])
      from less.hyps [OF pool_step_rank [OF u] this] u show ?thesis by (meson converse_rtranclp_into_rtranclp)
    qed blast
  qed
  from this [OF rtranclp.rtrancl_refl]
  have "\<exists>s'. (pool_step C K handler)\<^sup>*\<^sup>* s s' \<and> po_result s' \<noteq> None" .
  then show ?thesis using bound live [OF relpowp_imp_rtranclp] by simp
qed

theorem consume_returns_witness:
  "\<exists>c s'. (pool_step amqp_server_client consumer1 (\<lambda>m h. (Returned None, h)))\<^sup>*\<^sup>*
       (busy1 (pool_of consumer1 ((), new_publisher, c))) s' \<and> po_result s' \<noteq> None"
proof -
  from started1 [of "()"] obtain c where c: "Consume_start amqp_server_client consumer1 ((), new_publisher, mq_empty)
      = Inr (pool_of consumer1 ((), new_publisher, c))" ..
  have "work_over (busy1 (pool_of consumer1 ((), new_publisher, c)))" "0 < k_prefetch consumer1" "k_levels consumer1 \<noteq> []"
    by (simp_all add: busy1_def work_over_def consumer1_def newRetryLevels_default)
  from consume_returns [OF c busy1_reached this, THEN conjunct2] show ?thesis by (rule exI)
qed

text \<open>
  (C8) What the workers take is settled, and by the time \<open>Consume\<close> returns all of it is: in every
  state at most \<open>prefetch\<close> of the deliveries given to workers are unfinished; deliveries are given
  in the order they arrive; the shared state is the one that \<open>process\<close> makes of the finished
  deliveries, each once. A return leaves at most one received delivery unprocessed, only when
  the context is done, and is a return of the sequential consumer for the finished deliveries.
\<close>

theorem consume_settles_what_it_takes:
  assumes "Consume_start C K w0 = Inr s0" and "pool_run C K handler s0 s"
  shows "po_arrived s = po_given s @ po_left s @ offered s @ po_buffer s
    \<and> length (po_given s) \<le> length (po_finished s) + nat (k_prefetch K)
    \<and> set (po_finished s) \<subseteq> set (po_given s)
    \<and> (case po_result s of
        None \<Rightarrow> True
      | Some r \<Rightarrow> mset (po_finished s) = mset (po_given s)
          \<and> (po_left s = [] \<or> r = None \<and> po_done s \<and> length (po_left s) = 1)
          \<and> (\<exists>ev. pump (map (\<lambda>d. Delivered d True) (po_given s) @ [ev]) = (Some r, po_given s)
               \<and> Consume C K handler (map (\<lambda>d. Delivered d True) (po_finished s) @ [ev]) w0 = Some (Some r, po_state s)))"
proof -
  obtain w where s0: "s0 = pool_of K w"
    and con: "\<And>evs r ds. pump evs = (r, ds) \<Longrightarrow>
      Consume C K handler evs w0 = map_option (\<lambda>w. (r, w)) (process_all C K handler ds w)"
    using Consume_start_pool [OF assms(1)] by metis
  note inv = pool_reachable [OF assms(2) [unfolded s0]]
  then have m: "mset (po_given s) = mset (po_finished s) + mset (jobs_of (po_workers s))"
    and len: "length (po_workers s) = nat (k_prefetch K)" by (simp_all add: pool_inv_def)
  have "length (po_given s) \<le> length (po_finished s) + nat (k_prefetch K)"
    using arg_cong [OF m, of size] jobs_of_length [of "po_workers s"] len by simp
  moreover have "set (po_finished s) \<subseteq> set (po_given s)" using arg_cong [OF m, of set_mset] by auto
  moreover have "mset (po_finished s) = mset (po_given s)
      \<and> (po_left s = [] \<or> r = None \<and> po_done s \<and> length (po_left s) = 1)
      \<and> (\<exists>ev. pump (map (\<lambda>d. Delivered d True) (po_given s) @ [ev]) = (Some r, po_given s)
           \<and> Consume C K handler (map (\<lambda>d. Delivered d True) (po_finished s) @ [ev]) w0 = Some (Some r, po_state s))"
    if r: "po_result s = Some r" for r
  proof -
    have ex: "set (po_workers s) \<subseteq> {Exited}" and "po_pump s = Pumped r" using inv r by (simp_all add: pool_inv_def)
    then obtain ev where ev: "pump_end s r ev" using inv by (auto simp: pool_inv_def)
    have "mset (po_finished s) = mset (po_given s)" using m jobs_of_exited [OF ex] by simp
    moreover have "po_left s = [] \<or> r = None \<and> po_done s \<and> length (po_left s) = 1"
      using ev by (cases ev) (simp_all add: pump_end_def)
    moreover have "Consume C K handler (map (\<lambda>d. Delivered d True) (po_finished s) @ [ev]) w0 = Some (Some r, po_state s)"
      using con [OF pump_ended [OF ev]] inv by (simp add: pool_inv_def)
    ultimately show ?thesis using pump_ended [OF ev] by blast
  qed
  ultimately show ?thesis using inv by (auto simp: pool_inv_def split: option.split)
qed

theorem consume_settles_what_it_takes_witness:
  "\<exists>c::amqp_server. set (po_finished (busy1 (pool_of consumer1 ((), new_publisher, c)))) \<subseteq> {delivery0}
     \<and> po_given (busy1 (pool_of consumer1 ((), new_publisher, c))) = [delivery0]"
proof -
  from started1 [of "()"] obtain c where c: "Consume_start amqp_server_client consumer1 ((), new_publisher, mq_empty)
      = Inr (pool_of consumer1 ((), new_publisher, c))" ..
  let ?s = "busy1 (pool_of consumer1 ((), new_publisher, c))"
  have g: "po_given ?s = [delivery0]" by (simp add: busy1_def)
  have "set (po_finished ?s) \<subseteq> set (po_given ?s)"
    using consume_settles_what_it_takes [OF c busy1_reached [where handler = "\<lambda>m h. (Returned None, h)"]] by blast
  then have "set (po_finished ?s) \<subseteq> {delivery0}" unfolding g by simp
  with g show ?thesis by blast
qed



end
