(* ===== verification/Configuration.thy ===== *)
theory Configuration
  imports Prelude Complex_Main "HOL-Library.State_Monad"
begin

text \<open>
  Package \<open>internal/config\<close>: the configuration is read from the environment, every malformed
  value is an error, and each binary checks the sections it needs. The reader's list of errors
  is the state of a state monad, as \<open>r.errs\<close> is in the source.

  \<open>strconv.Atoi\<close>, \<open>ParseInt\<close>, \<open>ParseBool\<close> and \<open>slog.Level.UnmarshalText\<close> are
  modelled; \<open>strconv.ParseFloat\<close> and \<open>time.ParseDuration\<close> round to binary floating point on
  the way and are parameters (record \<open>parsers\<close>), about which nothing is assumed.
\<close>

section \<open>Values\<close>

text \<open>A \<open>float64\<close>, as far as the comparisons of the program see it.\<close>

datatype float64 = NaN | PosInf | NegInf | Finite rat

fun f_lt :: "float64 \<Rightarrow> float64 \<Rightarrow> bool" where
  "f_lt NaN _ = False"
| "f_lt _ NaN = False"
| "f_lt (Finite a) (Finite b) = (a < b)"
| "f_lt NegInf y = (y \<noteq> NegInf)"
| "f_lt (Finite _) y = (y = PosInf)"
| "f_lt PosInf _ = False"

record parsers =
  ParseFloat :: "string \<Rightarrow> float64 option"
  ParseDuration :: "string \<Rightarrow> duration option"

text \<open>\<open>strconv.ParseInt(v, 10, 64)\<close>; \<open>Atoi\<close> accepts the same texts on a 64-bit machine.\<close>

definition digit_value :: "char \<Rightarrow> int option" where
  "digit_value c =
     (let n = of_char c :: nat in if 48 \<le> n \<and> n \<le> 57 then Some (int n - 48) else None)"

fun digits_value :: "string \<Rightarrow> int \<Rightarrow> int option" where
  "digits_value [] acc = Some acc"
| "digits_value (c # cs) acc =
     (case digit_value c of None \<Rightarrow> None | Some d \<Rightarrow> digits_value cs (10 * acc + d))"

definition in_int64 :: "int \<Rightarrow> bool" where
  "in_int64 n \<longleftrightarrow> - (2 ^ 63) \<le> n \<and> n < 2 ^ 63"

definition ParseInt :: "string \<Rightarrow> int option" where
  "ParseInt v =
     (let (neg, ds) = (case v of CHR ''+'' # r \<Rightarrow> (False, r) | CHR ''-'' # r \<Rightarrow> (True, r) | _ \<Rightarrow> (False, v))
      in if ds = [] then None
         else case digits_value ds 0 of
                None \<Rightarrow> None
              | Some n \<Rightarrow> let n = (if neg then - n else n) in if in_int64 n then Some n else None)"

definition ParseBool :: "string \<Rightarrow> bool option" where
  "ParseBool v =
     (if v \<in> {''1'', ''t'', ''T'', ''TRUE'', ''true'', ''True''} then Some True
      else if v \<in> {''0'', ''f'', ''F'', ''FALSE'', ''false'', ''False''} then Some False else None)"

text \<open>
  \<open>strings.ToLower\<close> and \<open>ToUpper\<close> as far as the result is ASCII: besides the ASCII letters, only
  the dotless i (\<open>C4 B1\<close>) has an upper case that occurs in the names compared with.
\<close>

definition ToLower :: "string \<Rightarrow> string" where
  "ToLower = map (\<lambda>c. let n = of_char c :: nat in if 65 \<le> n \<and> n \<le> 90 then char_of (n + 32) else c)"

fun ToUpper :: "string \<Rightarrow> string" where
  "ToUpper [] = []"
| "ToUpper [c] = [let n = of_char c :: nat in if 97 \<le> n \<and> n \<le> 122 then char_of (n - 32) else c]"
| "ToUpper (c # d # cs) =
     (if c = CHR 0xC4 \<and> d = CHR 0xB1 then CHR ''I'' # ToUpper cs
      else (let n = of_char c :: nat in if 97 \<le> n \<and> n \<le> 122 then char_of (n - 32) else c) # ToUpper (d # cs))"

section \<open>Levels and formats of the log\<close>

definition LevelDebug :: int where "LevelDebug = -4"
definition LevelInfo :: int where "LevelInfo = 0"
definition LevelWarn :: int where "LevelWarn = 4"
definition LevelError :: int where "LevelError = 8"

definition FormatJSON :: string where "FormatJSON = ''json''"
definition FormatText :: string where "FormatText = ''text''"

text \<open>\<open>Level.UnmarshalText\<close>: a name, then perhaps a signed offset; the sum wraps.\<close>

definition wrap64 :: "int \<Rightarrow> int" where
  "wrap64 n = sint (word_of_int n :: 64 word)"

definition UnmarshalLevel :: "string \<Rightarrow> int option" where
  "UnmarshalLevel s =
     (let sign = (\<lambda>c. c = CHR ''+'' \<or> c = CHR ''-'');
          name = takeWhile (\<lambda>c. \<not> sign c) s; rest = dropWhile (\<lambda>c. \<not> sign c) s;
          base = (let n = ToUpper name in
                  if n = ''DEBUG'' then Some LevelDebug else if n = ''INFO'' then Some LevelInfo
                  else if n = ''WARN'' then Some LevelWarn else if n = ''ERROR'' then Some LevelError else None)
      in case (if rest = [] then Some 0 else ParseInt rest) of
           None \<Rightarrow> None
         | Some offset \<Rightarrow> map_option (\<lambda>b. wrap64 (b + offset)) base)"

section \<open>Sections\<close>

record App =
  Env :: string
  LogLevel :: int
  LogFormat :: string

record HTTP =
  Addr :: string
  ReadHeaderTimeout :: duration
  ReadTimeout :: duration
  WriteTimeout :: duration
  IdleTimeout :: duration
  ShutdownTimeout :: duration
  RequestTimeout :: duration

record RateLimit =
  RPS :: float64
  Burst :: int

record DB =
  DSN :: string
  MaxConns :: int
  QueryTimeout :: duration

record S3cfg =
  Endpoint :: string
  AccessKey :: string
  SecretKey :: string
  Bucket :: string
  Region :: string
  UseSSL :: bool
  S3Timeout :: duration

record AMQP =
  URL :: string
  Prefetch :: int
  AMQPTimeout :: duration

record Otel =
  OtelEndpoint :: string
  Insecure :: bool
  SampleRatio :: float64

record Image =
  MaxUploadBytes :: int
  MaxPixels :: int
  JPEGQuality :: int

record Worker =
  ProcessTimeout :: duration
  ReconcileInterval :: duration
  StuckAfter :: duration
  ReconcileBatch :: int
  DecodeConcurrency :: int
  MetricsAddr :: string
  WorkerShutdownTimeout :: duration

record Config =
  cfg_App :: App
  cfg_HTTP :: HTTP
  cfg_RateLimit :: RateLimit
  cfg_DB :: DB
  cfg_S3 :: S3cfg
  cfg_AMQP :: AMQP
  cfg_Otel :: Otel
  cfg_Image :: Image
  cfg_Worker :: Worker

section \<open>The reader\<close>

type_synonym getenv = "string \<Rightarrow> string option"

text \<open>
  The shape all typed readers have: an undeclared variable takes its default, a declared one is
  parsed, and a value that does not parse is reported and takes the default.
\<close>

definition reader_with :: "(string \<Rightarrow> 'a option) \<Rightarrow> getenv \<Rightarrow> string \<Rightarrow> 'a \<Rightarrow> (error list, 'a) state" where
  "reader_with parse env key def =
     State (\<lambda>errs. case env key of
        None \<Rightarrow> (def, errs)
      | Some v \<Rightarrow> (case parse v of Some x \<Rightarrow> (x, errs) | None \<Rightarrow> (def, errs @ [wrapf ErrText])))"

definition r_str :: "getenv \<Rightarrow> string \<Rightarrow> string \<Rightarrow> (error list, string) state" where
  "r_str env key def = State (\<lambda>errs. (case env key of None \<Rightarrow> def | Some v \<Rightarrow> v, errs))"

definition r_integer :: "getenv \<Rightarrow> string \<Rightarrow> int \<Rightarrow> (error list, int) state" where
  "r_integer = reader_with ParseInt"

definition r_integer64 :: "getenv \<Rightarrow> string \<Rightarrow> int \<Rightarrow> (error list, int) state" where
  "r_integer64 = reader_with ParseInt"

definition r_float :: "parsers \<Rightarrow> getenv \<Rightarrow> string \<Rightarrow> float64 \<Rightarrow> (error list, float64) state" where
  "r_float P = reader_with (ParseFloat P)"

definition r_boolean :: "getenv \<Rightarrow> string \<Rightarrow> bool \<Rightarrow> (error list, bool) state" where
  "r_boolean = reader_with ParseBool"

definition r_duration :: "parsers \<Rightarrow> getenv \<Rightarrow> string \<Rightarrow> duration \<Rightarrow> (error list, duration) state" where
  "r_duration P = reader_with (ParseDuration P)"

definition r_level :: "getenv \<Rightarrow> string \<Rightarrow> int \<Rightarrow> (error list, int) state" where
  "r_level = reader_with UnmarshalLevel"

definition parse_format :: "string \<Rightarrow> string option" where
  "parse_format v = (let f = ToLower v in if f = FormatJSON \<or> f = FormatText then Some f else None)"

definition r_format :: "getenv \<Rightarrow> string \<Rightarrow> string \<Rightarrow> (error list, string) state" where
  "r_format = reader_with parse_format"

definition EnvLocal :: string where "EnvLocal = ''local''"
definition EnvProduction :: string where "EnvProduction = ''production''"

definition defaultLogFormat :: "string \<Rightarrow> string" where
  "defaultLogFormat appEnv = (if appEnv = EnvLocal then FormatText else FormatJSON)"

section \<open>Loading\<close>

text \<open>The sections in the order the source reads them, defaults written out.\<close>

definition read_App :: "getenv \<Rightarrow> (error list, App) state" where
  "read_App env = do {
     appEnv \<leftarrow> r_str env ''APP_ENV'' EnvLocal;
     level \<leftarrow> r_level env ''LOG_LEVEL'' LevelInfo;
     format \<leftarrow> r_format env ''LOG_FORMAT'' (defaultLogFormat appEnv);
     State_Monad.return \<lparr>Env = appEnv, LogLevel = level, LogFormat = format\<rparr>
   }"

definition read_HTTP :: "parsers \<Rightarrow> getenv \<Rightarrow> (error list, HTTP) state" where
  "read_HTTP P env = do {
     addr \<leftarrow> r_str env ''HTTP_ADDR'' '':8080'';
     rh \<leftarrow> r_duration P env ''HTTP_READ_HEADER_TIMEOUT'' (5 * Second);
     rd \<leftarrow> r_duration P env ''HTTP_READ_TIMEOUT'' (3 * Minute);
     wr \<leftarrow> r_duration P env ''HTTP_WRITE_TIMEOUT'' (60 * Second);
     idle \<leftarrow> r_duration P env ''HTTP_IDLE_TIMEOUT'' (2 * Minute);
     sh \<leftarrow> r_duration P env ''HTTP_SHUTDOWN_TIMEOUT'' (15 * Second);
     rq \<leftarrow> r_duration P env ''HTTP_REQUEST_TIMEOUT'' (30 * Second);
     State_Monad.return \<lparr>Addr = addr, ReadHeaderTimeout = rh, ReadTimeout = rd, WriteTimeout = wr,
       IdleTimeout = idle, ShutdownTimeout = sh, RequestTimeout = rq\<rparr>
   }"

definition read_RateLimit :: "parsers \<Rightarrow> getenv \<Rightarrow> (error list, RateLimit) state" where
  "read_RateLimit P env = do {
     rps \<leftarrow> r_float P env ''RATE_LIMIT_RPS'' (Finite 0);
     burst \<leftarrow> r_integer env ''RATE_LIMIT_BURST'' 0;
     State_Monad.return \<lparr>RPS = rps, Burst = burst\<rparr>
   }"

definition read_DB :: "parsers \<Rightarrow> getenv \<Rightarrow> (error list, DB) state" where
  "read_DB P env = do {
     dsn \<leftarrow> r_str env ''DATABASE_DSN'' '''';
     conns \<leftarrow> r_integer env ''DB_MAX_CONNS'' 10;
     q \<leftarrow> r_duration P env ''DB_QUERY_TIMEOUT'' (5 * Second);
     State_Monad.return \<lparr>DSN = dsn, MaxConns = conns, QueryTimeout = q\<rparr>
   }"

definition read_S3 :: "parsers \<Rightarrow> getenv \<Rightarrow> (error list, S3cfg) state" where
  "read_S3 P env = do {
     ep \<leftarrow> r_str env ''S3_ENDPOINT'' '''';
     ak \<leftarrow> r_str env ''S3_ACCESS_KEY'' '''';
     sk \<leftarrow> r_str env ''S3_SECRET_KEY'' '''';
     bucket \<leftarrow> r_str env ''S3_BUCKET'' ''avatars'';
     region \<leftarrow> r_str env ''S3_REGION'' ''us-east-1'';
     ssl \<leftarrow> r_boolean env ''S3_USE_SSL'' False;
     t \<leftarrow> r_duration P env ''S3_TIMEOUT'' (15 * Second);
     State_Monad.return \<lparr>Endpoint = ep, AccessKey = ak, SecretKey = sk, Bucket = bucket, Region = region,
       UseSSL = ssl, S3Timeout = t\<rparr>
   }"

definition read_AMQP :: "parsers \<Rightarrow> getenv \<Rightarrow> (error list, AMQP) state" where
  "read_AMQP P env = do {
     url \<leftarrow> r_str env ''AMQP_URL'' '''';
     prefetch \<leftarrow> r_integer env ''AMQP_PREFETCH'' 8;
     t \<leftarrow> r_duration P env ''AMQP_TIMEOUT'' (10 * Second);
     State_Monad.return \<lparr>URL = url, Prefetch = prefetch, AMQPTimeout = t\<rparr>
   }"

definition read_Otel :: "parsers \<Rightarrow> getenv \<Rightarrow> (error list, Otel) state" where
  "read_Otel P env = do {
     ep \<leftarrow> r_str env ''OTEL_EXPORTER_OTLP_ENDPOINT'' '''';
     ins \<leftarrow> r_boolean env ''OTEL_EXPORTER_OTLP_INSECURE'' False;
     ratio \<leftarrow> r_float P env ''OTEL_TRACES_SAMPLE_RATIO'' (Finite 1);
     State_Monad.return \<lparr>OtelEndpoint = ep, Insecure = ins, SampleRatio = ratio\<rparr>
   }"

definition read_Image :: "getenv \<Rightarrow> (error list, Image) state" where
  "read_Image env = do {
     up \<leftarrow> r_integer64 env ''IMAGE_MAX_UPLOAD_BYTES'' (10 * 2 ^ 20);
     px \<leftarrow> r_integer64 env ''IMAGE_MAX_PIXELS'' 50000000;
     q \<leftarrow> r_integer env ''IMAGE_JPEG_QUALITY'' 85;
     State_Monad.return \<lparr>MaxUploadBytes = up, MaxPixels = px, JPEGQuality = q\<rparr>
   }"

definition read_Worker :: "parsers \<Rightarrow> getenv \<Rightarrow> (error list, Worker) state" where
  "read_Worker P env = do {
     pt \<leftarrow> r_duration P env ''WORKER_PROCESS_TIMEOUT'' (60 * Second);
     ri \<leftarrow> r_duration P env ''WORKER_RECONCILE_INTERVAL'' Minute;
     sa \<leftarrow> r_duration P env ''WORKER_STUCK_AFTER'' (5 * Minute);
     rb \<leftarrow> r_integer env ''WORKER_RECONCILE_BATCH'' 100;
     dc \<leftarrow> r_integer env ''WORKER_DECODE_CONCURRENCY'' 2;
     ma \<leftarrow> r_str env ''WORKER_METRICS_ADDR'' '':9090'';
     st \<leftarrow> r_duration P env ''WORKER_SHUTDOWN_TIMEOUT'' (75 * Second);
     State_Monad.return \<lparr>ProcessTimeout = pt, ReconcileInterval = ri, StuckAfter = sa, ReconcileBatch = rb,
       DecodeConcurrency = dc, MetricsAddr = ma, WorkerShutdownTimeout = st\<rparr>
   }"

definition read_all :: "parsers \<Rightarrow> getenv \<Rightarrow> (error list, Config) state" where
  "read_all P env = do {
     app \<leftarrow> read_App env;
     http \<leftarrow> read_HTTP P env;
     rl \<leftarrow> read_RateLimit P env;
     db \<leftarrow> read_DB P env;
     s3 \<leftarrow> read_S3 P env;
     amqp \<leftarrow> read_AMQP P env;
     otel \<leftarrow> read_Otel P env;
     image \<leftarrow> read_Image env;
     worker \<leftarrow> read_Worker P env;
     State_Monad.return \<lparr>cfg_App = app, cfg_HTTP = http, cfg_RateLimit = rl, cfg_DB = db, cfg_S3 = s3,
       cfg_AMQP = amqp, cfg_Otel = otel, cfg_Image = image, cfg_Worker = worker\<rparr>
   }"

definition load :: "parsers \<Rightarrow> getenv \<Rightarrow> error + Config" where
  "load P env =
     (case run_state (read_all P env) [] of
        (cfg, errs) \<Rightarrow> (case errors_Join (map Some errs) of Some e \<Rightarrow> Inl (wrapf e) | None \<Rightarrow> Inr cfg))"

section \<open>Validation\<close>

definition required :: "string \<Rightarrow> error option" where
  "required v = (if v = '''' then Some ErrText else None)"

definition positive :: "int \<Rightarrow> error option" where
  "positive v = (if v \<le> 0 then Some ErrText else None)"

definition positiveDuration :: "duration \<Rightarrow> error option" where
  "positiveDuration v = (if v \<le> 0 then Some ErrText else None)"

definition App_validate :: "App \<Rightarrow> error option" where
  "App_validate c = (if Env c = EnvLocal \<or> Env c = EnvProduction then None else Some ErrText)"

definition HTTP_validate :: "HTTP \<Rightarrow> error option" where
  "HTTP_validate c = errors_Join
     [required (Addr c), positiveDuration (ReadHeaderTimeout c), positiveDuration (ReadTimeout c),
      positiveDuration (WriteTimeout c), positiveDuration (IdleTimeout c),
      positiveDuration (ShutdownTimeout c), positiveDuration (RequestTimeout c)]"

definition RateLimit_validate :: "RateLimit \<Rightarrow> error option" where
  "RateLimit_validate c =
     (if RPS c = NaN \<or> f_lt (RPS c) (Finite 0) then Some ErrText
      else if Burst c < 0 then Some ErrText else None)"

definition DB_validate :: "DB \<Rightarrow> error option" where
  "DB_validate c = errors_Join [required (DSN c), positive (MaxConns c), positiveDuration (QueryTimeout c)]"

definition S3_validate :: "S3cfg \<Rightarrow> error option" where
  "S3_validate c = errors_Join
     [required (Endpoint c), required (AccessKey c), required (SecretKey c), required (Bucket c),
      required (Region c), positiveDuration (S3Timeout c)]"

definition AMQP_validate :: "AMQP \<Rightarrow> error option" where
  "AMQP_validate c = errors_Join [required (URL c), positive (Prefetch c), positiveDuration (AMQPTimeout c)]"

definition Otel_validate :: "Otel \<Rightarrow> error option" where
  "Otel_validate c =
     (if SampleRatio c = NaN \<or> f_lt (SampleRatio c) (Finite 0) \<or> f_lt (Finite 1) (SampleRatio c)
      then Some ErrText else None)"

definition maxJPEGQuality :: int where "maxJPEGQuality = 100"

definition Image_validate :: "Image \<Rightarrow> error option" where
  "Image_validate c =
     (let err = errors_Join [positive (MaxUploadBytes c), positive (MaxPixels c), positive (JPEGQuality c)]
      in if JPEGQuality c > maxJPEGQuality then errors_Join [err, Some ErrText] else err)"

definition Worker_validate :: "Worker \<Rightarrow> error option" where
  "Worker_validate c = errors_Join
     [positiveDuration (ProcessTimeout c), positiveDuration (ReconcileInterval c),
      positiveDuration (StuckAfter c), positive (ReconcileBatch c), positive (DecodeConcurrency c),
      required (MetricsAddr c), positiveDuration (WorkerShutdownTimeout c)]"

section \<open>The three binaries\<close>

definition loadServer :: "parsers \<Rightarrow> getenv \<Rightarrow> error + Config" where
  "loadServer P env =
     (case load P env of
        Inl e \<Rightarrow> Inl e
      | Inr cfg \<Rightarrow>
          (case errors_Join [App_validate (cfg_App cfg), HTTP_validate (cfg_HTTP cfg),
              RateLimit_validate (cfg_RateLimit cfg), DB_validate (cfg_DB cfg), S3_validate (cfg_S3 cfg),
              AMQP_validate (cfg_AMQP cfg), Otel_validate (cfg_Otel cfg), Image_validate (cfg_Image cfg)] of
             Some e \<Rightarrow> Inl (wrapf e)
           | None \<Rightarrow> Inr cfg))"

definition loadWorker :: "parsers \<Rightarrow> getenv \<Rightarrow> error + Config" where
  "loadWorker P env =
     (case load P env of
        Inl e \<Rightarrow> Inl e
      | Inr cfg \<Rightarrow>
          (case errors_Join [App_validate (cfg_App cfg), DB_validate (cfg_DB cfg), S3_validate (cfg_S3 cfg),
              AMQP_validate (cfg_AMQP cfg), Otel_validate (cfg_Otel cfg), Image_validate (cfg_Image cfg),
              Worker_validate (cfg_Worker cfg)] of
             Some e \<Rightarrow> Inl (wrapf e)
           | None \<Rightarrow> Inr cfg))"

definition loadMigrator :: "parsers \<Rightarrow> getenv \<Rightarrow> error + Config" where
  "loadMigrator P env =
     (case load P env of
        Inl e \<Rightarrow> Inl e
      | Inr cfg \<Rightarrow>
          (case errors_Join [App_validate (cfg_App cfg), DB_validate (cfg_DB cfg)] of
             Some e \<Rightarrow> Inl (wrapf e)
           | None \<Rightarrow> Inr cfg))"

section \<open>What is read\<close>

definition read_val :: "(string \<Rightarrow> 'a option) \<Rightarrow> getenv \<Rightarrow> string \<Rightarrow> 'a \<Rightarrow> 'a" where
  "read_val parse env key def =
     (case env key of None \<Rightarrow> def | Some v \<Rightarrow> (case parse v of Some x \<Rightarrow> x | None \<Rightarrow> def))"

definition read_err :: "(string \<Rightarrow> 'a option) \<Rightarrow> getenv \<Rightarrow> string \<Rightarrow> error list" where
  "read_err parse env key =
     (case env key of None \<Rightarrow> [] | Some v \<Rightarrow> (case parse v of Some x \<Rightarrow> [] | None \<Rightarrow> [wrapf ErrText]))"

lemma run_reader [simp]:
  "run_state (reader_with parse env key def) errs = (read_val parse env key def, errs @ read_err parse env key)"
  by (simp add: reader_with_def read_val_def read_err_def split: option.split)

lemma run_str [simp]: "run_state (r_str env key def) errs = (case env key of None \<Rightarrow> def | Some v \<Rightarrow> v, errs)"
  by (simp add: r_str_def)

lemmas reader_defs = r_integer_def r_integer64_def r_float_def r_boolean_def r_duration_def r_level_def r_format_def

lemma read_err_Nil: "read_err parse env key = [] \<longleftrightarrow> (\<forall>v. env key = Some v \<longrightarrow> parse v \<noteq> None)"
  by (auto simp: read_err_def split: option.splits)

lemma read_val_declared: "env key = Some v \<Longrightarrow> parse v = Some x \<Longrightarrow> read_val parse env key def = x"
  by (simp add: read_val_def)

lemma read_val_default: "env key = None \<Longrightarrow> read_val parse env key def = def"
  by (simp add: read_val_def)

text \<open>The typed variables, each with the parser its text has to pass.\<close>

definition typed_vars :: "parsers \<Rightarrow> (string \<times> (string \<Rightarrow> bool)) list" where
  "typed_vars P =
     [(''LOG_LEVEL'', \<lambda>v. UnmarshalLevel v \<noteq> None), (''LOG_FORMAT'', \<lambda>v. parse_format v \<noteq> None)]
   @ map (\<lambda>k. (k, \<lambda>v. ParseDuration P v \<noteq> None))
       [''HTTP_READ_HEADER_TIMEOUT'', ''HTTP_READ_TIMEOUT'', ''HTTP_WRITE_TIMEOUT'', ''HTTP_IDLE_TIMEOUT'',
        ''HTTP_SHUTDOWN_TIMEOUT'', ''HTTP_REQUEST_TIMEOUT'']
   @ [(''RATE_LIMIT_RPS'', \<lambda>v. ParseFloat P v \<noteq> None), (''RATE_LIMIT_BURST'', \<lambda>v. ParseInt v \<noteq> None),
      (''DB_MAX_CONNS'', \<lambda>v. ParseInt v \<noteq> None), (''DB_QUERY_TIMEOUT'', \<lambda>v. ParseDuration P v \<noteq> None),
      (''S3_USE_SSL'', \<lambda>v. ParseBool v \<noteq> None), (''S3_TIMEOUT'', \<lambda>v. ParseDuration P v \<noteq> None),
      (''AMQP_PREFETCH'', \<lambda>v. ParseInt v \<noteq> None), (''AMQP_TIMEOUT'', \<lambda>v. ParseDuration P v \<noteq> None),
      (''OTEL_EXPORTER_OTLP_INSECURE'', \<lambda>v. ParseBool v \<noteq> None),
      (''OTEL_TRACES_SAMPLE_RATIO'', \<lambda>v. ParseFloat P v \<noteq> None)]
   @ map (\<lambda>k. (k, \<lambda>v. ParseInt v \<noteq> None))
       [''IMAGE_MAX_UPLOAD_BYTES'', ''IMAGE_MAX_PIXELS'', ''IMAGE_JPEG_QUALITY'', ''WORKER_RECONCILE_BATCH'',
        ''WORKER_DECODE_CONCURRENCY'']
   @ map (\<lambda>k. (k, \<lambda>v. ParseDuration P v \<noteq> None))
       [''WORKER_PROCESS_TIMEOUT'', ''WORKER_RECONCILE_INTERVAL'', ''WORKER_STUCK_AFTER'', ''WORKER_SHUTDOWN_TIMEOUT'']"

definition declared_ok :: "getenv \<Rightarrow> string \<times> (string \<Rightarrow> bool) \<Rightarrow> bool" where
  "declared_ok env = (\<lambda>(k, ok). \<forall>v. env k = Some v \<longrightarrow> ok v)"

lemma declared_okI:
  "read_err parse env k = [] \<longleftrightarrow> declared_ok env (k, \<lambda>v. parse v \<noteq> None)"
  by (simp add: read_err_Nil declared_ok_def)

lemmas section_defs = read_App_def read_HTTP_def read_RateLimit_def read_DB_def read_S3_def read_AMQP_def
  read_Otel_def read_Image_def read_Worker_def

lemma errs_None: "errors_Join (map Some errs) = None \<longleftrightarrow> errs = []"
  by (cases errs) auto

lemma load_ok_iff: "is_ok (load P env) \<longleftrightarrow> snd (run_state (read_all P env) []) = []"
  by (auto simp: load_def errs_None is_ok_def split: prod.splits option.splits)

lemma read_all_errors:
  "snd (run_state (read_all P env) []) = [] \<longleftrightarrow> list_all (declared_ok env) (typed_vars P)"
  unfolding read_all_def section_defs reader_defs
  by (simp add: State_Monad.bind_def declared_okI typed_vars_def conj_ac del: not_None_eq)

lemma load_cfg: "load P env = Inr cfg \<Longrightarrow> cfg = fst (run_state (read_all P env) [])"
  by (auto simp: load_def split: prod.splits option.splits)

lemma checked:
  "(case l of Inl e \<Rightarrow> Inl e | Inr cfg \<Rightarrow> (case v cfg of Some e \<Rightarrow> Inl (wrapf e) | None \<Rightarrow> Inr cfg)) = Inr c
     \<longleftrightarrow> l = Inr c \<and> v c = None"
  by (auto split: sum.splits option.splits)

lemma loadServer_ok:
  "loadServer P env = Inr cfg \<longleftrightarrow> load P env = Inr cfg
     \<and> App_validate (cfg_App cfg) = None \<and> HTTP_validate (cfg_HTTP cfg) = None
     \<and> RateLimit_validate (cfg_RateLimit cfg) = None \<and> DB_validate (cfg_DB cfg) = None
     \<and> S3_validate (cfg_S3 cfg) = None \<and> AMQP_validate (cfg_AMQP cfg) = None
     \<and> Otel_validate (cfg_Otel cfg) = None \<and> Image_validate (cfg_Image cfg) = None"
  unfolding loadServer_def checked by simp

lemma loadWorker_ok:
  "loadWorker P env = Inr cfg \<longleftrightarrow> load P env = Inr cfg
     \<and> App_validate (cfg_App cfg) = None \<and> DB_validate (cfg_DB cfg) = None
     \<and> S3_validate (cfg_S3 cfg) = None \<and> AMQP_validate (cfg_AMQP cfg) = None
     \<and> Otel_validate (cfg_Otel cfg) = None \<and> Image_validate (cfg_Image cfg) = None
     \<and> Worker_validate (cfg_Worker cfg) = None"
  unfolding loadWorker_def checked by simp

lemma check_None [simp]:
  "required v = None \<longleftrightarrow> v \<noteq> ''''" "positive n = None \<longleftrightarrow> 0 < n" "positiveDuration d = None \<longleftrightarrow> 0 < d"
  by (simp_all add: required_def positive_def positiveDuration_def)

lemma Image_validate_None:
  "Image_validate c = None \<longleftrightarrow> 0 < MaxUploadBytes c \<and> 0 < MaxPixels c \<and> 0 < JPEGQuality c \<and> JPEGQuality c \<le> 100"
  by (auto simp: Image_validate_def maxJPEGQuality_def Let_def)

lemma RateLimit_validate_None:
  "RateLimit_validate c = None \<longleftrightarrow> (RPS c = PosInf \<or> (\<exists>q\<ge>0. RPS c = Finite q)) \<and> 0 \<le> Burst c"
  by (cases "RPS c") (auto simp: RateLimit_validate_def)

lemma Otel_validate_None:
  "Otel_validate c = None \<longleftrightarrow> (\<exists>q. SampleRatio c = Finite q \<and> 0 \<le> q \<and> q \<le> 1)"
  by (cases "SampleRatio c") (auto simp: Otel_validate_def)

lemmas validate_None = App_validate_def HTTP_validate_def DB_validate_def S3_validate_def AMQP_validate_def
  Worker_validate_def Image_validate_None RateLimit_validate_None Otel_validate_None

section \<open>Properties\<close>

text \<open>
  (C34) No setting is silently replaced by its default: the configuration loads exactly when
  every declared variable with a type has a text its parser accepts.
\<close>

theorem malformed_setting_refused:
  "is_ok (load P env) \<longleftrightarrow> (\<forall>(k, ok)\<in>set (typed_vars P). \<forall>v. env k = Some v \<longrightarrow> ok v)"
  by (simp add: load_ok_iff read_all_errors list_all_iff declared_ok_def)

definition parsers0 :: parsers where
  "parsers0 = \<lparr>ParseFloat = (\<lambda>v. if v = ''0.5'' then Some (Finite (1/2)) else if v = ''NaN'' then Some NaN else None),
     ParseDuration = (\<lambda>v. if v = ''30s'' then Some (30 * Second) else if v = ''0s'' then Some 0 else None)\<rparr>"

definition env0 :: getenv where
  "env0 = map_of [(''DATABASE_DSN'', ''postgres://db''), (''S3_ENDPOINT'', ''minio:9000''), (''S3_ACCESS_KEY'', ''a''),
     (''S3_SECRET_KEY'', ''s''), (''AMQP_URL'', ''amqp://mq''), (''HTTP_REQUEST_TIMEOUT'', ''30s''),
     (''WORKER_RECONCILE_BATCH'', ''50''), (''IMAGE_JPEG_QUALITY'', ''+90''), (''LOG_LEVEL'', ''warn+1'')]"

theorem malformed_setting_refused_witness:
  "is_ok (load parsers0 env0) \<and> \<not> is_ok (load parsers0 (env0(''AMQP_PREFETCH'' \<mapsto> '''')))"
proof
  have "list_all (\<lambda>(k, ok). case env0 k of None \<Rightarrow> True | Some v \<Rightarrow> ok v) (typed_vars parsers0)" by code_simp
  then have "\<forall>(k, ok)\<in>set (typed_vars parsers0). \<forall>v. env0 k = Some v \<longrightarrow> ok v"
    by (auto simp: list_all_iff split: option.splits)
  then show "is_ok (load parsers0 env0)" using malformed_setting_refused by blast
next
  have "(''AMQP_PREFETCH'', \<lambda>v. ParseInt v \<noteq> None) \<in> set (typed_vars parsers0)" by (simp add: typed_vars_def)
  moreover have "ParseInt '''' = None" by (simp add: ParseInt_def)
  ultimately show "\<not> is_ok (load parsers0 (env0(''AMQP_PREFETCH'' \<mapsto> '''')))"
    using malformed_setting_refused [of parsers0 "env0(''AMQP_PREFETCH'' \<mapsto> '''')"] by fastforce
qed

text \<open>
  (C35) A process that starts has usable settings: secrets and addresses are not empty, every
  timeout, limit and batch is positive, the JPEG quality is one the encoder knows, and a rate or
  a ratio is a number in its range, never NaN.
\<close>

theorem accepted_settings_in_range:
  "(loadServer P env = Inr cfg \<longrightarrow>
      RequestTimeout (cfg_HTTP cfg) > 0 \<and> ReadTimeout (cfg_HTTP cfg) > 0 \<and> WriteTimeout (cfg_HTTP cfg) > 0
    \<and> ReadHeaderTimeout (cfg_HTTP cfg) > 0 \<and> IdleTimeout (cfg_HTTP cfg) > 0 \<and> ShutdownTimeout (cfg_HTTP cfg) > 0
    \<and> Addr (cfg_HTTP cfg) \<noteq> '''' \<and> RPS (cfg_RateLimit cfg) \<noteq> NaN \<and> \<not> f_lt (RPS (cfg_RateLimit cfg)) (Finite 0)
    \<and> 0 \<le> Burst (cfg_RateLimit cfg))
   \<and> (loadWorker P env = Inr cfg \<longrightarrow>
      0 < ReconcileBatch (cfg_Worker cfg) \<and> 0 < DecodeConcurrency (cfg_Worker cfg)
    \<and> 0 < StuckAfter (cfg_Worker cfg) \<and> 0 < ReconcileInterval (cfg_Worker cfg)
    \<and> 0 < ProcessTimeout (cfg_Worker cfg) \<and> 0 < WorkerShutdownTimeout (cfg_Worker cfg))
   \<and> (loadServer P env = Inr cfg \<or> loadWorker P env = Inr cfg \<longrightarrow>
      DSN (cfg_DB cfg) \<noteq> '''' \<and> 0 < MaxConns (cfg_DB cfg) \<and> 0 < QueryTimeout (cfg_DB cfg)
    \<and> Bucket (cfg_S3 cfg) \<noteq> '''' \<and> 0 < S3Timeout (cfg_S3 cfg) \<and> URL (cfg_AMQP cfg) \<noteq> ''''
    \<and> 0 < Prefetch (cfg_AMQP cfg) \<and> 0 < AMQPTimeout (cfg_AMQP cfg)
    \<and> 0 < MaxUploadBytes (cfg_Image cfg) \<and> 0 < MaxPixels (cfg_Image cfg)
    \<and> 1 \<le> JPEGQuality (cfg_Image cfg) \<and> JPEGQuality (cfg_Image cfg) \<le> 100
    \<and> (\<exists>q. SampleRatio (cfg_Otel cfg) = Finite q \<and> 0 \<le> q \<and> q \<le> 1))"
  by (auto simp: loadServer_ok loadWorker_ok validate_None)

theorem accepted_settings_in_range_witness:
  "\<exists>cfg. loadWorker parsers0 env0 = Inr cfg \<and> 0 < ReconcileBatch (cfg_Worker cfg)
     \<and> \<not> is_ok (loadWorker parsers0 (env0(''WORKER_STUCK_AFTER'' \<mapsto> ''0s'')))"
proof -
  have "is_ok (loadWorker parsers0 env0)" by code_simp
  then obtain cfg where "loadWorker parsers0 env0 = Inr cfg" by (auto simp: is_ok_def split: sum.splits)
  moreover have "\<not> is_ok (loadWorker parsers0 (env0(''WORKER_STUCK_AFTER'' \<mapsto> ''0s'')))" by code_simp
  ultimately show ?thesis using accepted_settings_in_range [of parsers0 env0 cfg] by blast
qed

text \<open>
  A declared but empty collector address is accepted and means that tracing is off, as the
  validation says; the reader's rule that a variable declared empty is an error does not hold
  for this one.
\<close>

theorem empty_collector_accepted:
  assumes "loadServer P env = Inr cfg" and "env ''OTEL_EXPORTER_OTLP_ENDPOINT'' = None"
  shows "loadServer P (env(''OTEL_EXPORTER_OTLP_ENDPOINT'' \<mapsto> '''')) = Inr cfg \<and> OtelEndpoint (cfg_Otel cfg) = ''''"
proof -
  have "run_state (read_all P (env(''OTEL_EXPORTER_OTLP_ENDPOINT'' \<mapsto> ''''))) [] = run_state (read_all P env) []"
    unfolding read_all_def section_defs reader_defs using assms(2)
    by (simp add: State_Monad.bind_def read_val_def read_err_def)
  then have "load P (env(''OTEL_EXPORTER_OTLP_ENDPOINT'' \<mapsto> '''')) = load P env" by (simp add: load_def)
  moreover have "OtelEndpoint (cfg_Otel cfg) = ''''"
  proof -
    from assms(1) have "cfg = fst (run_state (read_all P env) [])" by (simp add: loadServer_ok load_cfg)
    then show ?thesis unfolding read_all_def section_defs reader_defs using assms(2)
      by (simp add: State_Monad.bind_def)
  qed
  ultimately show ?thesis using assms(1) by (simp add: loadServer_def)
qed

theorem empty_collector_accepted_witness:
  "\<exists>cfg. loadServer parsers0 (env0(''OTEL_EXPORTER_OTLP_ENDPOINT'' \<mapsto> '''')) = Inr cfg
     \<and> OtelEndpoint (cfg_Otel cfg) = ''''"
proof -
  have "is_ok (loadServer parsers0 env0)" by code_simp
  then obtain cfg where "loadServer parsers0 env0 = Inr cfg" by (auto simp: is_ok_def split: sum.splits)
  from empty_collector_accepted [OF this] show ?thesis by (auto simp: env0_def)
qed

end
