(* ===== verification/Lifecycle.thy ===== *)
theory Lifecycle
  imports World Configuration
begin

text \<open>
  Opening and closing of what a process holds: \<open>New\<close> and \<open>Close\<close> of package
  \<open>repository/postgres\<close> and of the storage, the connection to the broker, and the provider of
  traces (package \<open>internal/observability\<close>). What the libraries answer is a parameter. Every
  acquisition and every release is noted in a log, in the order they happen.
\<close>

section \<open>The log\<close>

text \<open>
  \<open>Requests\<close>, \<open>Scrapes\<close>, \<open>Passes\<close> and \<open>Deliveries\<close> are the goroutines of the server's and of the
  metrics' listener, of the reconciler and of the consumer.
\<close>

datatype resource = Pool | Transport | Connection | Exporter | Requests | Scrapes | Passes | Deliveries

datatype life = Acquire resource | Release resource

definition uses :: "resource \<Rightarrow> resource \<Rightarrow> bool" where
  "uses user r \<longleftrightarrow>
     (case user of
        Requests \<Rightarrow> r \<in> {Pool, Transport, Connection, Exporter}
      | Deliveries \<Rightarrow> r \<in> {Pool, Transport, Connection, Exporter}
      | Passes \<Rightarrow> r \<in> {Pool, Connection, Exporter}
      | Scrapes \<Rightarrow> r = Pool
      | _ \<Rightarrow> False)"

text \<open>
  What is held after a log; \<open>None\<close> if something is released that is not held, or while a user
  of it still runs.
\<close>

fun orderly :: "resource list \<Rightarrow> life list \<Rightarrow> resource list option" where
  "orderly held [] = Some held"
| "orderly held (Acquire r # lg) = orderly (r # held) lg"
| "orderly held (Release r # lg) =
     (if r \<in> set held \<and> \<not> list_ex (\<lambda>user. uses user r) held then orderly (remove1 r held) lg else None)"

lemma orderly_append: "orderly held (xs @ ys) = Option.bind (orderly held xs) (\<lambda>held. orderly held ys)"
  by (induction held xs rule: orderly.induct) auto

section \<open>The database\<close>

text \<open>\<open>pgxpool\<close>: \<open>ParseConfig\<close>, \<open>NewWithConfig\<close> for a number of connections, the first \<open>Ping\<close>.\<close>

record pgxpool =
  px_ParseConfig :: "string \<Rightarrow> error option"
  px_NewWithConfig :: "int \<Rightarrow> error option"
  px_Ping :: "error option"

record Repository =
  repo_queryTimeout :: duration

definition postgres_Close :: "life list \<Rightarrow> life list" where
  "postgres_Close lg = lg @ [Release Pool]"

definition postgres_New :: "pgxpool \<Rightarrow> DB \<Rightarrow> life list \<Rightarrow> (error + Repository) \<times> life list" where
  "postgres_New L cfg lg =
     (case px_ParseConfig L (DSN cfg) of
        Some e \<Rightarrow> (Inl (wrapf e), lg)
      | None \<Rightarrow>
          if MaxConns cfg \<le> 0 \<or> MaxConns cfg > 2147483647 then (Inl ErrText, lg)
          else (case px_NewWithConfig L (MaxConns cfg) of
                  Some e \<Rightarrow> (Inl (wrapf e), lg)
                | None \<Rightarrow>
                    (let lg = lg @ [Acquire Pool]
                     in case px_Ping L of
                          Some e \<Rightarrow> (Inl (wrapf e), postgres_Close lg)
                        | None \<Rightarrow> (Inr \<lparr>repo_queryTimeout = QueryTimeout cfg\<rparr>, lg))))"

text \<open>\<open>Ping\<close> of the repository: a query of no rows, which fails without the table.\<close>

definition postgres_Ping :: "pg \<Rightarrow> error option \<times> pg" where
  "postgres_Ping p = (case pool_Exec (\<lambda>_ t. (t, 0)) p of (Inl e, p) \<Rightarrow> (Some (wrapf e), p) | (Inr _, p) \<Rightarrow> (None, p))"

section \<open>The storage and the broker\<close>

text \<open>\<open>s3_New\<close> and \<open>broker_New\<close> with what they acquire; both release it when they fail.\<close>

definition storage_Close :: "life list \<Rightarrow> life list" where
  "storage_Close lg = lg @ [Release Transport]"

definition open_storage ::
  "(error + 's minio) \<Rightarrow> S3cfg \<Rightarrow> 's \<times> life list \<Rightarrow> (error + 's s3_Storage) \<times> 's \<times> life list" where
  "open_storage client cfg sl =
     (let (s, lg) = sl; (res, s) = s3_New client (Bucket cfg) s
      in case client of
           Inl _ \<Rightarrow> (res, s, lg)
         | Inr _ \<Rightarrow>
             (case res of
                Inl e \<Rightarrow> (Inl e, s, storage_Close (lg @ [Acquire Transport]))
              | Inr st \<Rightarrow> (Inr st, s, lg @ [Acquire Transport])))"

definition close_broker :: "'c amqp \<Rightarrow> 'c \<times> life list \<Rightarrow> error option \<times> 'c \<times> life list" where
  "close_broker C cl = (let (c, lg) = cl; (err, c) = broker_Close C c in (err, c, lg @ [Release Connection]))"

definition open_broker ::
  "'c amqp \<Rightarrow> amqp_error option \<Rightarrow> AMQP \<Rightarrow> (Conn \<Rightarrow> Conn) list \<Rightarrow> 'c \<times> life list \<Rightarrow> (error + Conn) \<times> 'c \<times> life list" where
  "open_broker C dialled cfg opts cl =
     (let (c, lg) = cl; (res, c) = broker_New C dialled (Prefetch cfg) (AMQPTimeout cfg) opts c
      in case dialled of
           Some _ \<Rightarrow> (res, c, lg)
         | None \<Rightarrow>
             (case res of
                Inl e \<Rightarrow> (Inl e, c, lg @ [Acquire Connection, Release Connection])
              | Inr conn \<Rightarrow> (Inr conn, c, lg @ [Acquire Connection])))"

section \<open>Traces\<close>

text \<open>\<open>otlptracegrpc.New\<close>, \<open>resource.Merge\<close> and \<open>TracerProvider.Shutdown\<close>.\<close>

record otel =
  ot_exporter :: "error option"
  ot_merge :: "error option"
  ot_shutdown :: "error option"

text \<open>\<open>False\<close> is the zero provider.\<close>

type_synonym Provider = bool

definition observability_Setup :: "otel \<Rightarrow> Otel \<Rightarrow> life list \<Rightarrow> (error + Provider) \<times> life list" where
  "observability_Setup L cfg lg =
     (if OtelEndpoint cfg = '''' then (Inr False, lg)
      else case ot_exporter L of
             Some e \<Rightarrow> (Inl (wrapf e), lg)
           | None \<Rightarrow>
               (let lg = lg @ [Acquire Exporter]
                in case ot_merge L of
                     Some e \<Rightarrow> (Inl (wrapf e), lg)
                   | None \<Rightarrow> (Inr True, lg)))"

definition Provider_Shutdown :: "otel \<Rightarrow> Provider \<Rightarrow> life list \<Rightarrow> error option \<times> life list" where
  "Provider_Shutdown L tp lg =
     (if \<not> tp then (None, lg) else (map_option wrapf (ot_shutdown L), lg @ [Release Exporter]))"

section \<open>Closing\<close>

text \<open>\<open>close\<close> of both processes: the broker, the storage and the database, as far as they are open.\<close>

type_synonym ('s, 'c) plant = "'s \<times> 'c \<times> life list"

definition close_all :: "'c amqp \<Rightarrow> bool \<Rightarrow> bool \<Rightarrow> bool \<Rightarrow> ('s, 'c) plant \<Rightarrow> ('s, 'c) plant" where
  "close_all C broker storage repo pl =
     (let (s, c, lg) = pl;
          (c, lg) = (if broker then snd (close_broker C (c, lg)) else (c, lg));
          lg = (if storage then storage_Close lg else lg);
          lg = (if repo then postgres_Close lg else lg)
      in (s, c, lg))"

section \<open>Dependencies from the configuration\<close>

text \<open>What a process gets besides its configuration.\<close>

record ('s, 'c, 'b, 'img) outside =
  os_pgx :: pgxpool
  os_minio :: "S3cfg \<Rightarrow> error + 's minio"
  os_amqp :: "'c amqp"
  os_dial :: "string \<Rightarrow> amqp_error option"
  os_otel :: otel
  os_breaker :: "'b gobreaker"
  os_codec :: "'img codec"
  os_used :: "stream \<Rightarrow> nat"
  os_png :: bytes
  os_digest :: string
  os_us :: "uuid \<Rightarrow> string"
  os_up :: "string \<Rightarrow> uuid option"

definition imageproc_New :: "Image \<Rightarrow> Processor" where
  "imageproc_New cfg = \<lparr>maxPixels = MaxPixels cfg, jpegQuality = JPEGQuality cfg\<rparr>"

definition deps_of :: "('s, 'c, 'b, 'img) outside \<Rightarrow> Config \<Rightarrow> 's s3_Storage \<Rightarrow> ('s, 'c, 'b, 'img) deps" where
  "deps_of os cfg st =
     \<lparr>d_storage = st, d_amqp = os_amqp os, d_breaker = os_breaker os, d_codec = os_codec os, d_used = os_used os,
      d_image = imageproc_New (cfg_Image cfg), d_maxUploadBytes = MaxUploadBytes (cfg_Image cfg),
      d_png = os_png os, d_digest = os_digest os,
      d_reconcile = \<lparr>rc_Interval = ReconcileInterval (cfg_Worker cfg), rc_StuckAfter = StuckAfter (cfg_Worker cfg),
        rc_Batch = ReconcileBatch (cfg_Worker cfg)\<rparr>,
      d_us = os_us os, d_up = os_up os\<rparr>"

section \<open>A failed opening leaves nothing\<close>

text \<open>Only dependencies are held, so nothing stands against a release.\<close>

definition idle :: "resource list \<Rightarrow> bool" where
  "idle held = list_all (\<lambda>r. r \<in> {Pool, Transport, Connection, Exporter}) held"

lemma idle_simps [simp]:
  "idle []" "idle (r # held) \<longleftrightarrow> r \<in> {Pool, Transport, Connection, Exporter} \<and> idle held"
  by (simp_all add: idle_def)

lemma idle_unused [simp]: "idle held \<Longrightarrow> \<not> list_ex (\<lambda>user. uses user r) held"
  by (auto simp: idle_def list_all_iff list_ex_iff uses_def)

lemma not_own_user [simp]: "\<not> uses r r" "\<not> uses Pool r" "\<not> uses Transport r" "\<not> uses Connection r" "\<not> uses Exporter r"
  by (simp_all add: uses_def split: resource.split)

lemma no_users [simp]:
  "\<not> list_ex (\<lambda>user. uses user Requests) held" "\<not> list_ex (\<lambda>user. uses user Scrapes) held"
  "\<not> list_ex (\<lambda>user. uses user Passes) held" "\<not> list_ex (\<lambda>user. uses user Deliveries) held"
  by (simp_all add: uses_def list_ex_iff split: resource.split)

lemma acquired: "orderly st lg = Some h \<Longrightarrow> orderly st (lg @ [Acquire r]) = Some (r # h)"
  by (simp add: orderly_append)

lemma released: "orderly st lg = Some h \<Longrightarrow> idle h \<Longrightarrow> r \<in> set h \<Longrightarrow> orderly st (lg @ [Release r]) = Some (remove1 r h)"
  by (simp add: orderly_append)

lemma postgres_New_log:
  assumes "postgres_New L cfg lg = (res, lg')" and "orderly st lg = Some h" and "idle h"
  shows "orderly st lg' = Some (if is_ok res then Pool # h else h)"
  using assms
  by (auto simp: postgres_New_def postgres_Close_def Let_def orderly_append is_ok_def split: option.splits if_splits)

lemma open_storage_log:
  assumes "open_storage client cfg (s, lg) = (res, s', lg')" and "orderly st lg = Some h" and "idle h"
  shows "orderly st lg' = Some (if is_ok res then Transport # h else h)"
  using assms
  by (auto simp: open_storage_def storage_Close_def s3_New_def Let_def orderly_append is_ok_def
      split: option.splits if_splits sum.splits prod.splits)

lemma open_broker_log:
  assumes "open_broker C dialled cfg opts (c, lg) = (res, c', lg')" and "orderly st lg = Some h" and "idle h"
  shows "orderly st lg' = Some (if is_ok res then Connection # h else h)"
  using assms
  by (auto simp: open_broker_def broker_New_def Let_def orderly_append is_ok_def
      split: option.splits if_splits sum.splits prod.splits)

lemma observability_Setup_log:
  assumes "observability_Setup L cfg lg = (res, lg')" and "ot_merge L = None" and "orderly st lg = Some h"
  shows "orderly st lg' = Some (if res = Inr True then Exporter # h else h)"
  using assms by (auto simp: observability_Setup_def Let_def orderly_append split: option.splits if_splits)

lemma Provider_Shutdown_log:
  assumes "Provider_Shutdown L tp lg = (err, lg')" and "orderly st lg = Some (if tp then Exporter # h else h)" and "idle h"
  shows "orderly st lg' = Some h"
  using assms by (auto simp: Provider_Shutdown_def orderly_append split: if_splits)

lemma close_all_log:
  assumes "close_all C broker storage repo (s, c, lg) = (s', c', lg')"
    and "orderly [] lg = Some h" and "idle h"
    and "h = (if broker then [Connection] else []) @ (if storage then [Transport] else []) @ (if repo then [Pool] else [])"
  shows "orderly [] lg' = Some []"
  using assms
  by (auto simp: close_all_def close_broker_def storage_Close_def postgres_Close_def orderly_append split: prod.splits if_splits)

lemma shut_down_log:
  assumes "Provider_Shutdown L tp lg = (err, lg1)" and "close_all C True True True (s, c, lg1) = (s', c', lg')"
  shows "set lg \<subseteq> set lg'"
    and "orderly [] lg = Some (if tp then Exporter # [Connection, Transport, Pool] else [Connection, Transport, Pool])
      \<Longrightarrow> orderly [] lg' = Some []"
proof -
  show "set lg \<subseteq> set lg'"
    using assms by (auto simp: Provider_Shutdown_def close_all_def close_broker_def storage_Close_def postgres_Close_def
        split: if_splits prod.splits)
  assume held: "orderly [] lg = Some (if tp then Exporter # [Connection, Transport, Pool] else [Connection, Transport, Pool])"
  have "orderly [] lg1 = Some [Connection, Transport, Pool]" by (rule Provider_Shutdown_log [OF assms(1) held]) simp
  then show "orderly [] lg' = Some []" by (rule close_all_log [OF assms(2)]) simp_all
qed

end
