(* ===== verification/HttpBase.thy ===== *)
theory HttpBase
  imports Service
begin

text \<open>
  Requests, responses and the middleware of package \<open>internal/server/http\<close> (\<open>middleware.go\<close>).
  What a handler does to its \<open>http.ResponseWriter\<close> is the list of its calls in order; the
  connection and the \<open>recorder\<close> of the middleware are functions of that list. A handler returns
  the list, the new world, and whether it returned or panicked. Byte counts, log lines and spans
  are left out, except that the level and the status of the access log are passed on.
\<close>

section \<open>Requests\<close>

record FileHeader =
  fh_Filename :: string
  fh_Size :: int
  fh_File :: ReadSeeker

text \<open>
  A parsed form: its values, its files (a file whose \<open>Open\<close> fails is \<open>Some None\<close>), and the
  number of files the parser has put on disk.
\<close>

record Form =
  f_Value :: "string \<Rightarrow> string"
  f_File :: "string \<Rightarrow> FileHeader option option"
  f_Temp :: nat

text \<open>
  \<open>rq_Header\<close> is \<open>Header.Get\<close>, \<open>rq_Query\<close> is \<open>URL.Query().Get\<close>, \<open>rq_Param\<close> is
  \<open>chi.URLParam\<close>: an absent value is the empty text. \<open>rq_Form\<close> is what the parser makes of the
  body, \<open>rq_FormBytes\<close> the number of bytes it reads for that.
\<close>

record Request =
  rq_Method :: string
  rq_Path :: string
  rq_Header :: "string \<Rightarrow> string"
  rq_Query :: "string \<Rightarrow> string"
  rq_Param :: "string \<Rightarrow> string"
  rq_RemoteAddr :: string
  rq_Form :: "Form option"
  rq_FormBytes :: int
  rq_BodyLimit :: "int option"
  rq_Timeout :: "duration option"
  rq_WriteDeadline :: "duration option"
  rq_RequestID :: string

datatype parse_error = MaxBytesError | MalformedForm

text \<open>\<open>r.ParseMultipartForm\<close> behind \<open>http.MaxBytesReader\<close>.\<close>

definition ParseMultipartForm :: "Request \<Rightarrow> parse_error + Form" where
  "ParseMultipartForm r =
     (if (case rq_BodyLimit r of None \<Rightarrow> False | Some limit \<Rightarrow> limit < rq_FormBytes r) then Inl MaxBytesError
      else case rq_Form r of None \<Rightarrow> Inl MalformedForm | Some f \<Rightarrow> Inr f)"

datatype file_error = ErrMissingFile | OpenFailed

definition FormFile :: "Form \<Rightarrow> string \<Rightarrow> file_error + FileHeader" where
  "FormFile f field =
     (case f_File f field of
        None \<Rightarrow> Inl ErrMissingFile | Some None \<Rightarrow> Inl OpenFailed | Some (Some h) \<Rightarrow> Inr h)"

section \<open>Responses\<close>

record errorResponse =
  er_Error :: string
  er_Details :: string
  er_MaxSize :: int

record uploadResponse =
  ur_ID :: string
  ur_UserID :: string
  ur_URL :: string
  ur_Status :: string
  ur_CreatedAt :: time

record thumbnailRef =
  tr_Size :: string
  tr_URL :: string

record metadataResponse =
  mr_ID :: string
  mr_UserID :: string
  mr_FileName :: string
  mr_MimeType :: string
  mr_Size :: int
  mr_Dimensions :: "int \<times> int"
  mr_Thumbnails :: "thumbnailRef list"
  mr_CreatedAt :: time
  mr_UpdatedAt :: time

record healthResponse =
  hr_Status :: string
  hr_Components :: "(string \<times> string) list"

datatype payload =
    JError errorResponse | JUpload uploadResponse | JMetadata metadataResponse
  | JList "metadataResponse list" | JHealth healthResponse

text \<open>What is written to a body: a JSON value, bytes of an image, a page or a plain text.\<close>

datatype body = Json payload | Raw bytes | Page string | Plain string

datatype action = SetHeader string string | WriteHeader nat | Write body

datatype hresult = Served | Panic bool

type_synonym 'w handler = "Request \<Rightarrow> 'w \<Rightarrow> hresult \<times> action list \<times> 'w"

text \<open>
  The connection, as \<open>net/http\<close> does it: the first \<open>WriteHeader\<close> or \<open>Write\<close> sends the status
  and the headers set so far; a second \<open>WriteHeader\<close> has no effect, and headers set later are not
  sent. A handler that returns without a call has status 200.
\<close>

record conn =
  cn_Header :: "string \<rightharpoonup> string"
  cn_Sent :: "(nat \<times> (string \<rightharpoonup> string)) option"
  cn_Body :: "body list"

definition conn0 :: conn where
  "conn0 = \<lparr>cn_Header = Map.empty, cn_Sent = None, cn_Body = []\<rparr>"

definition send_header :: "nat \<Rightarrow> conn \<Rightarrow> conn" where
  "send_header s c = (case cn_Sent c of None \<Rightarrow> c\<lparr>cn_Sent := Some (s, cn_Header c)\<rparr> | Some _ \<Rightarrow> c)"

fun conn_step :: "action \<Rightarrow> conn \<Rightarrow> conn" where
  "conn_step (SetHeader k v) c = c\<lparr>cn_Header := (cn_Header c)(k \<mapsto> v)\<rparr>"
| "conn_step (WriteHeader s) c = send_header s c"
| "conn_step (Write b) c = (send_header 200 c)\<lparr>cn_Body := cn_Body c @ [b]\<rparr>"

definition respond_with :: "action list \<Rightarrow> conn" where
  "respond_with acts = send_header 200 (fold conn_step acts conn0)"

definition resp_status :: "action list \<Rightarrow> nat" where
  "resp_status acts = fst (the (cn_Sent (respond_with acts)))"

definition resp_header :: "action list \<Rightarrow> string \<Rightarrow> string option" where
  "resp_header acts k = snd (the (cn_Sent (respond_with acts))) k"

definition resp_body :: "action list \<Rightarrow> body list" where
  "resp_body acts = cn_Body (respond_with acts)"

section \<open>The recorder\<close>

record recorder =
  rec_status :: nat
  rec_wrote :: bool

definition recorder0 :: recorder where
  "recorder0 = \<lparr>rec_status = 200, rec_wrote = False\<rparr>"

fun rec_step :: "action \<Rightarrow> recorder \<times> action list \<Rightarrow> recorder \<times> action list" where
  "rec_step (SetHeader k v) (r, out) = (r, out @ [SetHeader k v])"
| "rec_step (WriteHeader s) (r, out) =
     (if rec_wrote r then (r, out)
      else (r\<lparr>rec_status := s, rec_wrote := True\<rparr>, out @ [WriteHeader s]))"
| "rec_step (Write b) (r, out) = (r\<lparr>rec_wrote := True\<rparr>, out @ [Write b])"

definition rec_run :: "action list \<Rightarrow> recorder \<times> action list" where
  "rec_run acts = fold rec_step acts (recorder0, [])"

section \<open>JSON answers\<close>

definition contentTypeJSON_http :: string where "contentTypeJSON_http = ''application/json; charset=utf-8''"
definition headerContentType :: string where "headerContentType = ''Content-Type''"
definition headerRequestID :: string where "headerRequestID = ''X-Request-ID''"
definition headerUserID :: string where "headerUserID = ''X-User-ID''"
definition messageInternal :: string where "messageInternal = ''Internal error''"

definition writeJSON :: "nat \<Rightarrow> payload \<Rightarrow> action list" where
  "writeJSON status b = [SetHeader headerContentType contentTypeJSON_http, WriteHeader status, Write (Json b)]"

section \<open>Middleware\<close>

definition maxRequestIDLen :: nat where "maxRequestIDLen = 64"
definition routeUnmatched :: string where "routeUnmatched = ''unmatched''"
definition methodOther :: string where "methodOther = ''_OTHER''"

definition standardMethods :: "string list" where
  "standardMethods = [''GET'', ''HEAD'', ''POST'', ''PUT'', ''PATCH'', ''DELETE'', ''CONNECT'', ''OPTIONS'', ''TRACE'']"

definition normalizeMethod :: "string \<Rightarrow> string" where
  "normalizeMethod m = (if m \<in> set standardMethods then m else methodOther)"

text \<open>
  The range over a Go string yields runes: a byte below 128 is itself, everything else is a rune
  above the tilde (\<open>U+FFFD\<close> for an ill-formed byte).
\<close>

definition validRequestID :: "string \<Rightarrow> bool" where
  "validRequestID i =
     (if i = '''' \<or> length i > maxRequestIDLen then False
      else list_all (\<lambda>c. 32 \<le> byte c \<and> byte c \<le> 126) i)"

definition requestID :: "('w \<Rightarrow> string \<times> 'w) \<Rightarrow> 'w handler \<Rightarrow> 'w handler" where
  "requestID NewString next r w =
     (let i = rq_Header r headerRequestID;
          (i, w) = (if validRequestID i then (i, w) else NewString w);
          (res, acts, w) = next (r\<lparr>rq_RequestID := i\<rparr>) w
      in (res, SetHeader headerRequestID i # acts, w))"

definition healthPath :: string where "healthPath = ''/health''"
definition livenessPath :: string where "livenessPath = ''/livez''"
definition metricsPath :: string where "metricsPath = ''/metrics''"

definition servicePath :: "string \<Rightarrow> bool" where
  "servicePath p = (p = healthPath \<or> p = livenessPath \<or> p = metricsPath)"

text \<open>
  \<open>pattern\<close> is the route pattern chi has recorded for the request by the time the handler
  returns; a panic passes the observation by.
\<close>

definition measuring ::
  "(string \<Rightarrow> string \<Rightarrow> nat \<Rightarrow> 'w \<Rightarrow> 'w) \<Rightarrow> (Request \<Rightarrow> string) \<Rightarrow> 'w handler \<Rightarrow> 'w handler" where
  "measuring Observe pattern next r w =
     (if servicePath (rq_Path r) then next r w
      else let (res, acts, w) = next r w; (rc, acts) = rec_run acts
           in case res of
                Panic a \<Rightarrow> (Panic a, acts, w)
              | Served \<Rightarrow>
                  (let route = (if pattern r = '''' then routeUnmatched else pattern r)
                   in (Served, acts, Observe (normalizeMethod (rq_Method r)) route (rec_status rc) w)))"

definition log_level :: "string \<Rightarrow> nat \<Rightarrow> int" where
  "log_level path status =
     (if status \<ge> 500 then 8 else if servicePath path then -4 else 0)"

definition logging :: "(int \<Rightarrow> string \<Rightarrow> nat \<Rightarrow> 'w \<Rightarrow> 'w) \<Rightarrow> 'w handler \<Rightarrow> 'w handler" where
  "logging Log next r w =
     (let (res, acts, w) = next r w; (rc, acts) = rec_run acts
      in case res of
           Panic a \<Rightarrow> (Panic a, acts, w)
         | Served \<Rightarrow> (Served, acts, Log (log_level (rq_Path r) (rec_status rc)) (rq_Path r) (rec_status rc) w))"

text \<open>
  \<open>recovering\<close>: \<open>Panic True\<close> is \<open>http.ErrAbortHandler\<close>, which is passed on. Whether the answer
  has begun is read off the recorder of \<open>logging\<close>, the writer around it.
\<close>

definition headerWritten :: "action list \<Rightarrow> bool" where
  "headerWritten acts = rec_wrote (fst (rec_run acts))"

definition recovering :: "'w handler \<Rightarrow> 'w handler" where
  "recovering next r w =
     (let (res, acts, w) = next r w
      in case res of
           Served \<Rightarrow> (Served, acts, w)
         | Panic True \<Rightarrow> (Panic True, acts, w)
         | Panic False \<Rightarrow>
             if headerWritten acts then (Served, acts, w)
             else (Served, acts @ writeJSON 500 (JError \<lparr>er_Error = messageInternal, er_Details = '''', er_MaxSize = 0\<rparr>), w))"

definition timeout :: "duration \<Rightarrow> 'w handler \<Rightarrow> 'w handler" where
  "timeout d next r w =
     next (r\<lparr>rq_Timeout := Some (case rq_Timeout r of None \<Rightarrow> d | Some t \<Rightarrow> min t d)\<rparr>) w"

definition maxBytes :: "int \<Rightarrow> 'w handler \<Rightarrow> 'w handler" where
  "maxBytes limit next r w =
     next (r\<lparr>rq_BodyLimit := Some (case rq_BodyLimit r of None \<Rightarrow> limit | Some l \<Rightarrow> min l limit)\<rparr>) w"

definition extendWriteDeadline :: "duration \<Rightarrow> 'w handler \<Rightarrow> 'w handler" where
  "extendWriteDeadline d next r w = next (r\<lparr>rq_WriteDeadline := Some d\<rparr>) w"

section \<open>What the writers make of a list of calls\<close>

lemma send_header_simps [simp]:
  "cn_Sent (send_header s c) = (case cn_Sent c of None \<Rightarrow> Some (s, cn_Header c) | x \<Rightarrow> x)"
  "cn_Header (send_header s c) = cn_Header c" "cn_Body (send_header s c) = cn_Body c"
  by (simp_all add: send_header_def split: option.split)

definition starts :: "action \<Rightarrow> bool" where
  "starts a = (case a of SetHeader _ _ \<Rightarrow> False | _ \<Rightarrow> True)"

lemma starts_simps [simp]: "\<not> starts (SetHeader k v)" "starts (WriteHeader s)" "starts (Write b)"
  by (simp_all add: starts_def)

lemma sent_stays: "cn_Sent c = Some x \<Longrightarrow> cn_Sent (fold conn_step acts c) = Some x"
proof (induction acts arbitrary: c)
  case (Cons a acts)
  then show ?case by (cases a) simp_all
qed simp

lemma not_started: "list_all (\<lambda>a. \<not> starts a) acts \<Longrightarrow> cn_Sent (fold conn_step acts c) = cn_Sent c"
proof (induction acts arbitrary: c)
  case (Cons a acts)
  then show ?case by (cases a) simp_all
qed simp

lemma body_of: "cn_Body (fold conn_step acts c) = cn_Body c @ List.map_filter (\<lambda>a. case a of Write b \<Rightarrow> Some b | _ \<Rightarrow> None) acts"
proof (induction acts arbitrary: c)
  case (Cons a acts)
  then show ?case by (cases a) (simp_all add: List.map_filter_simps)
qed (simp add: List.map_filter_simps)

lemma resp_body_eq: "resp_body acts = List.map_filter (\<lambda>a. case a of Write b \<Rightarrow> Some b | _ \<Rightarrow> None) acts"
  by (simp add: resp_body_def respond_with_def body_of conn0_def)

text \<open>The recorder forwards all that has an effect, and its status is the one that is sent.\<close>

lemma rec_wrote_stays: "rec_wrote r \<Longrightarrow> rec_wrote (fst (fold rec_step acts (r, out)))
    \<and> rec_status (fst (fold rec_step acts (r, out))) = rec_status r"
proof (induction acts arbitrary: r out)
  case (Cons a acts)
  then show ?case by (cases a) simp_all
qed simp

lemma rec_transparent:
  assumes "rec_wrote r \<longleftrightarrow> cn_Sent c \<noteq> None" and "rec_wrote r \<Longrightarrow> fst (the (cn_Sent c)) = rec_status r"
    and "\<not> rec_wrote r \<Longrightarrow> rec_status r = 200"
    and "fold conn_step out conn0 = c"
  shows "fold conn_step (snd (fold rec_step acts (r, out))) conn0 = fold conn_step acts c
    \<and> fst (the (cn_Sent (send_header 200 (fold conn_step acts c)))) = rec_status (fst (fold rec_step acts (r, out)))"
  using assms
proof (induction acts arbitrary: r out c)
  case Nil
  then show ?case by (cases "rec_wrote r") (auto split: option.split)
next
  case (Cons a acts)
  show ?case
  proof (cases a)
    case (SetHeader k v)
    with Cons.IH [of r "c\<lparr>cn_Header := (cn_Header c)(k \<mapsto> v)\<rparr>" "out @ [a]"] Cons.prems show ?thesis by simp
  next
    case (WriteHeader s)
    show ?thesis
    proof (cases "rec_wrote r")
      case True
      with Cons.prems have "send_header s c = c" by (auto simp: send_header_def)
      with Cons.IH [OF Cons.prems] WriteHeader True show ?thesis by simp
    next
      case False
      with Cons.prems(1) have "cn_Sent c = None" by blast
      with Cons.IH [of "r\<lparr>rec_status := s, rec_wrote := True\<rparr>" "send_header s c" "out @ [a]"] Cons.prems WriteHeader False
      show ?thesis by simp
    qed
  next
    case (Write b)
    let ?c = "(send_header 200 c)\<lparr>cn_Body := cn_Body c @ [b]\<rparr>"
    have "fst (the (cn_Sent ?c)) = rec_status r"
      using Cons.prems(1-3) by (cases "rec_wrote r") (auto split: option.split)
    with Cons.IH [of "r\<lparr>rec_wrote := True\<rparr>" ?c "out @ [a]"] Cons.prems Write
    show ?thesis by (simp split: option.split)
  qed
qed

lemma rec_run_transparent:
  "respond_with (snd (rec_run acts)) = respond_with acts" "rec_status (fst (rec_run acts)) = resp_status acts"
  using rec_transparent [of recorder0 conn0 "[]" acts]
  by (simp_all add: rec_run_def respond_with_def resp_status_def recorder0_def conn0_def)

lemma rec_run_started: "rec_wrote (fst (fold rec_step acts (r, out))) \<longleftrightarrow> rec_wrote r \<or> list_ex starts acts"
proof (induction acts arbitrary: r out)
  case (Cons a acts)
  then show ?case by (cases a) (auto dest: rec_wrote_stays [THEN conjunct1])
qed simp

lemma headerWritten_iff: "headerWritten acts \<longleftrightarrow> list_ex starts acts"
  by (simp add: headerWritten_def rec_run_def rec_run_started recorder0_def)

end
