(* ===== verification/HttpApi.thy ===== *)
theory HttpApi
  imports HttpBase Broker
begin

text \<open>
  The REST handlers of package \<open>internal/server/http\<close> (\<open>response.go\<close>, \<open>dto.go\<close>,
  \<open>content.go\<close>, \<open>avatars.go\<close>, \<open>users.go\<close>, \<open>health.go\<close>, the helpers of \<open>http.go\<close>).
  A JSON body is the value that is encoded. The files the form parser puts on disk are counted
  in the world: \<open>a_spill\<close> adds them, \<open>a_removeAll\<close> removes them.
\<close>

section \<open>Texts\<close>

definition itoa :: "int \<Rightarrow> string" where
  "itoa n = (if n < 0 then ''-'' @ decimal (nat (- n)) else decimal (nat n))"

text \<open>\<open>strings.TrimSpace\<close>: the white space of Unicode, in UTF-8.\<close>

definition spaces :: "string list" where
  "spaces = map (map char_of)
     ([[9], [10], [11], [12], [13], [32], [194, 133], [194, 160], [225, 154, 128]]
      @ map (\<lambda>n. [226, 128, n]) [128 ..< 139]
      @ [[226, 128, 168], [226, 128, 169], [226, 128, 175], [226, 129, 159], [227, 128, 128 :: nat]])"

lemma spaces_pos: "find p spaces = Some t \<Longrightarrow> t \<noteq> []"
proof -
  assume "find p spaces = Some t"
  then have "t \<in> set spaces" by (auto simp: find_Some_iff)
  moreover have "list_all (\<lambda>s. s \<noteq> []) spaces" by code_simp
  ultimately show ?thesis by (auto simp: list_all_iff)
qed

function TrimLeft :: "string \<Rightarrow> string" where
  "TrimLeft s =
     (if s = [] then [] else
      case find (HasPrefix s) spaces of None \<Rightarrow> s | Some t \<Rightarrow> TrimLeft (drop (length t) s))"
  by auto
termination by (relation "measure length") (auto dest: spaces_pos)

function TrimRight :: "string \<Rightarrow> string" where
  "TrimRight s =
     (if s = [] then [] else
      case find (HasSuffix s) spaces of None \<Rightarrow> s | Some t \<Rightarrow> TrimRight (take (length s - length t) s))"
  by auto
termination by (relation "measure length") (auto dest: spaces_pos)

declare TrimLeft.simps [simp del] TrimRight.simps [simp del]

definition TrimSpace :: "string \<Rightarrow> string" where
  "TrimSpace s = TrimRight (TrimLeft s)"

text \<open>\<open>strings.Split(s, sep)\<close> for a separator of one byte.\<close>

fun Split :: "char \<Rightarrow> string \<Rightarrow> string list" where
  "Split sep [] = [[]]"
| "Split sep (c # s) =
     (if c = sep then [] # Split sep s
      else case Split sep s of [] \<Rightarrow> [[c]] | t # ts \<Rightarrow> (c # t) # ts)"

section \<open>Errors as answers\<close>

definition messageNotFound :: string where "messageNotFound = ''Avatar not found''"
definition messageForbidden :: string where "messageForbidden = ''Forbidden''"
definition messageInvalidFormat :: string where "messageInvalidFormat = ''Invalid file format''"
definition messageTooLarge :: string where "messageTooLarge = ''File too large''"
definition messageBadRequest :: string where "messageBadRequest = ''Bad request''"
definition messageConflict :: string where "messageConflict = ''Avatar state changed''"
definition messageTimeout :: string where "messageTimeout = ''Request timeout''"
definition messageTooMany :: string where "messageTooMany = ''Too many requests''"
definition messageUnavailable :: string where "messageUnavailable = ''Service temporarily unavailable''"

definition maxUserIDLen :: nat where "maxUserIDLen = 255"
definition maxFileNameLen :: nat where "maxFileNameLen = 255"
definition multipartOverheadBytes :: int where "multipartOverheadBytes = 65536"

definition Join :: "string \<Rightarrow> string list \<Rightarrow> string" where
  "Join sep xs = (case xs of [] \<Rightarrow> [] | x # r \<Rightarrow> x @ concat (map (\<lambda>y. sep @ y) r))"

definition supportedSizes :: string where
  "supportedSizes = Join '', '' (ThumbnailSizes @ [SizeOriginal])"

definition er :: "string \<Rightarrow> string \<Rightarrow> int \<Rightarrow> errorResponse" where
  "er e d m = \<lparr>er_Error = e, er_Details = d, er_MaxSize = m\<rparr>"

definition http_mapError :: "int \<Rightarrow> error \<Rightarrow> nat \<times> errorResponse" where
  "http_mapError maxUpload err =
     (if errors_Is err ErrNotFound then (404, er messageNotFound '''' 0)
      else if errors_Is err ErrForbidden then (403, er messageForbidden ''You can only delete your own avatars'' 0)
      else if errors_Is err ErrTooLarge then (413, er messageTooLarge '''' maxUpload)
      else if errors_Is err ErrUnsupportedFormat then (400, er messageInvalidFormat ''Supported formats: jpeg, png, webp'' 0)
      else if errors_Is err ErrImageTooBig then (400, er messageInvalidFormat ''Image has too many pixels'' 0)
      else if errors_Is err ErrUnsupportedSize then (400, er messageBadRequest (''Supported sizes: '' @ supportedSizes) 0)
      else if errors_Is err errMissingUserID then (400, er messageBadRequest (headerUserID @ '' header is required'') 0)
      else if errors_Is err errInvalidAvatarID then (400, er messageBadRequest ''Avatar id must be a UUID'' 0)
      else if errors_Is err errMissingFile then (400, er messageBadRequest ''Attach the image as the file field'' 0)
      else if errors_Is err errMalformedBody then (400, er messageBadRequest ''Body must be multipart/form-data'' 0)
      else if errors_Is err errUserIDTooLong then
        (400, er messageBadRequest (headerUserID @ '' must be at most '' @ decimal maxUserIDLen @ '' characters'') 0)
      else if errors_Is err errFileNameTooLong then
        (400, er messageBadRequest (''File name must be at most '' @ decimal maxFileNameLen @ '' characters'') 0)
      else if errors_Is err ErrInvalidTransition then (409, er messageConflict '''' 0)
      else if errors_Is err ErrUnavailable then (503, er messageUnavailable '''' 0)
      else if errors_Is err ErrDeadlineExceeded then (504, er messageTimeout '''' 0)
      else (500, er messageInternal '''' 0))"

section \<open>The interface to the service\<close>

record 'w http_Service =
  hs_Upload :: "UploadInput \<Rightarrow> 'w \<Rightarrow> (error + Avatar) \<times> 'w"
  hs_AvatarContent :: "uuid \<Rightarrow> ThumbnailSize \<Rightarrow> 'w \<Rightarrow> (error + Content) \<times> 'w"
  hs_UserAvatarContent :: "string \<Rightarrow> ThumbnailSize \<Rightarrow> 'w \<Rightarrow> (error + Content) \<times> 'w"
  hs_Metadata :: "uuid \<Rightarrow> 'w \<Rightarrow> (error + Avatar) \<times> 'w"
  hs_ListByUser :: "string \<Rightarrow> 'w \<Rightarrow> (error + Avatar list) \<times> 'w"
  hs_Delete :: "uuid \<Rightarrow> string \<Rightarrow> 'w \<Rightarrow> error option \<times> 'w"
  hs_DeleteCurrent :: "string \<Rightarrow> string \<Rightarrow> 'w \<Rightarrow> error option \<times> 'w"

text \<open>A dependency \<open>/health\<close> asks: its name and its \<open>Ping\<close>.\<close>

type_synonym 'w Checker = "'w \<Rightarrow> error option \<times> 'w"

record 'w api =
  a_svc :: "'w http_Service"
  a_checks :: "(string \<times> 'w Checker) list"
  a_maxUpload :: int
  a_us :: "uuid \<Rightarrow> string"
  a_up :: "string \<Rightarrow> uuid option"
  a_spill :: "nat \<Rightarrow> 'w \<Rightarrow> 'w"
  a_removeAll :: "nat \<Rightarrow> 'w \<Rightarrow> 'w"

definition respond :: "'w api \<Rightarrow> error \<Rightarrow> action list" where
  "respond a err = (let (status, b) = http_mapError (a_maxUpload a) err in writeJSON status (JError b))"

definition requesterID :: "Request \<Rightarrow> error + string" where
  "requesterID r =
     (let i = rq_Header r headerUserID
      in if i = '''' then Inl (Sentinel errMissingUserID)
         else if length i > maxUserIDLen then Inl (Sentinel errUserIDTooLong) else Inr i)"

definition paramAvatarID :: string where "paramAvatarID = ''avatar_id''"
definition paramUserID :: string where "paramUserID = ''user_id''"
definition paramSize :: string where "paramSize = ''size''"

definition avatarID :: "'w api \<Rightarrow> Request \<Rightarrow> error + uuid" where
  "avatarID a r =
     (case a_up a (rq_Param r paramAvatarID) of None \<Rightarrow> Inl (Sentinel errInvalidAvatarID) | Some i \<Rightarrow> Inr i)"

definition thumbnailSize :: "Request \<Rightarrow> error + ThumbnailSize" where
  "thumbnailSize r = ParseThumbnailSize (rq_Query r paramSize)"

section \<open>Representations\<close>

definition apiPrefix :: string where "apiPrefix = ''/api/v1''"

definition avatarURL :: "(uuid \<Rightarrow> string) \<Rightarrow> uuid \<Rightarrow> string" where
  "avatarURL us i = apiPrefix @ ''/avatars/'' @ us i"

definition thumbnailURL :: "(uuid \<Rightarrow> string) \<Rightarrow> uuid \<Rightarrow> ThumbnailSize \<Rightarrow> string" where
  "thumbnailURL us i sz = avatarURL us i @ ''?'' @ paramSize @ ''='' @ sz"

definition apiStatus :: "ProcessingStatus \<Rightarrow> string" where
  "apiStatus s =
     (case s of
        ProcessingStatusCompleted \<Rightarrow> ''completed''
      | ProcessingStatusFailed \<Rightarrow> ''failed''
      | _ \<Rightarrow> ''processing'')"

definition newUploadResponse :: "(uuid \<Rightarrow> string) \<Rightarrow> Avatar \<Rightarrow> uploadResponse" where
  "newUploadResponse us av =
     \<lparr>ur_ID = us (ID av), ur_UserID = UserID av, ur_URL = avatarURL us (ID av),
      ur_Status = apiStatus (AvProcessingStatus av), ur_CreatedAt = CreatedAt av\<rparr>"

definition newMetadataResponse :: "(uuid \<Rightarrow> string) \<Rightarrow> Avatar \<Rightarrow> metadataResponse" where
  "newMetadataResponse us av =
     \<lparr>mr_ID = us (ID av), mr_UserID = UserID av, mr_FileName = FileName av, mr_MimeType = MimeType av,
      mr_Size = SizeBytes av, mr_Dimensions = (Width av, Height av),
      mr_Thumbnails = map (\<lambda>sz. \<lparr>tr_Size = sz, tr_URL = thumbnailURL us (ID av) sz\<rparr>)
        (filter (\<lambda>sz. Thumbnail av sz \<noteq> None) ThumbnailSizes),
      mr_CreatedAt = CreatedAt av, mr_UpdatedAt = UpdatedAt av\<rparr>"

section \<open>Content\<close>

definition headerCacheControl :: string where "headerCacheControl = ''Cache-Control''"
definition headerETag :: string where "headerETag = ''ETag''"
definition headerIfNoneMatch :: string where "headerIfNoneMatch = ''If-None-Match''"
definition headerAvatarDefault :: string where "headerAvatarDefault = ''X-Avatar-Default''"
definition headerContentLength :: string where "headerContentLength = ''Content-Length''"
definition headerRetryAfter :: string where "headerRetryAfter = ''Retry-After''"

definition quoteETag :: "string \<Rightarrow> string" where
  "quoteETag etag =
     (if etag = '''' \<or> HasPrefix etag [CHR 0x22] then etag else CHR 0x22 # etag @ [CHR 0x22])"

definition matchETag :: "string \<Rightarrow> string \<Rightarrow> bool" where
  "matchETag ifNoneMatch etag =
     (if ifNoneMatch = '''' \<or> etag = '''' then False
      else list_ex (\<lambda>candidate. let candidate = TrimSpace candidate
              in candidate = ''*'' \<or> TrimPrefix candidate ''W/'' = etag) (Split (CHR '','') ifNoneMatch))"

definition writeContent :: "Request \<Rightarrow> Content \<Rightarrow> action list" where
  "writeContent r c =
     (let etag = quoteETag (c_ETag c);
          head = (if etag \<noteq> '''' then [SetHeader headerETag etag] else [])
             @ [SetHeader headerCacheControl (''max-age='' @ itoa (c_MaxAge c div Second))]
             @ (if c_IsDefault c then [SetHeader headerAvatarDefault ''true''] else [])
      in if matchETag (rq_Header r headerIfNoneMatch) etag then head @ [WriteHeader 304]
         else head @ [SetHeader headerContentType (c_ContentType c),
                    SetHeader headerContentLength (itoa (c_Size c))]
                 @ (if c_Body c = [] then [] else [Write (Raw (c_Body c))]))"

section \<open>Avatars\<close>

definition fieldFile :: string where "fieldFile = ''file''"
definition fieldImage :: string where "fieldImage = ''image''"

text \<open>The loop over the two accepted field names.\<close>

fun pickFile :: "Form \<Rightarrow> string list \<Rightarrow> error + FileHeader" where
  "pickFile f [] = Inl (Sentinel errMissingFile)"
| "pickFile f (field # names) =
     (case FormFile f field of
        Inr h \<Rightarrow> Inr h
      | Inl ErrMissingFile \<Rightarrow> pickFile f names
      | Inl OpenFailed \<Rightarrow> Inl (wrapf (Sentinel errMalformedBody)))"

text \<open>
  \<open>formFile\<close>, with the number of files on disk that belong to the form; the parser removes its
  files itself when it fails.
\<close>

definition formFile :: "'w api \<Rightarrow> Request \<Rightarrow> 'w \<Rightarrow> (error + FileHeader \<times> nat) \<times> 'w" where
  "formFile a r w =
     (case ParseMultipartForm r of
        Inl MaxBytesError \<Rightarrow> (Inl (wrapf (Sentinel ErrTooLarge)), w)
      | Inl MalformedForm \<Rightarrow> (Inl (wrapf (Sentinel errMalformedBody)), w)
      | Inr f \<Rightarrow>
          (case pickFile f [fieldFile, fieldImage] of
             Inl e \<Rightarrow> (Inl e, a_spill a (f_Temp f) w)
           | Inr h \<Rightarrow> (Inr (h, f_Temp f), a_spill a (f_Temp f) w)))"

definition closeForm :: "'w api \<Rightarrow> nat \<Rightarrow> 'w \<Rightarrow> 'w" where
  "closeForm a temp w = a_removeAll a temp w"

definition http_upload :: "'w api \<Rightarrow> 'w handler" where
  "http_upload a r w =
     (case requesterID r of
        Inl e \<Rightarrow> (Served, respond a e, w)
      | Inr userID \<Rightarrow>
          (case formFile a r w of
             (Inl e, w) \<Rightarrow> (Served, respond a e, w)
           | (Inr (h, temp), w) \<Rightarrow>
               if fh_Size h > a_maxUpload a
               then (Served, respond a (wrapf (Sentinel ErrTooLarge)), closeForm a temp w)
               else if length (fh_Filename h) > maxFileNameLen
               then (Served, respond a (Sentinel errFileNameTooLong), closeForm a temp w)
               else (case hs_Upload (a_svc a) \<lparr>u_UserID = userID, u_FileName = fh_Filename h,
                            u_Size = fh_Size h, u_File = fh_File h\<rparr> w of
                       (Inl e, w) \<Rightarrow> (Served, respond a e, closeForm a temp w)
                     | (Inr av, w) \<Rightarrow>
                         (Served, writeJSON 201 (JUpload (newUploadResponse (a_us a) av)), closeForm a temp w))))"

definition avatarContent :: "'w api \<Rightarrow> 'w handler" where
  "avatarContent a r w =
     (case avatarID a r of
        Inl e \<Rightarrow> (Served, respond a e, w)
      | Inr i \<Rightarrow>
          (case thumbnailSize r of
             Inl e \<Rightarrow> (Served, respond a e, w)
           | Inr sz \<Rightarrow>
               (case hs_AvatarContent (a_svc a) i sz w of
                  (Inl e, w) \<Rightarrow> (Served, respond a e, w)
                | (Inr c, w) \<Rightarrow> (Served, writeContent r c, w))))"

definition avatarMetadata :: "'w api \<Rightarrow> 'w handler" where
  "avatarMetadata a r w =
     (case avatarID a r of
        Inl e \<Rightarrow> (Served, respond a e, w)
      | Inr i \<Rightarrow>
          (case hs_Metadata (a_svc a) i w of
             (Inl e, w) \<Rightarrow> (Served, respond a e, w)
           | (Inr av, w) \<Rightarrow> (Served, writeJSON 200 (JMetadata (newMetadataResponse (a_us a) av)), w)))"

definition deleteAvatar :: "'w api \<Rightarrow> 'w handler" where
  "deleteAvatar a r w =
     (case requesterID r of
        Inl e \<Rightarrow> (Served, respond a e, w)
      | Inr userID \<Rightarrow>
          (case avatarID a r of
             Inl e \<Rightarrow> (Served, respond a e, w)
           | Inr i \<Rightarrow>
               (case hs_Delete (a_svc a) i userID w of
                  (Some e, w) \<Rightarrow> (Served, respond a e, w)
                | (None, w) \<Rightarrow> (Served, [WriteHeader 204], w))))"

section \<open>Users\<close>

definition userAvatarContent :: "'w api \<Rightarrow> 'w handler" where
  "userAvatarContent a r w =
     (case thumbnailSize r of
        Inl e \<Rightarrow> (Served, respond a e, w)
      | Inr sz \<Rightarrow>
          (case hs_UserAvatarContent (a_svc a) (rq_Param r paramUserID) sz w of
             (Inl e, w) \<Rightarrow> (Served, respond a e, w)
           | (Inr c, w) \<Rightarrow> (Served, writeContent r c, w)))"

definition userAvatars :: "'w api \<Rightarrow> 'w handler" where
  "userAvatars a r w =
     (case hs_ListByUser (a_svc a) (rq_Param r paramUserID) w of
        (Inl e, w) \<Rightarrow> (Served, respond a e, w)
      | (Inr avs, w) \<Rightarrow> (Served, writeJSON 200 (JList (map (newMetadataResponse (a_us a)) avs)), w))"

definition deleteUserAvatar :: "'w api \<Rightarrow> 'w handler" where
  "deleteUserAvatar a r w =
     (case requesterID r of
        Inl e \<Rightarrow> (Served, respond a e, w)
      | Inr requester \<Rightarrow>
          (case hs_DeleteCurrent (a_svc a) (rq_Param r paramUserID) requester w of
             (Some e, w) \<Rightarrow> (Served, respond a e, w)
           | (None, w) \<Rightarrow> (Served, [WriteHeader 204], w)))"

section \<open>Health\<close>

definition statusOK :: string where "statusOK = ''ok''"
definition statusDegraded :: string where "statusDegraded = ''degraded''"
definition statusUnavailable :: string where "statusUnavailable = ''unavailable''"

definition checkStatus :: "'w Checker \<Rightarrow> 'w \<Rightarrow> string \<times> 'w" where
  "checkStatus check w =
     (case check w of (Some e, w) \<Rightarrow> (statusUnavailable, w) | (None, w) \<Rightarrow> (statusOK, w))"

text \<open>The checks run at the same time; here in some order, each on the world the last one left.\<close>

fun run_checks :: "(string \<times> 'w Checker) list \<Rightarrow> 'w \<Rightarrow> (string \<times> string) list \<times> 'w" where
  "run_checks [] w = ([], w)"
| "run_checks ((name, check) # checks) w =
     (let (status, w) = checkStatus check w; (rest, w) = run_checks checks w
      in ((name, status) # rest, w))"

definition health :: "'w api \<Rightarrow> 'w handler" where
  "health a r w =
     (let (components, w) = run_checks (a_checks a) w;
          down = list_ex (\<lambda>(n, s). s \<noteq> statusOK) components
      in (Served, writeJSON (if down then 503 else 200)
            (JHealth \<lparr>hr_Status = (if down then statusDegraded else statusOK), hr_Components = components\<rparr>), w))"

definition liveness :: "'w handler" where
  "liveness r w = (Served, [WriteHeader 200], w)"

section \<open>Answers of the handlers\<close>

lemma json_answer [simp]:
  "resp_status (writeJSON s b) = s" "resp_body (writeJSON s b) = [Json b]"
  "resp_header (writeJSON s b) headerContentType = Some contentTypeJSON_http"
  by (simp_all add: writeJSON_def resp_status_def resp_body_def resp_header_def respond_with_def conn0_def)

lemma respond_status [simp]: "resp_status (respond a e) = fst (http_mapError (a_maxUpload a) e)"
  by (simp add: respond_def split: prod.split)

lemma mapError_status: "fst (http_mapError m e) \<in> {400, 403, 404, 409, 413, 500, 503, 504}"
  by (simp add: http_mapError_def)

lemma mapError_not_ok: "fst (http_mapError m e) \<noteq> 201" "fst (http_mapError m e) \<noteq> 204" "fst (http_mapError m e) \<noteq> 200"
  using mapError_status [of m e] by auto

lemma no_content [simp]: "resp_status [WriteHeader s] = s"
  by (simp add: resp_status_def respond_with_def conn0_def)

section \<open>Conditional requests\<close>

lemma Split_single: "sep \<notin> set s \<Longrightarrow> Split sep s = [s]"
  by (induction s) auto

lemma TrimLeft_id: "find (HasPrefix s) spaces = None \<Longrightarrow> TrimLeft s = s"
  by (simp add: TrimLeft.simps)

lemma TrimRight_id: "find (HasSuffix s) spaces = None \<Longrightarrow> TrimRight s = s"
  by (simp add: TrimRight.simps)

definition graphic :: "char \<Rightarrow> bool" where
  "graphic c \<longleftrightarrow> 33 \<le> byte c \<and> byte c \<le> 126"

lemma spaces_not_graphic: "list_all (\<lambda>t. t \<noteq> [] \<and> \<not> graphic (hd t) \<and> \<not> graphic (last t)) spaces"
  by code_simp

lemma TrimLeft_graphic:
  assumes "graphic c"
  shows "TrimLeft (c # s) = c # s"
proof (rule TrimLeft_id)
  have "\<not> HasPrefix (c # s) t" if "t \<in> set spaces" for t
  proof -
    from that spaces_not_graphic have "hd t \<noteq> c" "t \<noteq> []" using assms by (auto simp: list_all_iff)
    then show ?thesis by (cases t) (auto simp: HasPrefix_def)
  qed
  then show "find (HasPrefix (c # s)) spaces = None" by (auto simp: find_None_iff)
qed

lemma TrimRight_graphic:
  assumes "graphic c"
  shows "TrimRight (s @ [c]) = s @ [c]"
proof (rule TrimRight_id)
  have "\<not> HasSuffix (s @ [c]) t" if "t \<in> set spaces" for t
  proof -
    from that spaces_not_graphic have "last t \<noteq> c" "t \<noteq> []" using assms by (auto simp: list_all_iff)
    then show ?thesis by (auto simp: HasSuffix_iff) (metis last_appendR last_snoc)
  qed
  then show "find (HasSuffix (s @ [c])) spaces = None" by (auto simp: find_None_iff)
qed

lemma TrimSpace_graphic: "graphic c \<Longrightarrow> graphic d \<Longrightarrow> TrimSpace (c # s @ [d]) = c # s @ [d]"
  using TrimRight_graphic [of d "c # s"] by (simp add: TrimSpace_def TrimLeft_graphic)

text \<open>The validator of a storage: an opaque text without quotes and commas.\<close>

definition opaque_etag :: "string \<Rightarrow> bool" where
  "opaque_etag e \<longleftrightarrow> e \<noteq> '''' \<and> CHR 0x22 \<notin> set e \<and> CHR '','' \<notin> set e"

lemma quoteETag_opaque: "opaque_etag e \<Longrightarrow> quoteETag e = CHR 0x22 # e @ [CHR 0x22]"
  by (cases e) (auto simp: quoteETag_def opaque_etag_def HasPrefix_def)

lemma TrimSpace_quoted: "TrimSpace (CHR 0x22 # e @ [CHR 0x22]) = CHR 0x22 # e @ [CHR 0x22]"
  by (rule TrimSpace_graphic) (simp_all add: graphic_def byte_def)

lemma TrimSpace_weak: "TrimSpace (''W/'' @ CHR 0x22 # e @ [CHR 0x22]) = ''W/'' @ CHR 0x22 # e @ [CHR 0x22]"
  using TrimSpace_graphic [of "CHR ''W''" "CHR 0x22" "CHR ''/'' # CHR 0x22 # e"] by (simp add: graphic_def byte_def)

lemma matchETag_echo:
  assumes "opaque_etag e" and "opaque_etag e'"
  shows "matchETag (quoteETag e) (quoteETag e') \<longleftrightarrow> e = e'"
    and "matchETag (''W/'' @ quoteETag e) (quoteETag e') \<longleftrightarrow> e = e'"
proof -
  have c: "CHR '','' \<notin> set (quoteETag e)" "CHR '','' \<notin> set (''W/'' @ quoteETag e)"
    using assms(1) by (simp_all add: quoteETag_opaque) (auto simp: opaque_etag_def)
  show "matchETag (quoteETag e) (quoteETag e') \<longleftrightarrow> e = e'"
    using assms Split_single [OF c(1)]
    by (simp add: matchETag_def quoteETag_opaque TrimSpace_quoted TrimPrefix_def HasPrefix_def)
  show "matchETag (''W/'' @ quoteETag e) (quoteETag e') \<longleftrightarrow> e = e'"
    using assms Split_single [OF c(2)] TrimSpace_weak [of e]
    by (simp add: matchETag_def quoteETag_opaque TrimPrefix_def HasPrefix_def)
qed

lemmas header_names = headerETag_def headerCacheControl_def headerAvatarDefault_def headerContentType_def
  headerContentLength_def headerIfNoneMatch_def

lemma writeContent_ETag:
  "resp_header (writeContent r c) headerETag = (if c_ETag c = '''' then None else Some (quoteETag (c_ETag c)))"
  by (simp add: writeContent_def resp_header_def respond_with_def conn0_def Let_def header_names quoteETag_def)

lemma writeContent_status:
  "resp_status (writeContent r c) = (if matchETag (rq_Header r headerIfNoneMatch) (quoteETag (c_ETag c)) then 304 else 200)"
  by (simp add: writeContent_def resp_status_def respond_with_def conn0_def Let_def)

lemma writeContent_body:
  "resp_body (writeContent r c) =
     (if matchETag (rq_Header r headerIfNoneMatch) (quoteETag (c_ETag c)) \<or> c_Body c = [] then [] else [Raw (c_Body c)])"
  by (simp add: writeContent_def resp_body_def respond_with_def conn0_def Let_def)

section \<open>Health\<close>

lemma run_checks_stable:
  assumes "\<forall>(n, c)\<in>set checks. \<forall>w. fst (c w) = None \<longleftrightarrow> up n"
  shows "fst (run_checks checks w) = map (\<lambda>(n, c). (n, if up n then statusOK else statusUnavailable)) checks"
  using assms
proof (induction checks arbitrary: w)
  case (Cons nc checks)
  obtain n c where nc: "nc = (n, c)" by fastforce
  obtain e w1 where cw: "c w = (e, w1)" by fastforce
  from Cons.prems cw have "e = None \<longleftrightarrow> up n" by (auto simp: nc) (metis fst_conv)+
  then have "checkStatus c w = (if up n then statusOK else statusUnavailable, w1)"
    by (auto simp: checkStatus_def cw split: option.split)
  moreover have "fst (run_checks checks w1) = map (\<lambda>(n, c). (n, if up n then statusOK else statusUnavailable)) checks"
    using Cons by auto
  ultimately show ?case by (simp add: nc case_prod_unfold)
qed simp

lemma some_down:
  "list_ex (\<lambda>(n, s). s \<noteq> statusOK) (map (\<lambda>(n, c). (n, if up n then statusOK else statusUnavailable)) checks)
     \<longleftrightarrow> \<not> (\<forall>(n, c)\<in>set checks. up n)"
  by (induction checks) (auto simp: statusOK_def statusUnavailable_def)

section \<open>What an upload may cost\<close>

text \<open>What \<open>http_upload\<close> lets through to the service.\<close>

definition input_ok :: "int \<Rightarrow> UploadInput \<Rightarrow> bool" where
  "input_ok maxUpload inp \<longleftrightarrow> u_UserID inp \<noteq> '''' \<and> length (u_UserID inp) \<le> maxUserIDLen
     \<and> length (u_FileName inp) \<le> maxFileNameLen \<and> u_Size inp \<le> maxUpload"

lemma utf8_length_le: "utf8_length s \<le> length s"
  by (simp add: utf8_length_def)

lemma varchar_length: "length s \<le> n \<Longrightarrow> varchar n s"
  using utf8_length_le [of s] by (simp add: varchar_def)

lemma requesterID_ok: "requesterID r = Inr u \<longleftrightarrow>
    u = rq_Header r headerUserID \<and> u \<noteq> '''' \<and> length u \<le> maxUserIDLen"
  by (auto simp: requesterID_def Let_def)

lemma http_upload_cases:
  assumes "http_upload a r w = (res, acts, w')"
  obtains (refused) e w1 where "acts = respond a e" "res = Served"
      "w' = w1" "(\<exists>u. requesterID r = Inr u \<and> formFile a r w = (Inl e, w1)) \<or> (requesterID r = Inl e \<and> w1 = w)"
  | (limits) e h temp w1 where "acts = respond a e" "res = Served" "formFile a r w = (Inr (h, temp), w1)"
      "w' = closeForm a temp w1" "\<exists>u. requesterID r = Inr u"
  | (called) h temp w1 w2 x where "formFile a r w = (Inr (h, temp), w1)" "res = Served"
      "input_ok (a_maxUpload a) \<lparr>u_UserID = rq_Header r headerUserID, u_FileName = fh_Filename h,
          u_Size = fh_Size h, u_File = fh_File h\<rparr>"
      "hs_Upload (a_svc a) \<lparr>u_UserID = rq_Header r headerUserID, u_FileName = fh_Filename h,
          u_Size = fh_Size h, u_File = fh_File h\<rparr> w1 = (x, w2)"
      "w' = closeForm a temp w2"
      "acts = (case x of Inl e \<Rightarrow> respond a e | Inr av \<Rightarrow> writeJSON 201 (JUpload (newUploadResponse (a_us a) av)))"
      "\<exists>u. requesterID r = Inr u"
proof (cases "requesterID r")
  case (Inl e)
  with assms show ?thesis by (intro refused [of e w]) (auto simp: http_upload_def)
next
  case (Inr u)
  then have u: "u = rq_Header r headerUserID" "u \<noteq> ''''" "length u \<le> maxUserIDLen"
    unfolding requesterID_ok by blast+
  obtain q w1 where ff: "formFile a r w = (q, w1)" by fastforce
  show ?thesis
  proof (cases q)
    case (Inl e)
    with assms Inr ff show ?thesis by (intro refused [of e w1]) (auto simp: http_upload_def)
  next
    case ht: (Inr ht)
    obtain h temp where ht': "ht = (h, temp)" by fastforce
    consider "fh_Size h > a_maxUpload a" | "\<not> fh_Size h > a_maxUpload a" "length (fh_Filename h) > maxFileNameLen"
      | "fh_Size h \<le> a_maxUpload a" "length (fh_Filename h) \<le> maxFileNameLen" by fastforce
    then show ?thesis
    proof cases
      case 1
      with assms Inr ff ht ht' show ?thesis
        by (intro limits [of "wrapf (Sentinel ErrTooLarge)" h temp w1]) (auto simp: http_upload_def)
    next
      case 2
      with assms Inr ff ht ht' show ?thesis
        by (intro limits [of "Sentinel errFileNameTooLong" h temp w1]) (auto simp: http_upload_def)
    next
      case 3
      obtain x w2 where x: "hs_Upload (a_svc a) \<lparr>u_UserID = rq_Header r headerUserID, u_FileName = fh_Filename h,
          u_Size = fh_Size h, u_File = fh_File h\<rparr> w1 = (x, w2)" by fastforce
      with assms Inr ff ht ht' 3 u show ?thesis
        by (intro called [of h temp w1 x w2]) (auto simp: http_upload_def input_ok_def split: sum.splits)
    qed
  qed
qed

section \<open>Properties\<close>



text \<open>
  A picture is not sent twice: a client that repeats its request with the validator of the
  first answer, strong or weak, gets 304 without a body exactly as long as the validator of the
  content is the same, and the whole body with the new validator otherwise.
\<close>

theorem conditional_get:
  assumes "opaque_etag (c_ETag c)" and "opaque_etag (c_ETag c')" and "c_Body c' \<noteq> []"
    and "resp_header (writeContent r c) headerETag = Some et"
    and "rq_Header r' headerIfNoneMatch \<in> {et, ''W/'' @ et}"
  shows "(if c_ETag c' = c_ETag c
      then resp_status (writeContent r' c') = 304 \<and> resp_body (writeContent r' c') = []
      else resp_status (writeContent r' c') = 200 \<and> resp_body (writeContent r' c') = [Raw (c_Body c')])
    \<and> resp_header (writeContent r' c') headerETag = Some (quoteETag (c_ETag c'))"
proof -
  have et: "et = quoteETag (c_ETag c)" "c_ETag c' \<noteq> ''''"
    using assms(1,2,4) by (auto simp: writeContent_ETag opaque_etag_def split: if_splits)
  have "matchETag (rq_Header r' headerIfNoneMatch) (quoteETag (c_ETag c')) \<longleftrightarrow> c_ETag c = c_ETag c'"
    using assms(5) matchETag_echo [OF assms(1,2)] by (auto simp: et(1))
  then show ?thesis using assms(3) et(2)
    by (cases "c_ETag c' = c_ETag c") (simp_all add: writeContent_status writeContent_body writeContent_ETag)
qed

definition content0 :: Content where
  "content0 = \<lparr>c_Body = [1, 2], c_BodyErr = None, c_ContentType = ''image/jpeg'', c_ETag = ''abc'', c_Size = 2,
     c_MaxAge = 60 * Second, c_IsDefault = False\<rparr>"

definition request0 :: Request where
  "request0 = \<lparr>rq_Method = ''GET'', rq_Path = ''/api/v1/avatars/seven'', rq_Header = (\<lambda>_. ''''), rq_Query = (\<lambda>_. ''''),
     rq_Param = (\<lambda>_. ''seven''), rq_RemoteAddr = ''10.0.0.1:5000'', rq_Form = None, rq_FormBytes = 0,
     rq_BodyLimit = None, rq_Timeout = None, rq_WriteDeadline = None, rq_RequestID = ''''\<rparr>"

theorem conditional_get_witness:
  "resp_status (writeContent (request0\<lparr>rq_Header := (\<lambda>_. ''W/'' @ CHR 0x22 # ''abc'' @ [CHR 0x22])\<rparr>) content0) = 304"
proof -
  have "opaque_etag (c_ETag content0)" "c_Body content0 \<noteq> []" by (simp_all add: content0_def opaque_etag_def)
  moreover have "resp_header (writeContent request0 content0) headerETag = Some (CHR 0x22 # ''abc'' @ [CHR 0x22])"
    by (simp add: writeContent_ETag content0_def quoteETag_def HasPrefix_def)
  ultimately show ?thesis
    using conditional_get [of content0 content0 request0 "CHR 0x22 # ''abc'' @ [CHR 0x22]"
        "request0\<lparr>rq_Header := (\<lambda>_. ''W/'' @ CHR 0x22 # ''abc'' @ [CHR 0x22])\<rparr>"] by simp
qed

text \<open>
  Health tells the truth: with dependencies that are up or down for the time of the
  request, the answer is 200 exactly when all of them are up, and it names each with its state.
\<close>

theorem health_exact:
  assumes "\<forall>(n, c)\<in>set (a_checks a). \<forall>w. fst (c w) = None \<longleftrightarrow> up n"
    and "health a r w = (res, acts, w')"
  shows "res = Served \<and> resp_status acts = (if \<forall>(n, c)\<in>set (a_checks a). up n then 200 else 503)
    \<and> (\<exists>s. resp_body acts = [Json (JHealth \<lparr>hr_Status = s, hr_Components =
          map (\<lambda>(n, c). (n, if up n then statusOK else statusUnavailable)) (a_checks a)\<rparr>)])"
proof -
  obtain cs w1 where rc: "run_checks (a_checks a) w = (cs, w1)" by fastforce
  with run_checks_stable [OF assms(1), of w]
  have cs: "cs = map (\<lambda>(n, c). (n, if up n then statusOK else statusUnavailable)) (a_checks a)" by simp
  have "list_ex (\<lambda>(n, s). s \<noteq> statusOK) cs \<longleftrightarrow> \<not> (\<forall>(n, c)\<in>set (a_checks a). up n)"
    unfolding cs by (rule some_down)
  then have down: "list_ex (\<lambda>(n, s). s \<noteq> statusOK) cs = (\<not> (\<forall>(n, c)\<in>set (a_checks a). up n))" .
  from assms(2) rc have "res = Served" and "acts = writeJSON (if list_ex (\<lambda>(n, s). s \<noteq> statusOK) cs then 503 else 200)
      (JHealth \<lparr>hr_Status = (if list_ex (\<lambda>(n, s). s \<noteq> statusOK) cs then statusDegraded else statusOK), hr_Components = cs\<rparr>)"
    by (simp_all add: health_def Let_def)
  then show ?thesis unfolding down by (simp add: cs)
qed

definition api0 :: "unit api" where
  "api0 = \<lparr>a_svc = \<lparr>hs_Upload = (\<lambda>i w. (Inl ErrText, w)), hs_AvatarContent = (\<lambda>i s w. (Inr content0, w)),
       hs_UserAvatarContent = (\<lambda>u s w. (Inr content0, w)), hs_Metadata = (\<lambda>i w. (Inl ErrText, w)),
       hs_ListByUser = (\<lambda>u w. (Inr [], w)), hs_Delete = (\<lambda>i u w. (None, w)), hs_DeleteCurrent = (\<lambda>u v w. (None, w))\<rparr>,
     a_checks = [(''db'', \<lambda>w. (None, w)), (''s3'', \<lambda>w. (Some ErrText, w))], a_maxUpload = 10,
     a_us = (\<lambda>_. ''seven''), a_up = (\<lambda>_. Some 7), a_spill = (\<lambda>_ w. w), a_removeAll = (\<lambda>_ w. w)\<rparr>"

theorem health_exact_witness:
  "\<exists>res acts w'. health api0 request0 () = (res, acts, w') \<and> resp_status acts = 503"
proof -
  have up: "\<forall>(n, c)\<in>set (a_checks api0). \<forall>w. fst (c w) = None \<longleftrightarrow> n = ''db''" by (simp add: api0_def)
  obtain res acts w' where run: "health api0 request0 () = (res, acts, w')" by (metis prod.collapse)
  from health_exact [OF up run] have "resp_status acts = 503" by (simp add: api0_def)
  with run show ?thesis by blast
qed

lemma http_upload_guarded:
  assumes "\<And>inp w. input_ok (a_maxUpload a) inp \<Longrightarrow> hs_Upload S inp w = hs_Upload (a_svc a) inp w"
  shows "http_upload (a\<lparr>a_svc := S\<rparr>) r w = http_upload a r w"
proof (cases "requesterID r")
  case (Inl e)
  then show ?thesis by (simp add: http_upload_def respond_def)
next
  case (Inr u)
  then have u: "u \<noteq> ''''" "length u \<le> maxUserIDLen" unfolding requesterID_ok by blast+
  have same: "formFile (a\<lparr>a_svc := S\<rparr>) r w = formFile a r w" by (simp add: formFile_def cong: sum.case_cong parse_error.case_cong)
  show ?thesis
  proof (cases "formFile a r w")
    case (Pair q w1)
    show ?thesis
    proof (cases q)
      case (Inl e)
      with Pair Inr same show ?thesis by (simp add: http_upload_def respond_def)
    next
      case ht: (Inr ht)
      obtain h temp where h: "ht = (h, temp)" by fastforce
      let ?inp = "\<lparr>u_UserID = u, u_FileName = fh_Filename h, u_Size = fh_Size h, u_File = fh_File h\<rparr>"
      have "hs_Upload S ?inp w1 = hs_Upload (a_svc a) ?inp w1"
        if "\<not> fh_Size h > a_maxUpload a" "\<not> length (fh_Filename h) > maxFileNameLen"
        using u that by (intro assms) (simp add: input_ok_def)
      with Pair Inr same ht h show ?thesis
        by (cases "fh_Size h > a_maxUpload a"; cases "length (fh_Filename h) > maxFileNameLen")
          (simp_all add: http_upload_def respond_def closeForm_def cong: sum.case_cong)
    qed
  qed
qed

section \<open>Files on disk\<close>

text \<open>The world with the number of files the form parser has on disk.\<close>

definition on_disk :: "('v \<Rightarrow> 'r \<times> 'v) \<Rightarrow> nat \<times> 'v \<Rightarrow> 'r \<times> nat \<times> 'v" where
  "on_disk f tv = (let (t, v) = tv; (r, v) = f v in (r, t, v))"

definition disk_api :: "'v api \<Rightarrow> (nat \<times> 'v) api" where
  "disk_api a =
     \<lparr>a_svc = \<lparr>hs_Upload = (\<lambda>i. on_disk (hs_Upload (a_svc a) i)),
        hs_AvatarContent = (\<lambda>i s. on_disk (hs_AvatarContent (a_svc a) i s)),
        hs_UserAvatarContent = (\<lambda>u s. on_disk (hs_UserAvatarContent (a_svc a) u s)),
        hs_Metadata = (\<lambda>i. on_disk (hs_Metadata (a_svc a) i)),
        hs_ListByUser = (\<lambda>u. on_disk (hs_ListByUser (a_svc a) u)),
        hs_Delete = (\<lambda>i u. on_disk (hs_Delete (a_svc a) i u)),
        hs_DeleteCurrent = (\<lambda>u v. on_disk (hs_DeleteCurrent (a_svc a) u v))\<rparr>,
      a_checks = map (\<lambda>(n, c). (n, on_disk c)) (a_checks a), a_maxUpload = a_maxUpload a,
      a_us = a_us a, a_up = a_up a,
      a_spill = (\<lambda>n (t, v). (t + n, v)), a_removeAll = (\<lambda>n (t, v). (t - n, v))\<rparr>"

text \<open>
  An upload leaves no file on disk, with one exception: if the form parses but neither
  field holds a readable file, what the parser spilled to disk stays there.
\<close>

theorem upload_files_on_disk:
  assumes "http_upload (disk_api a) r (t, v) = (res, acts, t', v')"
  shows "t' = (case (requesterID r, ParseMultipartForm r) of
      (Inr u, Inr f) \<Rightarrow> (case pickFile f [fieldFile, fieldImage] of Inl e \<Rightarrow> t + f_Temp f | Inr h \<Rightarrow> t)
    | _ \<Rightarrow> t)"
proof -
  have up: "fst (snd (hs_Upload (a_svc (disk_api a)) inp (n, x))) = n" for inp n x
    by (simp add: disk_api_def on_disk_def split: prod.split)
  have ops: "a_spill (disk_api a) n (m, x) = (m + n, x)" "a_removeAll (disk_api a) n (m, x) = (m - n, x)" for n m x
    by (simp_all add: disk_api_def)
  from assms show ?thesis
  proof (cases rule: http_upload_cases)
    case (refused e w1)
    then show ?thesis
      by (auto simp: formFile_def ops split: sum.splits parse_error.splits)
  next
    case (limits e h temp w1)
    then show ?thesis
      by (auto simp: formFile_def closeForm_def ops split: sum.splits parse_error.splits)
  next
    case (called h temp w1 w2 x)
    have "fst w2 = fst w1" using called(4) by (metis prod.collapse snd_conv up)
    with called show ?thesis
      by (cases w1; cases w2) (auto simp: formFile_def closeForm_def ops split: sum.splits parse_error.splits)
  qed
qed

definition spilled0 :: Request where
  "spilled0 = request0\<lparr>rq_Header := (\<lambda>_. ''alice''),
     rq_Form := Some \<lparr>f_Value = (\<lambda>_. ''''), f_File = (\<lambda>_. None), f_Temp = 1\<rparr>\<rparr>"

theorem upload_files_on_disk_witness:
  "\<exists>res acts v'. http_upload (disk_api api0) spilled0 (0, ()) = (res, acts, 1, v') \<and> resp_status acts = 400"
proof -
  obtain res acts t' v' where run: "http_upload (disk_api api0) spilled0 (0, ()) = (res, acts, t', v')"
    by (metis prod.collapse)
  have p: "requesterID spilled0 = Inr ''alice''" "ParseMultipartForm spilled0 = Inr (the (rq_Form spilled0))"
      "pickFile (the (rq_Form spilled0)) [fieldFile, fieldImage] = Inl (Sentinel errMissingFile)"
      "f_Temp (the (rq_Form spilled0)) = 1"
    by (simp_all add: requesterID_def spilled0_def request0_def maxUserIDLen_def ParseMultipartForm_def FormFile_def)
  from upload_files_on_disk [OF run] p have "t' = 1" by simp
  moreover have "resp_status acts = 400"
    using run p by (auto simp: http_upload_def formFile_def http_mapError_def)
  ultimately show ?thesis using run by auto
qed

end
