(* ===== verification/RateLimiter.thy ===== *)
theory RateLimiter
  imports HttpApi Configuration
begin

text \<open>
  The limiter of package \<open>internal/server/http\<close> (\<open>ratelimit.go\<close>): one token bucket per key,
  made on the first request and dropped after three idle minutes. The bucket is
  \<open>golang.org/x/time/rate\<close>, a parameter (record \<open>rate\<close>); the locale \<open>token_bucket\<close> states its
  documented behaviour, a bucket of \<open>b\<close> tokens, full at first, refilled at \<open>r\<close> tokens a second.
\<close>

section \<open>The library\<close>

record ('l, 'v) rate =
  NewLimiter :: "float64 \<Rightarrow> int \<Rightarrow> 'l"
  AllowN :: "time \<Rightarrow> 'l \<Rightarrow> bool \<times> 'l"
  ReserveN :: "time \<Rightarrow> 'l \<Rightarrow> 'v \<times> 'l"
  DelayFrom :: "'v \<Rightarrow> time \<Rightarrow> duration"
  CancelAt :: "'v \<Rightarrow> time \<Rightarrow> 'l \<Rightarrow> 'l"

section \<open>The limiter\<close>

definition limiterIdleTTL :: duration where "limiterIdleTTL = 3 * Minute"
definition limiterSweepInterval :: duration where "limiterSweepInterval = Minute"

record 'l visitor =
  v_lim :: 'l
  v_seen :: time

record 'l limiters =
  l_limit :: float64
  l_burst :: int
  l_visitors :: "(string \<times> 'l visitor) list"
  l_lastSweep :: time

text \<open>The zero \<open>time.Time\<close>, in nanoseconds of the Unix epoch.\<close>

definition zeroTime :: time where "zeroTime = -62135596800000000000"

text \<open>
  \<open>int(f)\<close>: a value outside of \<open>int\<close> converts to something that depends on the machine,
  the parameter \<open>conv\<close>.
\<close>

definition go_int :: "(float64 \<Rightarrow> int) \<Rightarrow> float64 \<Rightarrow> int" where
  "go_int conv f = (case f of Finite q \<Rightarrow> (if in_int64 \<lfloor>q\<rfloor> then \<lfloor>q\<rfloor> else conv f) | _ \<Rightarrow> conv f)"

definition ceil_twice :: "float64 \<Rightarrow> float64" where
  "ceil_twice f = (case f of Finite q \<Rightarrow> Finite (of_int \<lceil>2 * q\<rceil>) | x \<Rightarrow> x)"

definition burst_of :: "(float64 \<Rightarrow> int) \<Rightarrow> RateLimit \<Rightarrow> int" where
  "burst_of conv cfg =
     (let burst = Burst cfg in if burst = 0 then max 1 (go_int conv (ceil_twice (RPS cfg))) else burst)"

definition newLimiters :: "(float64 \<Rightarrow> int) \<Rightarrow> RateLimit \<Rightarrow> 'l limiters" where
  "newLimiters conv cfg =
     \<lparr>l_limit = RPS cfg, l_burst = burst_of conv cfg,
      l_visitors = [], l_lastSweep = zeroTime\<rparr>"

definition sweep :: "time \<Rightarrow> 'l limiters \<Rightarrow> 'l limiters" where
  "sweep now l =
     (if now - l_lastSweep l < limiterSweepInterval then l
      else l\<lparr>l_lastSweep := now,
             l_visitors := filter (\<lambda>(k, v). \<not> now - v_seen v > limiterIdleTTL) (l_visitors l)\<rparr>)"

definition put_visitor :: "string \<Rightarrow> 'l visitor \<Rightarrow> (string \<times> 'l visitor) list \<Rightarrow> (string \<times> 'l visitor) list" where
  "put_visitor k v vs = (k, v) # filter (\<lambda>(k', _). k' \<noteq> k) vs"

definition ceil_seconds :: "duration \<Rightarrow> int" where
  "ceil_seconds d = - ((- d) div Second)"

definition allow :: "('l, 'v) rate \<Rightarrow> time \<Rightarrow> string \<Rightarrow> 'l limiters \<Rightarrow> (bool \<times> int) \<times> 'l limiters" where
  "allow L now key l =
     (let l = sweep now l;
          lim = (case map_of (l_visitors l) key of
                   Some v \<Rightarrow> v_lim v | None \<Rightarrow> NewLimiter L (l_limit l) (l_burst l));
          (ok, lim) = AllowN L now lim
      in if ok then ((True, 0), l\<lparr>l_visitors := put_visitor key \<lparr>v_lim = lim, v_seen = now\<rparr> (l_visitors l)\<rparr>)
         else let (res, lim) = ReserveN L now lim;
                  delay = DelayFrom L res now;
                  lim = CancelAt L res now lim
              in ((False, max 1 (ceil_seconds delay)),
                  l\<lparr>l_visitors := put_visitor key \<lparr>v_lim = lim, v_seen = now\<rparr> (l_visitors l)\<rparr>))"

text \<open>\<open>net.SplitHostPort\<close>; \<open>None\<close> is its error.\<close>

definition SplitHostPort :: "string \<Rightarrow> (string \<times> string) option" where
  "SplitHostPort s =
     (if CHR '':'' \<notin> set s then None
      else let i = length s - 1 - length (takeWhile (\<lambda>c. c \<noteq> CHR '':'') (rev s)); port = drop (Suc i) s
           in if hd s = CHR ''['' then
                (let e = length (takeWhile (\<lambda>c. c \<noteq> CHR '']'') s)
                 in if CHR '']'' \<notin> set s \<or> Suc e \<noteq> i then None
                    else if CHR ''['' \<in> set (tl s) \<or> CHR '']'' \<in> set (drop (Suc e) s) then None
                    else Some (take (e - 1) (tl s), port))
              else if CHR '':'' \<in> set (take i s) then None
              else if CHR ''['' \<in> set s \<or> CHR '']'' \<in> set s then None
              else Some (take i s, port))"

definition limitKey :: "Request \<Rightarrow> string" where
  "limitKey r =
     (let i = rq_Header r headerUserID
      in if i \<noteq> '''' \<and> length i \<le> maxUserIDLen then i
         else case SplitHostPort (rq_RemoteAddr r) of None \<Rightarrow> rq_RemoteAddr r | Some (host, _) \<Rightarrow> host)"

lemma SplitHostPort_samples:
  "SplitHostPort ''10.0.0.1:5000'' = Some (''10.0.0.1'', ''5000'')"
  "SplitHostPort ''[::1]:80'' = Some (''::1'', ''80'')"
  "SplitHostPort ''::1:80'' = None" "SplitHostPort ''host'' = None" "SplitHostPort ''[::1]'' = None"
  by code_simp+

text \<open>The middleware over any \<open>allow\<close> of a world.\<close>

definition rateLimiting ::
  "(string \<Rightarrow> 'w \<Rightarrow> (bool \<times> int) \<times> 'w) \<Rightarrow> 'w handler \<Rightarrow> 'w handler" where
  "rateLimiting alw next r w =
     (case alw (limitKey r) w of
        ((True, _), w) \<Rightarrow> next r w
      | ((False, retryAfter), w) \<Rightarrow>
          (Served, SetHeader headerRetryAfter (itoa retryAfter)
             # writeJSON 429 (JError (er messageTooMany '''' 0)), w))"

section \<open>An ideal limiter\<close>

text \<open>
  The reference: every key has a bucket of its own from the beginning, and none is ever dropped.
  A bucket is the number of tokens at the time of its last use.
\<close>

definition refill :: "rat \<Rightarrow> int \<Rightarrow> rat \<times> time \<Rightarrow> time \<Rightarrow> rat" where
  "refill r b q now = min (of_int b) (fst q + r * of_int (now - snd q) / 1000000000)"

fun ideal :: "rat \<Rightarrow> int \<Rightarrow> (string \<Rightarrow> rat \<times> time) \<Rightarrow> (time \<times> string) list \<Rightarrow> bool list" where
  "ideal r b st [] = []"
| "ideal r b st ((now, key) # reqs) =
     (let x = refill r b (st key) now; ok = (1 \<le> x)
      in ok # ideal r b (st(key := (x - (if ok then 1 else 0), now))) reqs)"

definition full :: "int \<Rightarrow> string \<Rightarrow> rat \<times> time" where
  "full b = (\<lambda>_. (of_int b, zeroTime))"

fun allow_all :: "('l, 'v) rate \<Rightarrow> (time \<times> string) list \<Rightarrow> 'l limiters \<Rightarrow> bool list" where
  "allow_all L [] l = []"
| "allow_all L ((now, key) # reqs) l = (case allow L now key l of ((ok, _), l) \<Rightarrow> ok # allow_all L reqs l)"

section \<open>The contract of the library\<close>

text \<open>\<open>tokens l t\<close> are the tokens of the bucket at \<open>t\<close>, \<open>since l\<close> the time of its last change.\<close>

locale token_bucket =
  fixes L :: "('l, 'v) rate" and r :: rat and b :: int
    and tokens :: "'l \<Rightarrow> time \<Rightarrow> rat" and since :: "'l \<Rightarrow> time"
  assumes rate_pos: "0 \<le> r"
    and new_full: "zeroTime \<le> t \<Longrightarrow> tokens (NewLimiter L (Finite r) b) t = of_int b"
    and new_since: "since (NewLimiter L (Finite r) b) = zeroTime"
    and AllowN_law: "since l \<le> now \<Longrightarrow> AllowN L now l = (ok, l') \<Longrightarrow>
      (ok \<longleftrightarrow> 1 \<le> tokens l now) \<and> tokens l' now = tokens l now - (if ok then 1 else 0) \<and> since l' \<le> now"
    and Reserve_Cancel: "since l \<le> now \<Longrightarrow> ReserveN L now l = (v, l1) \<Longrightarrow>
      tokens (CancelAt L v now l1) now = tokens l now \<and> since (CancelAt L v now l1) \<le> now"
    and advance: "since l \<le> t \<Longrightarrow> t \<le> t' \<Longrightarrow>
      tokens l t' = min (of_int b) (tokens l t + r * of_int (t' - t) / 1000000000)"
begin

definition level :: "'l limiters \<Rightarrow> string \<Rightarrow> time \<Rightarrow> rat" where
  "level l k t = (case map_of (l_visitors l) k of None \<Rightarrow> of_int b | Some v \<Rightarrow> tokens (v_lim v) t)"

text \<open>What holds between requests, the last of which came at \<open>now\<close>.\<close>

definition inv :: "time \<Rightarrow> 'l limiters \<Rightarrow> bool" where
  "inv now l \<longleftrightarrow> l_limit l = Finite r \<and> l_burst l = b \<and> l_lastSweep l \<le> now \<and> zeroTime \<le> now
     \<and> (\<forall>k v. (k, v) \<in> set (l_visitors l) \<longrightarrow>
          since (v_lim v) \<le> v_seen v \<and> v_seen v \<le> now \<and> 0 \<le> tokens (v_lim v) (v_seen v)
          \<and> l_lastSweep l - v_seen v \<le> limiterIdleTTL)"

lemma map_of_filter_entry:
  assumes "distinct (map fst vs)"
  shows "map_of (filter P vs) k = (case map_of vs k of None \<Rightarrow> None | Some v \<Rightarrow> if P (k, v) then Some v else None)"
  using assms
proof (induction vs)
  case (Cons kv vs)
  obtain k' v where kv: "kv = (k', v)" by fastforce
  from Cons.prems have "k' \<notin> fst ` set vs" by (simp add: kv)
  then have "map_of vs k' = None" by (simp add: map_of_eq_None_iff)
  with Cons show ?case by (auto simp: kv split: option.splits)
qed simp

lemma put_visitor_simps [simp]:
  "map_of (put_visitor k v vs) k' = (if k' = k then Some v else map_of vs k')"
  by (induction vs) (auto simp: put_visitor_def)

lemma put_visitor_distinct: "distinct (map fst vs) \<Longrightarrow> distinct (map fst (put_visitor k v vs))"
  by (induction vs) (auto simp: put_visitor_def)

text \<open>A bucket that was idle long enough to be dropped is full again.\<close>

lemma idle_is_full:
  assumes "inv t l" and "(k, v) \<in> set (l_visitors l)" and "now - v_seen v > limiterIdleTTL" and "of_int b \<le> 180 * r"
  shows "tokens (v_lim v) now = of_int b"
proof -
  from assms(1,2) have v: "since (v_lim v) \<le> v_seen v" "0 \<le> tokens (v_lim v) (v_seen v)" by (auto simp: inv_def)
  have "180 * 1000000000 \<le> (of_int (now - v_seen v) :: rat)"
    using assms(3) by (simp add: limiterIdleTTL_def del: of_int_diff)
  then have "r * (180 * 1000000000) \<le> r * of_int (now - v_seen v)"
    using rate_pos by (rule mult_left_mono)
  then have "of_int b \<le> r * of_int (now - v_seen v) / 1000000000" using assms(4) by simp
  with v(2) have "of_int b \<le> tokens (v_lim v) (v_seen v) + r * of_int (now - v_seen v) / 1000000000" by simp
  then show ?thesis using advance [OF v(1), of now] assms(3) by (simp add: limiterIdleTTL_def min_def)
qed

lemma inv_later: "inv t l \<Longrightarrow> t \<le> now \<Longrightarrow> inv now l"
  unfolding inv_def by (meson order_trans)

lemma sweep_inv:
  assumes "inv t l" and "t \<le> now" and "distinct (map fst (l_visitors l))"
  shows "inv now (sweep now l)" and "distinct (map fst (l_visitors (sweep now l)))"
proof -
  show "inv now (sweep now l)"
    using inv_later [OF assms(1,2)] by (auto simp: inv_def sweep_def)
  show "distinct (map fst (l_visitors (sweep now l)))"
    using assms(3) by (auto simp: sweep_def distinct_map inj_on_def)
qed

lemma sweep_level:
  assumes "inv t l" and "distinct (map fst (l_visitors l))" and "of_int b \<le> 180 * r"
  shows "level (sweep now l) k now = level l k now"
proof (cases "now - l_lastSweep l < limiterSweepInterval")
  case False
  then have "map_of (l_visitors (sweep now l)) k =
      (case map_of (l_visitors l) k of None \<Rightarrow> None
       | Some v \<Rightarrow> if \<not> now - v_seen v > limiterIdleTTL then Some v else None)"
    by (simp add: sweep_def map_of_filter_entry [OF assms(2)] cong: option.case_cong)
  moreover have "tokens (v_lim v) now = of_int b"
    if "map_of (l_visitors l) k = Some v" "now - v_seen v > limiterIdleTTL" for v
    using idle_is_full [OF assms(1) map_of_SomeD [OF that(1)] that(2) assms(3)] .
  ultimately show ?thesis by (auto simp: level_def split: option.splits)
qed (simp add: sweep_def)

lemma inv_since: "inv now l \<Longrightarrow> map_of (l_visitors l) k = Some v \<Longrightarrow> since (v_lim v) \<le> now"
  unfolding inv_def using map_of_SomeD order_trans by metis

lemma level_nonneg: assumes "inv now l" "0 \<le> b" shows "0 \<le> level l k now"
proof (cases "map_of (l_visitors l) k")
  case (Some v)
  from assms map_of_SomeD [OF Some] have v: "since (v_lim v) \<le> v_seen v" "v_seen v \<le> now" "0 \<le> tokens (v_lim v) (v_seen v)"
    by (auto simp: inv_def)
  then have "0 \<le> r * of_int (now - v_seen v) / 1000000000" using rate_pos by simp
  with v advance [OF v(1,2)] assms(2) Some show ?thesis by (simp add: level_def)
qed (simp add: level_def assms(2))

lemma level_advance:
  assumes "inv now l" and "now \<le> t"
  shows "level l k t = min (of_int b) (level l k now + r * of_int (t - now) / 1000000000)"
proof (cases "map_of (l_visitors l) k")
  case None
  have "0 \<le> r * of_int (t - now) / 1000000000" using rate_pos assms(2) by simp
  then show ?thesis by (simp add: None level_def)
next
  case (Some v)
  from advance [OF inv_since [OF assms(1) Some] assms(2)] show ?thesis by (simp add: Some level_def)
qed

text \<open>One request, as the bucket of its key sees it.\<close>

lemma allow_spec:
  assumes i: "inv t l" and "t \<le> now" and d: "distinct (map fst (l_visitors l))" and full: "of_int b \<le> 180 * r"
    and b: "0 \<le> b" and run: "allow L now key l = ((ok, ra), l')"
  shows "ok \<longleftrightarrow> 1 \<le> level l key now"
    and "level l' k now = level l k now - (if k = key \<and> ok then 1 else 0)"
    and "inv now l'" and "distinct (map fst (l_visitors l'))"
proof -
  let ?l = "sweep now l"
  define lim where "lim = (case map_of (l_visitors ?l) key of Some v \<Rightarrow> v_lim v
      | None \<Rightarrow> NewLimiter L (l_limit ?l) (l_burst ?l))"
  obtain ok0 lim1 where al: "AllowN L now lim = (ok0, lim1)" by fastforce
  obtain v lim2 where rs: "ReserveN L now lim1 = (v, lim2)" by fastforce
  define lim' where "lim' = (if ok0 then lim1 else CancelAt L v now lim2)"
  note si = sweep_inv [OF i assms(2) d]
  have lm: "l_limit ?l = Finite r" "l_burst ?l = b" "zeroTime \<le> now" using si(1) by (simp_all add: inv_def)
  have sn: "since lim \<le> now" using si(1) inv_since lm
    by (auto simp: lim_def new_since split: option.split)
  have tk: "tokens lim now = level l key now"
    using sweep_level [OF i d full, of now key] lm by (auto simp: lim_def level_def new_full split: option.splits)
  note A = AllowN_law [OF sn al]
  have l': "l' = ?l\<lparr>l_visitors := put_visitor key \<lparr>v_lim = lim', v_seen = now\<rparr> (l_visitors ?l)\<rparr>" and ok: "ok = ok0"
    using run al rs by (auto simp: allow_def Let_def lim_def lim'_def split: if_splits prod.splits)
  have t': "tokens lim' now = tokens lim now - (if ok then 1 else 0)" and s': "since lim' \<le> now"
    using A Reserve_Cancel [OF _ rs] by (auto simp: lim'_def ok)
  show "ok \<longleftrightarrow> 1 \<le> level l key now" using A tk by (simp add: ok)
  show "level l' k now = level l k now - (if k = key \<and> ok then 1 else 0)"
  proof (cases "k = key")
    case True
    then show ?thesis using t' tk by (simp add: level_def l')
  next
    case False
    then have "level l' k now = level ?l k now" by (simp add: level_def l')
    with False sweep_level [OF i d full] show ?thesis by simp
  qed
  have "0 \<le> tokens lim' now"
    using t' tk A level_nonneg [OF si(1) b, of key] sweep_level [OF i d full, of now key] by (auto simp: ok split: if_splits)
  then show "inv now l'"
    using si(1) s' by (auto simp: l' inv_def put_visitor_def limiterIdleTTL_def)
  show "distinct (map fst (l_visitors l'))"
    using si(2) by (simp add: l' put_visitor_distinct)
qed

text \<open>The limiter decides as the ideal one does.\<close>

lemma allow_all_ideal:
  assumes "inv t l" and "distinct (map fst (l_visitors l))" and "of_int b \<le> 180 * r" and "0 \<le> b"
    and "sorted (t # map fst reqs)"
    and "\<forall>k. \<forall>u\<ge>t. level l k u = refill r b (st k) u"
  shows "allow_all L reqs l = ideal r b st reqs"
  using assms
proof (induction reqs arbitrary: t l st)
  case (Cons q reqs)
  obtain now key where q: "q = (now, key)" by fastforce
  obtain ok ra l' where run: "allow L now key l = ((ok, ra), l')" by (metis prod.collapse)
  from Cons.prems(5) have le: "t \<le> now" "sorted (now # map fst reqs)" by (simp_all add: q)
  note S = allow_spec [OF Cons.prems(1) le(1) Cons.prems(2,3,4) run]
  let ?x = "refill r b (st key) now"
  let ?st = "st(key := (?x - (if 1 \<le> ?x then 1 else 0), now))"
  have x: "level l key now = ?x" using Cons.prems(6) le(1) by simp
  then have ok: "ok = (1 \<le> ?x)" using S(1) by simp
  have "level l' k u = refill r b (?st k) u" if "now \<le> u" for k u
  proof (cases "k = key")
    case True
    have "level l' key u = min (of_int b) (level l' key now + r * of_int (u - now) / 1000000000)"
      by (rule level_advance [OF S(3) that])
    with S(2) [of key] x ok True show ?thesis by (simp add: refill_def)
  next
    case False
    have "level l' k u = min (of_int b) (level l' k now + r * of_int (u - now) / 1000000000)"
      by (rule level_advance [OF S(3) that])
    also have "\<dots> = min (of_int b) (level l k now + r * of_int (u - now) / 1000000000)" using S(2) [of k] False by simp
    also have "\<dots> = level l k u"
    proof -
      from level_advance [OF inv_later [OF Cons.prems(1) le(1)] that] show ?thesis by simp
    qed
    also have "\<dots> = refill r b (st k) u" using Cons.prems(6) le(1) that by simp
    finally show ?thesis using False by simp
  qed
  then have "allow_all L reqs l' = ideal r b ?st reqs"
    using Cons.IH [OF S(3,4) Cons.prems(3,4) le(2)] by blast
  with run ok show ?case by (simp add: q Let_def)
qed simp

end

section \<open>A bucket after the documentation\<close>

definition doc_tokens :: "rat \<Rightarrow> int \<Rightarrow> rat \<times> time \<Rightarrow> time \<Rightarrow> rat" where
  "doc_tokens r b l t = min (of_int b) (fst l + r * of_int (t - snd l) / 1000000000)"

definition doc_rate :: "rat \<Rightarrow> int \<Rightarrow> (rat \<times> time, rat) rate" where
  "doc_rate r b =
     \<lparr>NewLimiter = (\<lambda>_ n. (of_int n, zeroTime)),
      AllowN = (\<lambda>now l. let x = doc_tokens r b l now in if 1 \<le> x then (True, x - 1, now) else (False, l)),
      ReserveN = (\<lambda>now l. let x = doc_tokens r b l now - 1 in (if x < 0 then - x / r else 0, x, now)),
      DelayFrom = (\<lambda>v now. \<lceil>v * 1000000000\<rceil>),
      CancelAt = (\<lambda>v now l. (fst l + 1, snd l))\<rparr>"

lemma min_refill:
  fixes x :: rat
  assumes "0 \<le> d"
  shows "min c (min c x + d) = min c (x + d)"
  using assms by (auto simp: min_def)

interpretation doc_tb: token_bucket "doc_rate \<bar>r\<bar> b" "\<bar>r\<bar>" b "doc_tokens \<bar>r\<bar> b" snd for r b
proof
  show "0 \<le> \<bar>r\<bar>" by simp
next
  fix t :: time
  assume "zeroTime \<le> t"
  then have "0 \<le> \<bar>r\<bar> * of_int (t - zeroTime) / 1000000000" by simp
  then show "doc_tokens \<bar>r\<bar> b (NewLimiter (doc_rate \<bar>r\<bar> b) (Finite \<bar>r\<bar>) b) t = of_int b"
    by (simp add: doc_tokens_def doc_rate_def)
next
  show "snd (NewLimiter (doc_rate \<bar>r\<bar> b) (Finite \<bar>r\<bar>) b) = zeroTime" by (simp add: doc_rate_def)
next
  fix l l' :: "rat \<times> time" and now ok
  assume "snd l \<le> now" and "AllowN (doc_rate \<bar>r\<bar> b) now l = (ok, l')"
  moreover have "doc_tokens \<bar>r\<bar> b l now \<le> of_int b" by (simp add: doc_tokens_def)
  ultimately show "(ok \<longleftrightarrow> 1 \<le> doc_tokens \<bar>r\<bar> b l now)
      \<and> doc_tokens \<bar>r\<bar> b l' now = doc_tokens \<bar>r\<bar> b l now - (if ok then 1 else 0) \<and> snd l' \<le> now"
    by (auto simp: doc_rate_def Let_def doc_tokens_def [of _ _ "(_, _)"] split: if_splits)
next
  fix l l1 :: "rat \<times> time" and now v
  assume "snd l \<le> now" and "ReserveN (doc_rate \<bar>r\<bar> b) now l = (v, l1)"
  moreover have "doc_tokens \<bar>r\<bar> b l now \<le> of_int b" by (simp add: doc_tokens_def)
  ultimately show "doc_tokens \<bar>r\<bar> b (CancelAt (doc_rate \<bar>r\<bar> b) v now l1) now = doc_tokens \<bar>r\<bar> b l now
      \<and> snd (CancelAt (doc_rate \<bar>r\<bar> b) v now l1) \<le> now"
    by (auto simp: doc_rate_def Let_def doc_tokens_def [of _ _ "(_, _)"])
next
  fix l :: "rat \<times> time" and t t' :: time
  assume "snd l \<le> t" and "t \<le> t'"
  have split: "\<bar>r\<bar> * of_int (t' - snd l) / 1000000000 =
      \<bar>r\<bar> * of_int (t - snd l) / 1000000000 + \<bar>r\<bar> * of_int (t' - t) / 1000000000"
    by (simp add: field_simps)
  have "0 \<le> \<bar>r\<bar> * of_int (t' - t) / 1000000000" using \<open>t \<le> t'\<close> by simp
  then show "doc_tokens \<bar>r\<bar> b l t' =
      min (of_int b) (doc_tokens \<bar>r\<bar> b l t + \<bar>r\<bar> * of_int (t' - t) / 1000000000)"
    unfolding doc_tokens_def min_refill [OF \<open>0 \<le> \<bar>r\<bar> * of_int (t' - t) / 1000000000\<close>] split
    by (simp only: add.assoc)
qed

section \<open>How many requests pass\<close>

definition accepted :: "string \<Rightarrow> (time \<times> string) list \<Rightarrow> bool list \<Rightarrow> nat" where
  "accepted key reqs oks = length (filter (\<lambda>((t, k), ok). k = key \<and> ok) (zip reqs oks))"

lemma accepted_simps [simp]:
  "accepted key [] oks = 0"
  "accepted key ((t, k) # reqs) (ok # oks) = (if k = key \<and> ok then 1 else 0) + accepted key reqs oks"
  by (simp_all add: accepted_def)

lemma refill_later:
  assumes "0 \<le> r" and "t \<le> now"
  shows "refill r b q now \<le> refill r b q t + r * of_int (now - t) / 1000000000"
proof -
  have "r * of_int (now - snd q) / 1000000000 = r * of_int (t - snd q) / 1000000000 + r * of_int (now - t) / 1000000000"
    by (simp add: field_simps)
  moreover have "0 \<le> r * of_int (now - t) / 1000000000" using assms by simp
  ultimately show ?thesis unfolding refill_def by linarith
qed

lemma refill_now: "x \<le> of_int b \<Longrightarrow> refill r b (x, now) now = x"
  by (simp add: refill_def)

lemma ideal_bound:
  assumes "0 \<le> r" and "0 \<le> b" and "sorted (t # map fst reqs)" and "t \<le> end" and "\<forall>q\<in>set reqs. fst q \<le> end"
    and "\<forall>k. 0 \<le> fst (st k) \<and> snd (st k) \<le> t"
  shows "of_nat (accepted key reqs (ideal r b st reqs)) \<le> refill r b (st key) t + r * of_int (end - t) / 1000000000"
  using assms(3-6)
proof (induction reqs arbitrary: t st)
  case Nil
  have "0 \<le> r * of_int (t - snd (st key)) / 1000000000" using Nil.prems(4) assms(1) by simp
  moreover have "0 \<le> r * of_int (end - t) / 1000000000" using Nil.prems(2) assms(1) by simp
  moreover have "0 \<le> fst (st key)" using Nil.prems(4) by blast
  ultimately show ?case using assms(2) by (simp add: refill_def del: of_int_diff)
next
  case (Cons q reqs)
  obtain now k where q: "q = (now, k)" by fastforce
  let ?x = "refill r b (st k) now"
  let ?st = "st(k := (?x - (if 1 \<le> ?x then 1 else 0), now))"
  from Cons.prems(1,3) have le: "t \<le> now" "now \<le> end" "sorted (now # map fst reqs)" "\<forall>q\<in>set reqs. fst q \<le> end"
    by (auto simp: q)
  have k: "0 \<le> fst (st k)" "snd (st k) \<le> now" using Cons.prems(4) le(1) order_trans by blast+
  have "0 \<le> r * of_int (now - snd (st k)) / 1000000000" using k(2) assms(1) by simp
  then have x: "0 \<le> ?x" "?x \<le> of_int b" using k(1) assms(2) by (simp_all add: refill_def del: of_int_diff)
  have "\<forall>k. 0 \<le> fst (?st k) \<and> snd (?st k) \<le> now" using Cons.prems(4) le(1) x(1) order_trans by auto
  from Cons.IH [OF le(3,2,4) this]
  have ih: "of_nat (accepted key reqs (ideal r b ?st reqs)) \<le> refill r b (?st key) now + r * of_int (end - now) / 1000000000" .
  have "of_nat (accepted key (q # reqs) (ideal r b st (q # reqs)))
      = (if k = key \<and> 1 \<le> ?x then 1 else 0) + (of_nat (accepted key reqs (ideal r b ?st reqs)) :: rat)"
    by (auto simp: q Let_def)
  also have "\<dots> \<le> refill r b (st key) now + r * of_int (end - now) / 1000000000"
  proof (cases "k = key")
    case True
    then have "refill r b (?st key) now = ?x - (if 1 \<le> ?x then 1 else 0)" using x(2) by (simp add: refill_now)
    with ih show ?thesis unfolding True by (cases "1 \<le> refill r b (st key) now") simp_all
  next
    case False
    with ih show ?thesis by simp
  qed
  also have "\<dots> \<le> refill r b (st key) t + r * of_int (now - t) / 1000000000 + r * of_int (end - now) / 1000000000"
    using refill_later [OF assms(1) le(1)] by simp
  also have "\<dots> = refill r b (st key) t + r * of_int (end - t) / 1000000000" by (simp add: field_simps)
  finally show ?case .
qed

section \<open>Properties\<close>

lemma newLimiters_simps [simp]:
  "l_limit (newLimiters conv cfg) = RPS cfg" "l_visitors (newLimiters conv cfg) = []"
  "l_lastSweep (newLimiters conv cfg) = zeroTime" "l_burst (newLimiters conv cfg) = burst_of conv cfg"
  by (simp_all add: newLimiters_def)

lemma new_burst: "0 \<le> Burst cfg \<Longrightarrow> 1 \<le> burst_of conv cfg"
  by (auto simp: burst_of_def Let_def)

lemma limiter_ideal:
  assumes "token_bucket L r b tokens since" and "RPS cfg = Finite r" and "b = burst_of conv cfg"
    and "0 \<le> Burst cfg" and "of_int b \<le> 180 * r" and "sorted (zeroTime # map fst reqs)"
  shows "allow_all L reqs (newLimiters conv cfg) = ideal r b (full b) reqs"
proof (rule token_bucket.allow_all_ideal [OF assms(1) _ _ assms(5) _ assms(6)])
  show "token_bucket.inv r b tokens since zeroTime (newLimiters conv cfg)"
    unfolding token_bucket.inv_def [OF assms(1)] using assms(2,3) by simp
  show "distinct (map fst (l_visitors (newLimiters conv cfg)))" by simp
  show "0 \<le> b" using new_burst [OF assms(4), of conv] assms(3) by linarith
  show "\<forall>k. \<forall>u\<ge>zeroTime. token_bucket.level b tokens (newLimiters conv cfg) k u = refill r b (full b k) u"
  proof (intro allI impI)
    fix k u assume "zeroTime \<le> u"
    then have "0 \<le> r * of_int (u - zeroTime) / 1000000000" using token_bucket.rate_pos [OF assms(1)] by simp
    then show "token_bucket.level b tokens (newLimiters conv cfg) k u = refill r b (full b k) u"
      by (simp add: token_bucket.level_def [OF assms(1)] refill_def full_def del: of_int_diff)
  qed
qed


definition limit0 :: RateLimit where "limit0 = \<lparr>RPS = Finite 2, Burst = 0\<rparr>"
definition reqs0 :: "(time \<times> string) list" where
  "reqs0 = map (\<lambda>t. (t * Second, ''alice'')) [1, 1, 1, 1, 1, 2, 300, 300]"

lemma limit0_burst: "burst_of conv limit0 = 4"
  by (simp add: burst_of_def limit0_def go_int_def ceil_twice_def in_int64_def)

lemma reqs0_sorted: "sorted (zeroTime # map fst reqs0)"
  by (simp add: reqs0_def zeroTime_def)




text \<open>
  Without the assumption on the burst it does not: a bucket that needs longer than three minutes
  is dropped before it is full, and the next request starts with a full one.
\<close>

lemma dropped_bucket_comes_back_full:
  "allow_all (doc_rate (1/1000) 1) [(Second, ''a''), (300 * Second, ''a'')]
     (newLimiters (\<lambda>_. 0) \<lparr>RPS = Finite (1/1000), Burst = 1\<rparr>) = [True, True]
   \<and> ideal (1/1000) 1 (full 1) [(Second, ''a''), (300 * Second, ''a'')] = [True, False]"
  by code_simp

end
