(* ===== verification/Web.thy ===== *)
theory Web
  imports HttpApi
begin

text \<open>
  Package \<open>internal/server/web\<close>: the upload form, the gallery and their error pages. The
  templates are data of the program that \<open>html/template\<close> expands: what a page expands to is
  the parameter \<open>h_pages\<close>, \<open>None\<close> for a template that fails. How a date looks depends on the
  location the database driver gives a time, the parameter \<open>h_date\<close>.
\<close>

section \<open>Addresses\<close>

definition GalleryPath :: string where "GalleryPath = ''/web/gallery''"
definition UploadPath :: string where "UploadPath = ''/web/upload''"
definition StaticPath :: string where "StaticPath = ''/web/static''"
definition GalleryPattern :: string where "GalleryPattern = GalleryPath @ ''/{'' @ paramUserID @ ''}''"
definition apiAvatarsPath :: string where "apiAvatarsPath = ''/api/v1/avatars''"

text \<open>\<open>url.PathEscape\<close> and \<open>url.QueryEscape\<close>.\<close>

definition unreserved :: "char \<Rightarrow> bool" where
  "unreserved c = (let n = byte c in (48 \<le> n \<and> n \<le> 57) \<or> (65 \<le> n \<and> n \<le> 90) \<or> (97 \<le> n \<and> n \<le> 122)
     \<or> c \<in> set ''-_.~'')"

definition upperhex :: string where "upperhex = ''0123456789ABCDEF''"

definition percent :: "char \<Rightarrow> string" where
  "percent c = [CHR ''%'', upperhex ! (byte c div 16), upperhex ! (byte c mod 16)]"

definition PathEscape :: "string \<Rightarrow> string" where
  "PathEscape s = concat (map (\<lambda>c. if unreserved c \<or> c \<in> set ''$&+:=@'' then [c] else percent c) s)"

definition QueryEscape :: "string \<Rightarrow> string" where
  "QueryEscape s = concat (map (\<lambda>c. if unreserved c then [c] else if c = CHR '' '' then ''+'' else percent c) s)"

definition GalleryURL :: "string \<Rightarrow> string" where
  "GalleryURL userID = GalleryPath @ ''/'' @ PathEscape userID"

definition uploadURL :: "string \<Rightarrow> string" where
  "uploadURL userID =
     (if userID = '''' then UploadPath
      else UploadPath @ ''?'' @ QueryEscape paramUserID @ ''='' @ QueryEscape userID)"

definition staticURL :: "string \<Rightarrow> string" where
  "staticURL name = StaticPath @ ''/'' @ name"

section \<open>Sizes\<close>

definition kilobyte :: int where "kilobyte = 1024"
definition megabyte :: int where "megabyte = 1048576"

text \<open>
  \<open>float64(size)\<close> rounds to 53 significant bits, to even in the middle; the division by a
  power of two is exact; the printing with one digit rounds the exact value, to even in the middle.
\<close>

definition round_even :: "int \<Rightarrow> int \<Rightarrow> int" where
  "round_even n d =
     (let q = n div d; m = 2 * (n mod d)
      in if m < d then q else if d < m then q + 1 else if even q then q else q + 1)"

fun bitlen_nat :: "nat \<Rightarrow> nat" where
  "bitlen_nat n = (if n = 0 then 0 else Suc (bitlen_nat (n div 2)))"

declare bitlen_nat.simps [simp del]

definition float64_int :: "int \<Rightarrow> int" where
  "float64_int n = (let k = bitlen_nat (nat n) - 53 in round_even n (2 ^ k) * 2 ^ k)"

definition tenths :: "int \<Rightarrow> string" where
  "tenths n = itoa (n div 10) @ ''.'' @ itoa (n mod 10)"

definition humanSize :: "int \<Rightarrow> string" where
  "humanSize sz =
     (if sz \<ge> megabyte then tenths (round_even (10 * float64_int sz) megabyte) @ '' MB''
      else if sz \<ge> kilobyte then tenths (round_even (10 * float64_int sz) kilobyte) @ '' KB''
      else itoa sz @ '' B'')"

section \<open>Views\<close>

record uploadView =
  uv_UserID :: string
  uv_Fixed :: bool
  uv_Error :: string
  uv_MaxSize :: string

record avatarView =
  av_FileName :: string
  av_ThumbnailURL :: string
  av_OriginalURL :: string
  av_Size :: string
  av_Dimensions :: string
  av_CreatedAt :: string
  av_Status :: string
  av_IsCurrent :: bool

record galleryView =
  gv_UserID :: string
  gv_Avatars :: "avatarView list"

record errorView =
  ev_Status :: nat
  ev_Message :: string

datatype page = UploadPage uploadView | GalleryPage galleryView | FailurePage errorView

record 'w Handlers =
  h_Upload :: "UploadInput \<Rightarrow> 'w \<Rightarrow> (error + Avatar) \<times> 'w"
  h_ListByUser :: "string \<Rightarrow> 'w \<Rightarrow> (error + Avatar list) \<times> 'w"
  h_maxUpload :: int
  h_pages :: "page \<Rightarrow> string option"
  h_date :: "time \<Rightarrow> string"
  h_us :: "uuid \<Rightarrow> string"
  h_spill :: "nat \<Rightarrow> 'w \<Rightarrow> 'w"
  h_removeAll :: "nat \<Rightarrow> 'w \<Rightarrow> 'w"

definition newUploadView :: "'w Handlers \<Rightarrow> string \<Rightarrow> bool \<Rightarrow> string \<Rightarrow> uploadView" where
  "newUploadView h userID fixed failure =
     \<lparr>uv_UserID = userID, uv_Fixed = fixed, uv_Error = failure, uv_MaxSize = humanSize (h_maxUpload h)\<rparr>"

definition web_avatarURL :: "(uuid \<Rightarrow> string) \<Rightarrow> uuid \<Rightarrow> string" where
  "web_avatarURL us i = apiAvatarsPath @ ''/'' @ us i"

definition web_thumbnailURL :: "(uuid \<Rightarrow> string) \<Rightarrow> uuid \<Rightarrow> ThumbnailSize \<Rightarrow> string" where
  "web_thumbnailURL us i sz = web_avatarURL us i @ ''?'' @ paramSize @ ''='' @ sz"

definition statusText :: "ProcessingStatus \<Rightarrow> string" where
  "statusText s =
     (case s of
        ProcessingStatusCompleted \<Rightarrow> ''thumbnails ready''
      | ProcessingStatusFailed \<Rightarrow> ''processing failed''
      | _ \<Rightarrow> ''processing'')"

text \<open>The multiplication sign between the dimensions, in UTF-8.\<close>

definition times_sign :: string where "times_sign = map char_of [195, 151 :: nat]"

definition avatar_view :: "'w Handlers \<Rightarrow> nat \<Rightarrow> Avatar \<Rightarrow> avatarView" where
  "avatar_view h i av =
     \<lparr>av_FileName = FileName av, av_ThumbnailURL = web_thumbnailURL (h_us h) (ID av) ThumbnailSmall,
      av_OriginalURL = web_avatarURL (h_us h) (ID av), av_Size = humanSize (SizeBytes av),
      av_Dimensions = itoa (Width av) @ times_sign @ itoa (Height av), av_CreatedAt = h_date h (CreatedAt av),
      av_Status = statusText (AvProcessingStatus av), av_IsCurrent = (i = 0)\<rparr>"

definition newGalleryView :: "'w Handlers \<Rightarrow> string \<Rightarrow> Avatar list \<Rightarrow> galleryView" where
  "newGalleryView h userID avatars =
     \<lparr>gv_UserID = userID, gv_Avatars = map (\<lambda>(i, av). avatar_view h i av) (enumerate 0 avatars)\<rparr>"

section \<open>Answers\<close>

definition contentTypeHTML :: string where "contentTypeHTML = ''text/html; charset=utf-8''"
definition web_messageInternal :: string where "web_messageInternal = ''Something went wrong, please try again later.''"

definition describeError :: "'w Handlers \<Rightarrow> error \<Rightarrow> nat \<times> string" where
  "describeError h err =
     (if errors_Is err ErrTooLarge then (413, ''File is larger than '' @ humanSize (h_maxUpload h) @ ''.'')
      else if errors_Is err ErrUnsupportedFormat then (400, ''Unsupported file format. Upload a JPEG, PNG or WebP image.'')
      else if errors_Is err ErrImageTooBig then (400, ''Image has too many pixels.'')
      else if errors_Is err web_errMissingUserID then (400, ''Enter the user id.'')
      else if errors_Is err web_errUserIDTooLong then
        (400, ''User id must be at most '' @ decimal maxUserIDLen @ '' characters.'')
      else if errors_Is err web_errMissingFile then (400, ''Choose an image to upload.'')
      else if errors_Is err web_errFileNameTooLong then
        (400, ''File name must be at most '' @ decimal maxFileNameLen @ '' characters.'')
      else if errors_Is err web_errMalformedBody then (400, ''The form could not be read.'')
      else if errors_Is err ErrDeadlineExceeded then (504, ''The request took too long.'')
      else (500, web_messageInternal))"

text \<open>\<open>http.Error\<close> sets two headers of its own and removes \<open>Content-Length\<close>, which is not set here.\<close>

definition http_Error :: "string \<Rightarrow> nat \<Rightarrow> action list" where
  "http_Error msg status =
     [SetHeader headerContentType ''text/plain; charset=utf-8'', SetHeader ''X-Content-Type-Options'' ''nosniff'',
      WriteHeader status, Write (Plain (msg @ [CHR 0x0A]))]"

definition web_render :: "'w Handlers \<Rightarrow> nat \<Rightarrow> page \<Rightarrow> action list" where
  "web_render h status p =
     (case h_pages h p of
        None \<Rightarrow> http_Error web_messageInternal 500
      | Some text \<Rightarrow>
          [SetHeader headerContentType contentTypeHTML, WriteHeader status]
            @ (if text = '''' then [] else [Write (Page text)]))"

definition renderFailure :: "'w Handlers \<Rightarrow> error \<Rightarrow> action list" where
  "renderFailure h err =
     (let (status, message) = describeError h err
      in web_render h status (FailurePage \<lparr>ev_Status = status, ev_Message = message\<rparr>))"

text \<open>\<open>path.Clean\<close> of a rooted path, and \<open>http.Redirect\<close> of a POST to such a path without a query.\<close>

fun clean_segments :: "string list \<Rightarrow> string list \<Rightarrow> string list" where
  "clean_segments [] out = out"
| "clean_segments (s # ss) out =
     (if s = '''' \<or> s = ''.'' then clean_segments ss out
      else if s = ''..'' then clean_segments ss (butlast out)
      else clean_segments ss (out @ [s]))"

definition path_Clean :: "string \<Rightarrow> string" where
  "path_Clean p = ''/'' @ Join ''/'' (clean_segments (Split (CHR ''/'') p) [])"

definition Redirect :: "string \<Rightarrow> nat \<Rightarrow> action list" where
  "Redirect url code =
     (let clean = path_Clean url;
          clean = (if HasSuffix url ''/'' \<and> \<not> HasSuffix clean ''/'' then clean @ ''/'' else clean)
      in [SetHeader ''Location'' clean, WriteHeader code])"

section \<open>Handlers\<close>

definition trustedUserID :: "Request \<Rightarrow> string \<times> bool" where
  "trustedUserID r = (let userID = TrimSpace (rq_Header r headerUserID) in (userID, userID \<noteq> ''''))"

definition UploadForm :: "'w Handlers \<Rightarrow> 'w handler" where
  "UploadForm h r w =
     (let (userID, fixed) = trustedUserID r;
          userID = (if fixed then userID else rq_Query r paramUserID)
      in (Served, web_render h 200 (UploadPage (newUploadView h userID fixed '''')), w))"

text \<open>
  \<open>accept\<close>: the owner, and the error if there is one. The files of the form are removed on
  every path behind the parser.
\<close>

definition accept_file :: "'w Handlers \<Rightarrow> string \<Rightarrow> Form \<Rightarrow> 'w \<Rightarrow> (string \<times> error option) \<times> 'w" where
  "accept_file h userID f w =
     (case FormFile f fieldFile of
        Inl ErrMissingFile \<Rightarrow> ((userID, Some (Sentinel web_errMissingFile)), w)
      | Inl OpenFailed \<Rightarrow> ((userID, Some (wrapf (Sentinel web_errMalformedBody))), w)
      | Inr fh \<Rightarrow>
          if fh_Size fh > h_maxUpload h then ((userID, Some (wrapf (Sentinel ErrTooLarge))), w)
          else if length (fh_Filename fh) > maxFileNameLen then ((userID, Some (Sentinel web_errFileNameTooLong)), w)
          else (case h_Upload h \<lparr>u_UserID = userID, u_FileName = fh_Filename fh, u_Size = fh_Size fh,
                       u_File = fh_File fh\<rparr> w of
                  (Inl e, w) \<Rightarrow> ((userID, Some e), w)
                | (Inr _, w) \<Rightarrow> ((userID, None), w)))"

definition accept :: "'w Handlers \<Rightarrow> Request \<Rightarrow> 'w \<Rightarrow> (string \<times> error option) \<times> 'w" where
  "accept h r w =
     (case ParseMultipartForm r of
        Inl MaxBytesError \<Rightarrow> (('''', Some (wrapf (Sentinel ErrTooLarge))), w)
      | Inl MalformedForm \<Rightarrow> (('''', Some (wrapf (Sentinel web_errMalformedBody))), w)
      | Inr f \<Rightarrow>
          (let w = h_spill h (f_Temp f) w;
               (trusted, fixed) = trustedUserID r;
               userID = (if fixed then trusted else TrimSpace (f_Value f paramUserID));
               (res, w) =
                 (if userID = '''' then (('''', Some (Sentinel web_errMissingUserID)), w)
                  else if length userID > maxUserIDLen then ((userID, Some (Sentinel web_errUserIDTooLong)), w)
                  else accept_file h userID f w)
           in (res, h_removeAll h (f_Temp f) w)))"

definition web_Upload :: "'w Handlers \<Rightarrow> 'w handler" where
  "web_Upload h r w =
     (case accept h r w of
        ((userID, Some err), w) \<Rightarrow>
          (let (status, message) = describeError h err; (_, fixed) = trustedUserID r
           in (Served, web_render h status (UploadPage (newUploadView h userID fixed message)), w))
      | ((userID, None), w) \<Rightarrow> (Served, Redirect (GalleryURL userID) 303, w))"

definition Gallery :: "'w Handlers \<Rightarrow> 'w handler" where
  "Gallery h r w =
     (let userID = rq_Param r paramUserID
      in case h_ListByUser h userID w of
           (Inl e, w) \<Rightarrow> (Served, renderFailure h e, w)
         | (Inr avatars, w) \<Rightarrow> (Served, web_render h 200 (GalleryPage (newGalleryView h userID avatars)), w))"

definition staticMaxAge :: duration where "staticMaxAge = 5 * Minute"

definition cacheControl :: "duration \<Rightarrow> 'w handler \<Rightarrow> 'w handler" where
  "cacheControl maxAge next r w =
     (let (res, acts, w) = next r w
      in (res, SetHeader headerCacheControl (''max-age='' @ itoa (maxAge div Second)) # acts, w))"

section \<open>Links\<close>

text \<open>\<open>url.PathUnescape\<close>.\<close>

definition unhex :: "char \<Rightarrow> nat option" where
  "unhex c = (let n = byte c in
     if 48 \<le> n \<and> n \<le> 57 then Some (n - 48)
     else if 97 \<le> n \<and> n \<le> 102 then Some (n - 87)
     else if 65 \<le> n \<and> n \<le> 70 then Some (n - 55) else None)"

fun PathUnescape :: "string \<Rightarrow> string option" where
  "PathUnescape [] = Some []"
| "PathUnescape (c # s) =
     (if c = CHR ''%'' then
        (case s of
           a # b # t \<Rightarrow>
             (case (unhex a, unhex b) of
                (Some x, Some y) \<Rightarrow> map_option ((#) (char_of (16 * x + y))) (PathUnescape t)
              | _ \<Rightarrow> None)
         | _ \<Rightarrow> None)
      else map_option ((#) c) (PathUnescape s))"

lemma unhex_upperhex: "n < 16 \<Longrightarrow> unhex (upperhex ! n) = Some n"
proof -
  have "list_all (\<lambda>n. unhex (upperhex ! n) = Some n) [0..<16]" by code_simp
  then show "n < 16 \<Longrightarrow> unhex (upperhex ! n) = Some n" by (simp add: list_all_iff)
qed

lemma upperhex_plain: "n < 16 \<Longrightarrow> upperhex ! n \<noteq> CHR ''/'' \<and> upperhex ! n \<noteq> CHR ''.''"
proof -
  have "list_all (\<lambda>n. upperhex ! n \<noteq> CHR ''/'' \<and> upperhex ! n \<noteq> CHR ''.'') [0..<16]" by code_simp
  then show "n < 16 \<Longrightarrow> upperhex ! n \<noteq> CHR ''/'' \<and> upperhex ! n \<noteq> CHR ''.''" by (simp add: list_all_iff)
qed

lemma byte_less [simp]: "byte c < 256" by (simp add: byte_def)

lemma PathUnescape_percent: "PathUnescape (percent c @ s) = map_option ((#) c) (PathUnescape s)"
proof -
  have "byte c div 16 < 16" by (simp add: less_mult_imp_div_less)
  then show ?thesis by (simp add: percent_def unhex_upperhex) (simp add: byte_def)
qed

lemma PathUnescape_PathEscape [simp]: "PathUnescape (PathEscape s) = Some s"
proof (induction s)
  case (Cons c s)
  have "\<not> unreserved (CHR ''%'')" by code_simp
  with Cons show ?case by (auto simp: PathEscape_def PathUnescape_percent)
qed (simp add: PathEscape_def)

lemma no_slash: "CHR ''/'' \<notin> set (PathEscape s)"
proof -
  have "\<not> unreserved (CHR ''/'')" by code_simp
  moreover have "CHR ''/'' \<notin> set (percent c)" for c
    using upperhex_plain [of "byte c div 16"] upperhex_plain [of "byte c mod 16"]
    by (auto simp: percent_def less_mult_imp_div_less)
  ultimately show ?thesis by (auto simp: PathEscape_def)
qed

lemma PathEscape_dots: "PathEscape s = ''.'' \<longleftrightarrow> s = ''.''" "PathEscape s = ''..'' \<longleftrightarrow> s = ''..''" "PathEscape s = '''' \<longleftrightarrow> s = ''''"
proof -
  have dots: "PathEscape ''.'' = ''.''" "PathEscape ''..'' = ''..''" "PathEscape '''' = ''''" by code_simp+
  have inj: "PathEscape s = PathEscape t \<longleftrightarrow> s = t" for t using PathUnescape_PathEscape by (metis option.inject)
  show "PathEscape s = ''.'' \<longleftrightarrow> s = ''.''" "PathEscape s = ''..'' \<longleftrightarrow> s = ''..''" "PathEscape s = '''' \<longleftrightarrow> s = ''''"
    using inj [of "''.''"] inj [of "''..''"] inj [of "''''"] by (simp_all add: dots)
qed

lemma clean_gallery:
  assumes "CHR ''/'' \<notin> set seg" and "seg \<noteq> ''''"
  shows "path_Clean (GalleryPath @ ''/'' @ seg) =
    (if seg = ''.'' then GalleryPath else if seg = ''..'' then ''/web'' else GalleryPath @ ''/'' @ seg)"
  using assms by (simp add: path_Clean_def GalleryPath_def Split_single Join_def)

lemma Redirect_gallery:
  assumes "u \<noteq> ''''"
  shows "Redirect (GalleryURL u) 303 =
    [SetHeader ''Location'' (if u = ''.'' then GalleryPath else if u = ''..'' then ''/web'' else GalleryURL u), WriteHeader 303]"
proof -
  have e: "PathEscape u \<noteq> ''''" "CHR ''/'' \<notin> set (PathEscape u)" using assms no_slash by (simp_all add: PathEscape_dots)
  then have "\<not> HasSuffix (GalleryURL u) ''/''"
    by (cases "PathEscape u" rule: rev_cases) (auto simp: HasSuffix_def GalleryURL_def)
  with clean_gallery [OF e(2,1)] show ?thesis
    by (simp add: Redirect_def GalleryURL_def PathEscape_dots)
qed

section \<open>What reaches the service\<close>

lemma trusted_nonempty: "trustedUserID r = (u, fixed) \<Longrightarrow> fixed \<longleftrightarrow> u \<noteq> ''''"
  by (auto simp: trustedUserID_def Let_def)

lemma accept_guarded:
  assumes "trustedUserID r = (u, fixed)"
    and "\<And>inp w. input_ok (h_maxUpload h) inp \<Longrightarrow> (fixed \<Longrightarrow> u_UserID inp = u) \<Longrightarrow> U inp w = h_Upload h inp w"
  shows "accept (h\<lparr>h_Upload := U\<rparr>) r w = accept h r w"
proof -
  have "accept_file (h\<lparr>h_Upload := U\<rparr>) v f w = accept_file h v f w"
    if "v \<noteq> ''''" "length v \<le> maxUserIDLen" "fixed \<longrightarrow> v = u" for v f w
  proof -
    have "U \<lparr>u_UserID = v, u_FileName = fh_Filename fh, u_Size = fh_Size fh, u_File = fh_File fh\<rparr> w
        = h_Upload h \<lparr>u_UserID = v, u_FileName = fh_Filename fh, u_Size = fh_Size fh, u_File = fh_File fh\<rparr> w"
      if "\<not> fh_Size fh > h_maxUpload h" "\<not> length (fh_Filename fh) > maxFileNameLen" for fh
      using that \<open>v \<noteq> ''''\<close> \<open>length v \<le> maxUserIDLen\<close> \<open>fixed \<longrightarrow> v = u\<close>
      by (intro assms(2)) (auto simp: input_ok_def)
    note upl = this
    show ?thesis
    proof (cases "FormFile f fieldFile")
      case (Inr fh)
      show ?thesis
      proof (cases "fh_Size fh > h_maxUpload h \<or> length (fh_Filename fh) > maxFileNameLen")
        case True
        with Inr show ?thesis by (auto simp: accept_file_def)
      next
        case False
        with Inr upl [of fh] show ?thesis by (simp add: accept_file_def)
      qed
    qed (simp add: accept_file_def cong: file_error.case_cong)
  qed
  then show ?thesis
    by (auto simp: accept_def assms(1) Let_def split: sum.split parse_error.split)
qed

lemma views_guarded:
  "describeError (h\<lparr>h_Upload := U\<rparr>) = describeError h" "web_render (h\<lparr>h_Upload := U\<rparr>) = web_render h"
  "newUploadView (h\<lparr>h_Upload := U\<rparr>) = newUploadView h"
  by (intro ext; simp add: describeError_def web_render_def newUploadView_def cong: option.case_cong)+

lemma accept_owner:
  assumes "accept h r w = ((u, None), w')"
  shows "u \<noteq> ''''" and "fst (trustedUserID r) \<noteq> '''' \<Longrightarrow> u = fst (trustedUserID r)"
  using assms trusted_nonempty [of r]
  by (auto simp: accept_def accept_file_def Let_def split: sum.splits parse_error.splits file_error.splits if_splits prod.splits)

text \<open>
  Behind a gateway the form cannot choose an owner: whatever its fields say, the service is
  only asked to store the picture for the user of the header, and in any case only with an owner,
  a file name and a size within the limits. A service that would answer any other request
  differently cannot be told apart.
\<close>

theorem web_owner_is_gateways:
  assumes "trustedUserID r = (u, fixed)"
    and "\<And>inp w. input_ok (h_maxUpload h) inp \<Longrightarrow> (fixed \<Longrightarrow> u_UserID inp = u) \<Longrightarrow> U inp w = h_Upload h inp w"
  shows "web_Upload (h\<lparr>h_Upload := U\<rparr>) r w = web_Upload h r w"
proof -
  have "accept (h\<lparr>h_Upload := U\<rparr>) r w = accept h r w" using assms by (rule accept_guarded)
  then show ?thesis unfolding web_Upload_def views_guarded by (rule arg_cong)
qed

definition web0 :: "(string list) Handlers" where
  "web0 = \<lparr>h_Upload = (\<lambda>inp w. (Inr (avatar0 7), w @ [u_UserID inp])),
     h_ListByUser = (\<lambda>u w. (Inr [], w)), h_maxUpload = 10, h_pages = (\<lambda>_. Some ''page''), h_date = (\<lambda>_. ''today''),
     h_us = (\<lambda>_. ''seven''), h_spill = (\<lambda>n w. w), h_removeAll = (\<lambda>n w. w)\<rparr>"

definition form0 :: Form where
  "form0 = \<lparr>f_Value = (\<lambda>_. ''mallory''), f_File = (\<lambda>_. Some (Some \<lparr>fh_Filename = ''a.png'', fh_Size = 7, fh_File = png0\<rparr>)), f_Temp = 1\<rparr>"

definition posted0 :: Request where
  "posted0 = request0\<lparr>rq_Method := ''POST'', rq_Header := (\<lambda>k. if k = headerUserID then ''alice'' else ''''), rq_Form := Some form0\<rparr>"

lemma posted0_trusted: "trustedUserID posted0 = (''alice'', True)"
proof -
  have "TrimSpace ''alice'' = ''alice''"
    using TrimSpace_graphic [of "CHR ''a''" "CHR ''e''" "''lic''"] by (simp add: graphic_def byte_def)
  then show ?thesis by (simp add: trustedUserID_def posted0_def headerUserID_def)
qed

lemma posted0_accepted: "accept web0 posted0 w = ((''alice'', None), w @ [''alice''])"
  unfolding accept_def posted0_trusted
  by (simp add: ParseMultipartForm_def posted0_def request0_def form0_def accept_file_def FormFile_def web0_def
      maxUserIDLen_def maxFileNameLen_def Let_def)

theorem web_owner_is_gateways_witness:
  "web_Upload (web0\<lparr>h_Upload := (\<lambda>inp w. if u_UserID inp = ''alice'' then h_Upload web0 inp w else (Inl ErrText, w))\<rparr>)
     posted0 [] = web_Upload web0 posted0 [] \<and> snd (snd (web_Upload web0 posted0 [])) = [''alice'']"
proof
  show "web_Upload (web0\<lparr>h_Upload := (\<lambda>inp w. if u_UserID inp = ''alice'' then h_Upload web0 inp w else (Inl ErrText, w))\<rparr>)
     posted0 [] = web_Upload web0 posted0 []"
    by (rule web_owner_is_gateways [OF posted0_trusted]) simp
  show "snd (snd (web_Upload web0 posted0 [])) = [''alice'']" by (simp add: web_Upload_def posted0_accepted)
qed

text \<open>
  An upload through the form ends at the gallery of the owner: the answer is 303 to an
  address whose last segment decodes to the user the picture was stored for. Two names are the
  exception, as the redirection cleans the path: for the user \<open>.\<close> and the user \<open>..\<close> it leads
  to a path that is no gallery.
\<close>

theorem web_upload_redirects:
  assumes "accept h r w = ((u, None), w')" and "web_Upload h r w = (res, acts, w'')"
  shows "res = Served \<and> w'' = w' \<and> resp_status acts = 303
    \<and> (if u = ''.'' then resp_header acts ''Location'' = Some GalleryPath
       else if u = ''..'' then resp_header acts ''Location'' = Some ''/web''
       else \<exists>seg. resp_header acts ''Location'' = Some (GalleryPath @ ''/'' @ seg)
              \<and> CHR ''/'' \<notin> set seg \<and> PathUnescape seg = Some u)"
proof -
  have "u \<noteq> ''''" by (rule accept_owner [OF assms(1)])
  note R = Redirect_gallery [OF this]
  from assms have out: "res = Served" "w'' = w'" "acts = Redirect (GalleryURL u) 303" by (simp_all add: web_Upload_def)
  have "resp_status acts = 303" "resp_header acts ''Location'' =
      Some (if u = ''.'' then GalleryPath else if u = ''..'' then ''/web'' else GalleryURL u)"
    unfolding out(3) R by (simp_all add: resp_status_def resp_header_def respond_with_def conn0_def)
  with out show ?thesis using no_slash [of u] by (auto simp: GalleryURL_def)
qed

theorem web_upload_redirects_witness:
  "\<exists>res acts w. web_Upload web0 posted0 [] = (res, acts, w) \<and> resp_status acts = 303
     \<and> (\<exists>seg. resp_header acts ''Location'' = Some (GalleryPath @ ''/'' @ seg) \<and> PathUnescape seg = Some ''alice'')"
proof -
  obtain res acts w where run: "web_Upload web0 posted0 [] = (res, acts, w)" by (metis prod.collapse)
  from web_upload_redirects [OF posted0_accepted run] run show ?thesis by auto
qed

section \<open>Files on disk\<close>

definition disk_web :: "'v Handlers \<Rightarrow> (nat \<times> 'v) Handlers" where
  "disk_web h =
     \<lparr>h_Upload = (\<lambda>i. on_disk (h_Upload h i)), h_ListByUser = (\<lambda>u. on_disk (h_ListByUser h u)),
      h_maxUpload = h_maxUpload h, h_pages = h_pages h, h_date = h_date h, h_us = h_us h,
      h_spill = (\<lambda>n (t, v). (t + n, v)), h_removeAll = (\<lambda>n (t, v). (t - n, v))\<rparr>"

lemma accept_file_disk: "accept_file (disk_web h) u f (t, v) = (q, t', v') \<Longrightarrow> t' = t"
  by (auto simp: accept_file_def disk_web_def on_disk_def split: sum.splits file_error.splits if_splits prod.splits)

text \<open>The form leaves no file on disk, whatever the outcome.\<close>

theorem web_upload_no_files_left: "fst (snd (snd (web_Upload (disk_web h) r (t, v)))) = t"
proof -
  have ops: "h_spill (disk_web h) n (m, x) = (m + n, x)" "h_removeAll (disk_web h) n (m, x) = (m - n, x)" for n m x
    by (simp_all add: disk_web_def)
  have "fst (snd (accept (disk_web h) r (t, v))) = t"
    by (auto simp: accept_def Let_def ops dest: accept_file_disk split: sum.split parse_error.split prod.split)
  then show ?thesis
    by (auto simp: web_Upload_def Let_def split: prod.split option.split)
qed

section \<open>Statuses of the pages and of the API\<close>

text \<open>
  The pages and the API agree on a failure of the service, except for two kinds that only
  the API knows: what the API answers with 503, an open breaker, or with 409, a state changed by
  someone else, is an internal error on the pages.
\<close>

theorem web_status_agrees:
  assumes "\<not> errors_Is e ErrNotFound" "\<not> errors_Is e ErrForbidden" "\<not> errors_Is e ErrUnsupportedSize"
    and "\<forall>s\<in>{errMissingUserID, errInvalidAvatarID, errMissingFile, errMalformedBody, errUserIDTooLong, errFileNameTooLong}. \<not> errors_Is e s"
    and "\<forall>s\<in>{web_errMissingUserID, web_errMissingFile, web_errMalformedBody, web_errUserIDTooLong, web_errFileNameTooLong}. \<not> errors_Is e s"
  shows "fst (describeError h e) = (if fst (http_mapError m e) \<in> {409, 503} \<and> \<not> errors_Is e ErrDeadlineExceeded then 500
      else if fst (http_mapError m e) \<in> {409, 503} then 504 else fst (http_mapError m e))"
  using assms by (simp add: describeError_def http_mapError_def er_def)

theorem web_status_agrees_witness:
  "describeError web0 (wrapf (Sentinel ErrUnavailable)) = (500, web_messageInternal)
   \<and> fst (http_mapError 10 (wrapf (Sentinel ErrUnavailable))) = 503"
proof -
  have "fst (http_mapError 10 (wrapf (Sentinel ErrUnavailable))) = 503" by code_simp
  moreover from this web_status_agrees [of "wrapf (Sentinel ErrUnavailable)" web0 10]
  have "fst (describeError web0 (wrapf (Sentinel ErrUnavailable))) = 500" by simp
  moreover have "snd (describeError web0 (wrapf (Sentinel ErrUnavailable))) = web_messageInternal" by code_simp
  ultimately show ?thesis by (simp add: prod_eq_iff)
qed

end
