(* ===== verification/HttpServer.thy ===== *)
theory HttpServer
  imports RateLimiter Web
begin

text \<open>
  The router of package \<open>internal/server/http\<close> (\<open>http.go\<close>): which middleware stands before
  which handler. \<open>New\<close> gives the table of the routes as chi gets it. How chi finds a route in a
  table is the parameter \<open>srch\<close> of \<open>ServeHTTP\<close>, with the locale \<open>chi_tree\<close> for what the program
  relies on: the stack of \<open>Use\<close> runs before the search, a group's stack around its endpoints,
  and a mounted router gets the rest of the path.
\<close>

section \<open>Tables of routes\<close>

type_synonym 'w mid = "'w handler \<Rightarrow> 'w handler"

record 'w endpoint =
  e_Method :: "string option"
  e_Pattern :: string
  e_Mount :: bool
  e_Mids :: "'w mid list"
  e_Handler :: "'w handler"

datatype 'w entry = Endpoint "'w endpoint" | Sub string "'w mid list" "'w endpoint list"

record 'w mux =
  mx_Use :: "'w mid list"
  mx_Entries :: "'w entry list"

definition chain :: "'w mid list \<Rightarrow> 'w handler \<Rightarrow> 'w handler" where
  "chain mids h = foldr (\<lambda>m h. m h) mids h"

definition get :: "string \<Rightarrow> 'w mid list \<Rightarrow> 'w handler \<Rightarrow> 'w endpoint" where
  "get p mids h = \<lparr>e_Method = Some ''GET'', e_Pattern = p, e_Mount = False, e_Mids = mids, e_Handler = h\<rparr>"

definition post :: "string \<Rightarrow> 'w mid list \<Rightarrow> 'w handler \<Rightarrow> 'w endpoint" where
  "post p mids h = \<lparr>e_Method = Some ''POST'', e_Pattern = p, e_Mount = False, e_Mids = mids, e_Handler = h\<rparr>"

definition delete :: "string \<Rightarrow> 'w mid list \<Rightarrow> 'w handler \<Rightarrow> 'w endpoint" where
  "delete p mids h = \<lparr>e_Method = Some ''DELETE'', e_Pattern = p, e_Mount = False, e_Mids = mids, e_Handler = h\<rparr>"

definition mount :: "string \<Rightarrow> 'w mid list \<Rightarrow> 'w handler \<Rightarrow> 'w endpoint" where
  "mount p mids h = \<lparr>e_Method = None, e_Pattern = p, e_Mount = True, e_Mids = mids, e_Handler = h\<rparr>"

section \<open>The router\<close>

text \<open>
  \<open>dp_allow\<close> is \<open>allow\<close> of the limiters the process made, which are part of its world.
  \<open>dp_otel\<close> is \<open>otelhttp.NewHandler\<close> with a filter, \<open>dp_SetName\<close> what the renaming does to the
  span, \<open>dp_pattern\<close> the pattern chi has recorded, \<open>dp_static\<close> what \<open>Static\<close> of the pages gives.
\<close>

record 'w Deps =
  dp_api :: "'w api"
  dp_HTTP :: HTTP
  dp_RateLimit :: RateLimit
  dp_allow :: "string \<Rightarrow> 'w \<Rightarrow> (bool \<times> int) \<times> 'w"
  dp_Web :: "'w Handlers option"
  dp_static :: "'w handler"
  dp_Tracing :: bool
  dp_otel :: "(string \<Rightarrow> bool) \<Rightarrow> 'w mid"
  dp_SetName :: "string \<Rightarrow> string \<Rightarrow> 'w \<Rightarrow> 'w"
  dp_pattern :: "Request \<Rightarrow> string"
  dp_Metrics :: "(string \<Rightarrow> string \<Rightarrow> nat \<Rightarrow> 'w \<Rightarrow> 'w) option"
  dp_MetricsHandler :: "'w handler option"
  dp_Log :: "int \<Rightarrow> string \<Rightarrow> nat \<Rightarrow> 'w \<Rightarrow> 'w"
  dp_NewString :: "'w \<Rightarrow> string \<times> 'w"

definition renaming :: "'w Deps \<Rightarrow> 'w mid" where
  "renaming d next r w =
     (case next r w of
        (Served, acts, w) \<Rightarrow>
          (Served, acts,
           if dp_pattern d r \<noteq> '''' then dp_SetName d (normalizeMethod (rq_Method r) @ '' '' @ dp_pattern d r) (dp_pattern d r) w
           else w)
      | out \<Rightarrow> out)"

definition tracing :: "'w Deps \<Rightarrow> 'w mid" where
  "tracing d next = dp_otel d (\<lambda>p. \<not> servicePath p) (renaming d next)"

definition uploading :: "'w Deps \<Rightarrow> 'w mid list" where
  "uploading d =
     [maxBytes (a_maxUpload (dp_api d) + multipartOverheadBytes),
      timeout (ReadTimeout (dp_HTTP d)),
      extendWriteDeadline (ReadTimeout (dp_HTTP d) + WriteTimeout (dp_HTTP d))]"

text \<open>\<open>http.StripPrefix\<close>, on the decoded path.\<close>

definition StripPrefix :: "string \<Rightarrow> 'w mid" where
  "StripPrefix p next r w =
     (if p = '''' then next r w
      else if HasPrefix (rq_Path r) p then next (r\<lparr>rq_Path := TrimPrefix (rq_Path r) p\<rparr>) w
      else (Served, http_Error ''404 page not found'' 404, w))"

definition mountWeb :: "'w Deps \<Rightarrow> 'w Handlers \<Rightarrow> 'w mid list \<Rightarrow> 'w entry list" where
  "mountWeb d h limit =
     (let pages = limit @ [timeout (RequestTimeout (dp_HTTP d))]; form = limit @ uploading d
      in map Endpoint
           [get UploadPath pages (UploadForm h),
            get GalleryPattern pages (Gallery h),
            mount StaticPath pages (StripPrefix StaticPath (dp_static d)),
            post UploadPath form (web_Upload h)])"

definition limit_of :: "'w Deps \<Rightarrow> 'w mid list" where
  "limit_of d = (if f_lt (Finite 0) (RPS (dp_RateLimit d)) then [rateLimiting (dp_allow d)] else [])"

definition New :: "'w Deps \<Rightarrow> 'w mux" where
  "New d =
     (let a = dp_api d; limit = limit_of d; t = [timeout (RequestTimeout (dp_HTTP d))]
      in \<lparr>mx_Use =
            (if dp_Tracing d then [tracing d] else [])
            @ (case dp_Metrics d of None \<Rightarrow> [] | Some Observe \<Rightarrow> [measuring Observe (dp_pattern d)])
            @ [requestID (dp_NewString d), logging (dp_Log d), recovering],
          mx_Entries =
            [Endpoint (get healthPath [] (health a)), Endpoint (get livenessPath [] liveness)]
            @ (case dp_MetricsHandler d of None \<Rightarrow> [] | Some h \<Rightarrow> [Endpoint (get metricsPath [] h)])
            @ [Sub apiPrefix limit
                 [post ''/avatars'' (uploading d) (http_upload a),
                  get (''/avatars/{'' @ paramAvatarID @ ''}'') t (avatarContent a),
                  get (''/avatars/{'' @ paramAvatarID @ ''}/metadata'') t (avatarMetadata a),
                  delete (''/avatars/{'' @ paramAvatarID @ ''}'') t (deleteAvatar a),
                  get (''/users/{'' @ paramUserID @ ''}/avatar'') t (userAvatarContent a),
                  get (''/users/{'' @ paramUserID @ ''}/avatars'') t (userAvatars a),
                  delete (''/users/{'' @ paramUserID @ ''}/avatar'') t (deleteUserAvatar a)]]
            @ (case dp_Web d of None \<Rightarrow> [] | Some h \<Rightarrow> mountWeb d h limit)\<rparr>)"

section \<open>Serving\<close>

type_synonym shape = "string option \<times> string \<times> bool"

datatype found = Found nat "string \<Rightarrow> string" | MethodNotAllowed | NotFound

type_synonym search = "shape list \<Rightarrow> string \<Rightarrow> string \<Rightarrow> found"

definition ep_shape :: "'w endpoint \<Rightarrow> shape" where
  "ep_shape e = (e_Method e, e_Pattern e, e_Mount e)"

definition shape_of :: "'w entry \<Rightarrow> shape" where
  "shape_of e = (case e of Endpoint ep \<Rightarrow> ep_shape ep | Sub p _ _ \<Rightarrow> (None, p, True))"

definition not_found :: "action list" where
  "not_found = http_Error ''404 page not found'' 404"

definition not_allowed :: "action list" where
  "not_allowed = [WriteHeader 405]"

definition call :: "'w endpoint \<Rightarrow> (string \<Rightarrow> string) \<Rightarrow> 'w handler" where
  "call e ps r w = chain (e_Mids e) (e_Handler e) (r\<lparr>rq_Param := ps\<rparr>) w"

definition sub_route :: "search \<Rightarrow> 'w endpoint list \<Rightarrow> string \<Rightarrow> 'w handler" where
  "sub_route srch es path r w =
     (case srch (map ep_shape es) (rq_Method r) path of
        Found i ps \<Rightarrow> call (es ! i) ps r w
      | MethodNotAllowed \<Rightarrow> (Served, not_allowed, w)
      | NotFound \<Rightarrow> (Served, not_found, w))"

definition rest_of :: "string \<Rightarrow> string \<Rightarrow> string" where
  "rest_of prefix path = (if path = prefix then ''/'' else drop (length prefix) path)"

definition route :: "search \<Rightarrow> 'w entry list \<Rightarrow> 'w handler" where
  "route srch es r w =
     (case srch (map shape_of es) (rq_Method r) (rq_Path r) of
        Found i ps \<Rightarrow>
          (case es ! i of
             Endpoint e \<Rightarrow> call e ps r w
           | Sub p mids sub \<Rightarrow> chain mids (sub_route srch sub (rest_of p (rq_Path r))) r w)
      | MethodNotAllowed \<Rightarrow> (Served, not_allowed, w)
      | NotFound \<Rightarrow> (Served, not_found, w))"

definition ServeHTTP :: "search \<Rightarrow> 'w mux \<Rightarrow> 'w handler" where
  "ServeHTTP srch m = chain (mx_Use m) (route srch (mx_Entries m))"

section \<open>What is relied on\<close>

text \<open>
  A shape that can match, and one that does for certain: a pattern without parameters is matched
  by its text, one with parameters at least by the text in front of the first, a mount by
  everything below it.
\<close>

definition method_fits :: "string option \<Rightarrow> string \<Rightarrow> bool" where
  "method_fits m method = (m = None \<or> m = Some method)"

definition under :: "string \<Rightarrow> string \<Rightarrow> bool" where
  "under p path = (path = p \<or> HasPrefix path (p @ ''/''))"

fun may_match :: "shape \<Rightarrow> string \<Rightarrow> string \<Rightarrow> bool" where
  "may_match (m, p, mnt) method path =
     (method_fits m method \<and>
      (if mnt then under p path
       else if CHR ''{'' \<in> set p then HasPrefix path (takeWhile (\<lambda>c. c \<noteq> CHR ''{'') p)
       else path = p))"

fun must_match :: "shape \<Rightarrow> string \<Rightarrow> string \<Rightarrow> bool" where
  "must_match (m, p, mnt) method path =
     (method_fits m method \<and> (if mnt then under p path else CHR ''{'' \<notin> set p \<and> path = p))"

locale chi_tree =
  fixes srch :: search
  assumes find_sound: "srch ss method path = Found i ps \<Longrightarrow> i < length ss \<and> may_match (ss ! i) method path"
    and find_complete: "\<exists>s\<in>set ss. must_match s method path \<Longrightarrow> \<exists>i ps. srch ss method path = Found i ps"

section \<open>A search\<close>

text \<open>The first pattern of the table that matches, on patterns of literal text and whole segments.\<close>

function pmatch :: "string \<Rightarrow> string \<Rightarrow> (string \<times> string) list option" where
  "pmatch [] s = (if s = [] then Some [] else None)"
| "pmatch (c # p) s =
     (if c = CHR ''{'' then
        (let name = takeWhile (\<lambda>c. c \<noteq> CHR ''}'') p; v = takeWhile (\<lambda>c. c \<noteq> CHR ''/'') s
         in map_option ((#) (name, v)) (pmatch (drop (Suc (length name)) p) (drop (length v) s)))
      else case s of [] \<Rightarrow> None | c' # s \<Rightarrow> if c = c' then pmatch p s else None)"
  by pat_completeness auto

termination by (relation "measure (\<lambda>(p, _). length p)") auto

fun fits :: "string \<Rightarrow> string \<Rightarrow> shape \<Rightarrow> (string \<Rightarrow> string) option" where
  "fits method path (m, p, mnt) =
     (if \<not> method_fits m method then None
      else if mnt then (if under p path then Some (\<lambda>_. '''') else None)
      else map_option (\<lambda>ps k. case map_of ps k of None \<Rightarrow> '''' | Some v \<Rightarrow> v) (pmatch p path))"

fun find_first :: "nat \<Rightarrow> search" where
  "find_first n [] method path = NotFound"
| "find_first n (s # ss) method path =
     (case fits method path s of Some ps \<Rightarrow> Found n ps | None \<Rightarrow> find_first (Suc n) ss method path)"

lemma pmatch_prefix: "pmatch p s = Some ps \<Longrightarrow> HasPrefix s (takeWhile (\<lambda>c. c \<noteq> CHR ''{'') p)"
proof (induction p s arbitrary: ps rule: pmatch.induct)
  case (2 c p s)
  then show ?case by (auto simp: HasPrefix_def split: if_splits list.splits)
qed (simp add: HasPrefix_def)

lemma pmatch_literal: "CHR ''{'' \<notin> set p \<Longrightarrow> pmatch p s = (if s = p then Some [] else None)"
proof (induction p arbitrary: s)
  case (Cons c p)
  then show ?case by (cases s) auto
qed simp

lemma fits_may: "fits method path s = Some ps \<Longrightarrow> may_match s method path"
  by (cases s) (auto simp: pmatch_literal dest: pmatch_prefix split: if_splits)

lemma must_fits: "must_match s method path \<Longrightarrow> fits method path s \<noteq> None"
  by (cases s) (auto simp: pmatch_literal split: if_splits)

lemma find_first_sound:
  "find_first n ss method path = Found i ps \<Longrightarrow> n \<le> i \<and> i - n < length ss \<and> may_match (ss ! (i - n)) method path"
proof (induction ss arbitrary: n)
  case (Cons s ss)
  show ?case
  proof (cases "fits method path s")
    case None
    with Cons.IH [of "Suc n"] Cons.prems show ?thesis by (auto simp: nth_Cons' less_Suc_eq_le Suc_le_eq diff_diff_left [symmetric])
  next
    case (Some q)
    with Cons.prems show ?thesis by (auto dest: fits_may)
  qed
qed simp

lemma find_first_complete: "\<exists>s\<in>set ss. must_match s method path \<Longrightarrow> \<exists>i ps. find_first n ss method path = Found i ps"
  by (induction ss arbitrary: n) (auto dest: must_fits split: option.splits)

interpretation first_match: chi_tree "find_first 0"
  using find_first_sound [of 0] find_first_complete [of _ _ _ 0] by unfold_locales fastforce+

section \<open>The outer stack\<close>

lemma status_fold:
  assumes "cn_Sent c = None"
  shows "fst (the (cn_Sent (send_header 200 (fold conn_step acts c)))) =
    (case List.find starts acts of Some (WriteHeader s) \<Rightarrow> s | _ \<Rightarrow> 200)"
  using assms
proof (induction acts arbitrary: c)
  case (Cons a acts)
  show ?case
  proof (cases a)
    case (SetHeader k v)
    with Cons.IH [of "c\<lparr>cn_Header := (cn_Header c)(k \<mapsto> v)\<rparr>"] Cons.prems show ?thesis by simp
  next
    case (WriteHeader s)
    with Cons.prems sent_stays [of "send_header s c" "(s, cn_Header c)" acts] show ?thesis by simp
  next
    case (Write b)
    with Cons.prems sent_stays [of "conn_step a c" "(200, cn_Header c)" acts] show ?thesis by simp
  qed
qed simp

lemma resp_status_find: "resp_status acts = (case List.find starts acts of Some (WriteHeader s) \<Rightarrow> s | _ \<Rightarrow> 200)"
  unfolding resp_status_def respond_with_def by (rule status_fold) (simp add: conn0_def)

lemma find_not_started: "\<not> list_ex starts acts \<Longrightarrow> List.find starts (acts @ bs) = List.find starts bs"
  by (induction acts) auto

lemma resp_status_SetHeader [simp]: "resp_status (SetHeader k v # acts) = resp_status acts"
  by (simp add: resp_status_find)

lemma resp_status_appended: "\<not> list_ex starts acts \<Longrightarrow> resp_status (acts @ writeJSON s b) = s"
  by (simp add: resp_status_find find_not_started writeJSON_def)

definition sets :: "string \<Rightarrow> action \<Rightarrow> bool" where
  "sets k a = (case a of SetHeader k' _ \<Rightarrow> k' = k | _ \<Rightarrow> False)"

lemma header_stays:
  assumes "list_all (\<lambda>a. \<not> sets k a) acts" and "cn_Header c k = v"
    and "\<forall>s h. cn_Sent c = Some (s, h) \<longrightarrow> h k = v"
  shows "snd (the (cn_Sent (send_header 200 (fold conn_step acts c)))) k = v"
  using assms
proof (induction acts arbitrary: c)
  case Nil
  then show ?case by (auto split: option.split)
next
  case (Cons a acts)
  have "cn_Header (conn_step a c) k = v" "\<forall>s h. cn_Sent (conn_step a c) = Some (s, h) \<longrightarrow> h k = v"
    using Cons.prems by (cases a; auto simp: sets_def split: option.splits)+
  with Cons.IH [of "conn_step a c"] Cons.prems(1) show ?case by simp
qed

lemma resp_header_set: "list_all (\<lambda>a. \<not> sets k a) acts \<Longrightarrow> resp_header (SetHeader k v # acts) k = Some v"
  unfolding resp_header_def respond_with_def fold_simps(2) by (rule header_stays) (simp_all add: conn0_def)

lemma rec_fold_subset: "set (snd (fold rec_step acts (rc, out))) \<subseteq> set out \<union> set acts"
proof (induction acts arbitrary: rc out)
  case (Cons a acts)
  have "set (snd (rec_step a (rc, out))) \<subseteq> set out \<union> {a}" by (cases a) auto
  moreover obtain rc' out' where "rec_step a (rc, out) = (rc', out')" by fastforce
  ultimately show ?case using Cons.IH [of rc' out'] by auto
qed simp

lemma rec_run_subset: "set (snd (rec_run acts)) \<subseteq> set acts"
  using rec_fold_subset [of acts recorder0 "[]"] by (simp add: rec_run_def)

lemma rec_run_resp:
  assumes "rec_run acts = (rc, out)"
  shows "resp_status out = resp_status acts" "resp_header out = resp_header acts" "rec_status rc = resp_status acts"
    "set out \<subseteq> set acts"
  using rec_run_transparent [of acts] rec_run_subset [of acts] assms
  by (auto simp: resp_status_def resp_header_def fun_eq_iff)

lemma recovering_out:
  assumes "next r w = (rres, racts, w1)" and "recovering next r w = (res, acts, w')"
  shows "w' = w1" "res = (if rres = Panic True then Panic True else Served)"
    and "res = Served \<Longrightarrow> resp_status acts = (if rres = Panic False \<and> \<not> list_ex starts racts then 500 else resp_status racts)"
    and "list_all (\<lambda>a. \<not> sets headerRequestID a) racts \<Longrightarrow> list_all (\<lambda>a. \<not> sets headerRequestID a) acts"
  using assms
  by (auto simp: recovering_def headerWritten_iff resp_status_appended list_all_append
      split: hresult.splits bool.splits if_splits)
    (simp add: writeJSON_def sets_def headerContentType_def headerRequestID_def)

lemma logging_out:
  assumes "next r w = (rres, racts, w1)" and "logging Log next r w = (res, acts, w')"
  shows "res = rres" "resp_status acts = resp_status racts" "set acts \<subseteq> set racts"
    and "res = Served \<Longrightarrow> w' = Log (log_level (rq_Path r) (resp_status racts)) (rq_Path r) (resp_status racts) w1"
  using assms by (auto simp: logging_def Let_def dest: rec_run_resp split: hresult.splits prod.splits)

definition measured :: "'w Deps \<Rightarrow> Request \<Rightarrow> nat \<Rightarrow> 'w \<Rightarrow> 'w" where
  "measured d r s w =
     (case dp_Metrics d of
        Some Observe \<Rightarrow>
          if servicePath (rq_Path r) then w
          else Observe (normalizeMethod (rq_Method r)) (if dp_pattern d r = '''' then routeUnmatched else dp_pattern d r) s w
      | None \<Rightarrow> w)"

definition maybe_measuring :: "'w Deps \<Rightarrow> 'w mid" where
  "maybe_measuring d next = (case dp_Metrics d of None \<Rightarrow> next | Some Observe \<Rightarrow> measuring Observe (dp_pattern d) next)"

lemma measuring_out:
  assumes "next r w = (rres, racts, w1)" and "maybe_measuring d next r w = (res, acts, w')"
  shows "res = rres" "resp_status acts = resp_status racts" "resp_header acts = resp_header racts"
    and "res = Served \<Longrightarrow> w' = measured d r (resp_status racts) w1"
  using assms
  by (auto simp: maybe_measuring_def measured_def measuring_def Let_def
      dest: rec_run_resp split: hresult.splits prod.splits option.splits if_splits)

text \<open>\<open>otelhttp\<close> looks on: a request the filter lets through is bracketed by a span, every other is passed on.\<close>

definition observes_only ::
  "((string \<Rightarrow> bool) \<Rightarrow> 'w mid) \<Rightarrow> (Request \<Rightarrow> 'w \<Rightarrow> 'w) \<Rightarrow> (Request \<Rightarrow> 'w \<Rightarrow> 'w) \<Rightarrow> bool" where
  "observes_only otel start finish \<longleftrightarrow> (\<forall>f h r w.
     otel f h r w = (if f (rq_Path r) then (let (res, acts, w) = h r (start r w) in (res, acts, finish r w)) else h r w))"

definition maybe_tracing :: "'w Deps \<Rightarrow> 'w mid" where
  "maybe_tracing d next = (if dp_Tracing d then tracing d next else next)"

definition traced :: "'w Deps \<Rightarrow> (Request \<Rightarrow> 'w \<Rightarrow> 'w) \<Rightarrow> Request \<Rightarrow> 'w \<Rightarrow> 'w" where
  "traced d finish r w =
     (if \<not> dp_Tracing d then w
      else let w = (if dp_pattern d r \<noteq> [] then
                      dp_SetName d (normalizeMethod (rq_Method r) @ '' '' @ dp_pattern d r) (dp_pattern d r) w else w)
           in if servicePath (rq_Path r) then w else finish r w)"

definition span_start :: "'w Deps \<Rightarrow> (Request \<Rightarrow> 'w \<Rightarrow> 'w) \<Rightarrow> Request \<Rightarrow> 'w \<Rightarrow> 'w" where
  "span_start d start r w = (if dp_Tracing d \<and> \<not> servicePath (rq_Path r) then start r w else w)"

lemma tracing_out:
  assumes "observes_only (dp_otel d) start finish" and "maybe_tracing d next r w = (res, acts, w')"
  shows "\<exists>w1. next r (span_start d start r w) = (res, acts, w1) \<and> (res = Served \<longrightarrow> w' = traced d finish r w1)"
proof -
  have otel: "dp_otel d f h r w =
      (if f (rq_Path r) then (let (res, acts, w) = h r (start r w) in (res, acts, finish r w)) else h r w)" for f h r w
    using assms(1) unfolding observes_only_def by blast
  obtain nres nacts w1 where n: "next r (span_start d start r w) = (nres, nacts, w1)" by (metis prod.collapse)
  show ?thesis
    using assms(2) n
    by (auto simp: maybe_tracing_def tracing_def otel renaming_def span_start_def traced_def Let_def
        split: if_splits prod.splits hresult.splits)
qed

lemma ServeHTTP_stack:
  "ServeHTTP srch (New d) = maybe_tracing d (maybe_measuring d (requestID (dp_NewString d)
     (logging (dp_Log d) (recovering (route srch (mx_Entries (New d)))))))"
  by (simp add: ServeHTTP_def chain_def New_def Let_def maybe_tracing_def maybe_measuring_def split: option.split)

text \<open>
  (C23) Every request is answered and observed as it is answered. Whatever the routes do, short
  of aborting the connection on purpose: a panic ends in a 500 unless the answer had begun, and
  otherwise the status that is sent is the one of the handler; the answer carries the request's
  identifier, which is the client's own if that was valid; and the status in the log line and in the
  metrics is the status that was sent. Service paths are not measured.
\<close>

theorem server_answers:
  assumes "observes_only (dp_otel d) start finish" and "ServeHTTP srch (New d) r w = (res, acts, w')"
  shows "\<exists>i w0 rres racts w1.
      (i, w0) = (if validRequestID (rq_Header r headerRequestID) then (rq_Header r headerRequestID, span_start d start r w)
                 else dp_NewString d (span_start d start r w))
    \<and> route srch (mx_Entries (New d)) (r\<lparr>rq_RequestID := i\<rparr>) w0 = (rres, racts, w1)
    \<and> res = (if rres = Panic True then Panic True else Served)
    \<and> (list_all (\<lambda>a. \<not> sets headerRequestID a) racts \<longrightarrow> resp_header acts headerRequestID = Some i)
    \<and> (res = Served \<longrightarrow>
         resp_status acts = (if rres = Panic False \<and> \<not> list_ex starts racts then 500 else resp_status racts)
       \<and> w' = traced d finish r (measured d r (resp_status acts)
                (dp_Log d (log_level (rq_Path r) (resp_status acts)) (rq_Path r) (resp_status acts) w1)))"
proof -
  let ?route = "route srch (mx_Entries (New d))"
  define wa where "wa = span_start d start r w"
  obtain wb where a: "maybe_measuring d (requestID (dp_NewString d) (logging (dp_Log d) (recovering ?route))) r wa = (res, acts, wb)"
      "res = Served \<longrightarrow> w' = traced d finish r wb"
    using tracing_out [OF assms(1) assms(2) [unfolded ServeHTTP_stack]] unfolding wa_def by blast
  obtain bres bacts wc where b: "requestID (dp_NewString d) (logging (dp_Log d) (recovering ?route)) r wa = (bres, bacts, wc)"
    by (metis prod.collapse)
  obtain i wd where i: "(if validRequestID (rq_Header r headerRequestID) then (rq_Header r headerRequestID, wa) else dp_NewString d wa) = (i, wd)"
    by (metis prod.collapse)
  obtain cres cacts we where c: "logging (dp_Log d) (recovering ?route) (r\<lparr>rq_RequestID := i\<rparr>) wd = (cres, cacts, we)"
    by (metis prod.collapse)
  obtain eres eacts wf where e: "recovering ?route (r\<lparr>rq_RequestID := i\<rparr>) wd = (eres, eacts, wf)" by (metis prod.collapse)
  obtain rres racts w1 where n: "?route (r\<lparr>rq_RequestID := i\<rparr>) wd = (rres, racts, w1)" by (metis prod.collapse)
  from b c i have b': "bres = cres" "bacts = SetHeader headerRequestID i # cacts" "wc = we"
    by (auto simp: requestID_def Let_def split: prod.splits if_splits)
  note M = measuring_out [OF b a(1)] and L = logging_out [OF e c] and R = recovering_out [OF n e]
  have res: "res = (if rres = Panic True then Panic True else Served)" using M(1) b'(1) L(1) R(2) by simp
  have status: "resp_status acts = (if rres = Panic False \<and> \<not> list_ex starts racts then 500 else resp_status racts)" if "res = Served"
    using M(1,2) b' L(1,2) R(2,3) that by simp
  have header: "resp_header acts headerRequestID = Some i" if "list_all (\<lambda>a. \<not> sets headerRequestID a) racts"
  proof -
    have "list_all (\<lambda>a. \<not> sets headerRequestID a) cacts" using R(4) [OF that] L(3) by (auto simp: list_all_iff)
    then show ?thesis using resp_header_set by (simp add: M(3) b'(2))
  qed
  have "w' = traced d finish r (measured d r (resp_status acts)
      (dp_Log d (log_level (rq_Path r) (resp_status acts)) (rq_Path r) (resp_status acts) w1))" if "res = Served"
    using a(2) M(1,2,4) b' L(1,2,4) R(1) that by simp
  with i [symmetric] n res status header show ?thesis unfolding wa_def by blast
qed

section \<open>The limiter in front\<close>

definition guarded :: "'w Deps \<Rightarrow> 'w entry \<Rightarrow> bool" where
  "guarded d e = (case e of
     Endpoint ep \<Rightarrow> (\<exists>p. servicePath p \<and> ep_shape ep = (Some ''GET'', p, False)) \<or> (\<exists>rest. e_Mids ep = limit_of d @ rest)
   | Sub p mids sub \<Rightarrow> mids = limit_of d)"

lemma entries_guarded: "e \<in> set (mx_Entries (New d)) \<Longrightarrow> guarded d e"
  by (auto simp: New_def mountWeb_def guarded_def Let_def get_def post_def mount_def ep_shape_def servicePath_def split: option.splits)

lemma no_param_service: "servicePath p \<Longrightarrow> CHR ''{'' \<notin> set p"
  by (auto simp: servicePath_def healthPath_def livenessPath_def metricsPath_def)

lemma limitKey_params [simp]: "limitKey (r\<lparr>rq_Param := ps\<rparr>) = limitKey r" "limitKey (r\<lparr>rq_RequestID := i\<rparr>) = limitKey r"
  by (auto simp: limitKey_def Let_def split: option.split)

lemma refused_by_limit:
  assumes "limit_of d = [rateLimiting (dp_allow d)]" and "dp_allow d (limitKey r) w = ((False, n), w1)"
  shows "chain (limit_of d @ mids) h r w =
    (Served, SetHeader headerRetryAfter (itoa n) # writeJSON 429 (JError (er messageTooMany '''' 0)), w1)"
  using assms by (simp add: chain_def rateLimiting_def)


definition enter :: "search \<Rightarrow> 'w entry \<Rightarrow> (string \<Rightarrow> string) \<Rightarrow> 'w handler" where
  "enter srch e ps r w =
     (case e of
        Endpoint ep \<Rightarrow> call ep ps r w
      | Sub p mids sub \<Rightarrow> chain mids (sub_route srch sub (rest_of p (rq_Path r))) r w)"

lemma route_cases:
  assumes "chi_tree srch" and "route srch es r w = (res, acts, w')"
  obtains e ps where "e \<in> set es" "may_match (shape_of e) (rq_Method r) (rq_Path r)" "(res, acts, w') = enter srch e ps r w"
  | "res = Served" "resp_status acts \<in> {404, 405}" "w' = w"
      "\<forall>i ps. srch (map shape_of es) (rq_Method r) (rq_Path r) \<noteq> Found i ps"
proof (cases "srch (map shape_of es) (rq_Method r) (rq_Path r)")
  case (Found i ps)
  with chi_tree.find_sound [OF assms(1) Found] have "i < length es" "may_match (shape_of (es ! i)) (rq_Method r) (rq_Path r)"
    by (metis length_map nth_map)+
  with that(1) [of "es ! i" ps] assms(2) Found show ?thesis by (simp add: route_def enter_def)
next
  case MethodNotAllowed
  with assms(2) have "res = Served" "acts = not_allowed" "w' = w" by (simp_all add: route_def)
  with that(2) MethodNotAllowed show ?thesis by (simp add: not_allowed_def resp_status_find)
next
  case NotFound
  with assms(2) have "res = Served" "acts = not_found" "w' = w" by (simp_all add: route_def)
  with that(2) NotFound show ?thesis by (simp add: not_found_def http_Error_def resp_status_find)
qed

lemma guarded_refused:
  assumes "limit_of d = [rateLimiting (dp_allow d)]" and "dp_allow d (limitKey r) w = ((False, n), w1)"
    and "\<not> servicePath (rq_Path r)" and "guarded d e" and "may_match (shape_of e) (rq_Method r) (rq_Path r)"
  shows "enter srch e ps r w =
    (Served, SetHeader headerRetryAfter (itoa n) # writeJSON 429 (JError (er messageTooMany [] 0)), w1)"
proof (cases e)
  case (Endpoint ep)
  with assms(3-5) no_param_service obtain rest where "e_Mids ep = limit_of d @ rest"
    by (auto simp: guarded_def shape_of_def)
  with refused_by_limit [OF assms(1), of "r\<lparr>rq_Param := ps\<rparr>" w n w1 rest "e_Handler ep"] assms(2) Endpoint
  show ?thesis by (simp add: enter_def call_def)
next
  case (Sub p mids sub)
  with assms(4) refused_by_limit [OF assms(1,2), of "[]"] show ?thesis by (simp add: enter_def guarded_def)
qed

lemma too_many:
  "resp_status (SetHeader headerRetryAfter (itoa n) # writeJSON 429 b) = 429"
  "resp_header (SetHeader headerRetryAfter (itoa n) # writeJSON 429 b) headerRetryAfter = Some (itoa n)"
  by (simp add: resp_status_find writeJSON_def)
    (rule resp_header_set, simp add: writeJSON_def sets_def headerRetryAfter_def headerContentType_def)

lemma none_under_api:
  assumes "chi_tree srch"
    and "\<forall>i ps. srch (map shape_of (mx_Entries (New d))) (rq_Method r) (rq_Path r) \<noteq> Found i ps"
  shows "\<not> under apiPrefix (rq_Path r)"
proof
  assume "under apiPrefix (rq_Path r)"
  then have "must_match (None, apiPrefix, True) (rq_Method r) (rq_Path r)" by (simp add: method_fits_def)
  moreover have "(None, apiPrefix, True) \<in> set (map shape_of (mx_Entries (New d)))"
    by (simp add: New_def Let_def shape_of_def)
  ultimately show False using chi_tree.find_complete [OF assms(1)] assms(2) by blast
qed

lemma health_only:
  assumes "e \<in> set (mx_Entries (New d))" and "may_match (shape_of e) ''GET'' healthPath"
  shows "e = Endpoint (get healthPath [] (health (dp_api d)))"
  using assms
  by (auto simp: New_def mountWeb_def Let_def shape_of_def ep_shape_def get_def post_def mount_def method_fits_def under_def
      HasPrefix_def healthPath_def livenessPath_def metricsPath_def apiPrefix_def UploadPath_def GalleryPattern_def
      GalleryPath_def StaticPath_def paramUserID_def split: option.splits)

lemma health_routed:
  assumes "chi_tree srch" and "rq_Method r = ''GET''" and "rq_Path r = healthPath"
  shows "\<exists>ps. route srch (mx_Entries (New d)) r w = health (dp_api d) (r\<lparr>rq_Param := ps\<rparr>) w"
proof -
  obtain res acts w' where run: "route srch (mx_Entries (New d)) r w = (res, acts, w')" by (metis prod.collapse)
  show ?thesis
  proof (cases rule: route_cases [OF assms(1) run])
    case (1 e ps)
    with health_only [of e d] assms have "e = Endpoint (get healthPath [] (health (dp_api d)))" by simp
    with 1(3) run show ?thesis by (auto simp: enter_def call_def get_def chain_def)
  next
    case 2
    have "must_match (Some ''GET'', healthPath, False) (rq_Method r) (rq_Path r)"
      using assms by (simp add: method_fits_def no_param_service servicePath_def)
    moreover have "(Some ''GET'', healthPath, False) \<in> set (map shape_of (mx_Entries (New d)))"
      by (simp add: New_def Let_def shape_of_def ep_shape_def get_def)
    ultimately show ?thesis using chi_tree.find_complete [OF assms(1)] 2(4) by blast
  qed
qed


section \<open>The limit of an upload\<close>

lemma uploading_chain:
  "chain (uploading d) h r w =
     h (r\<lparr>rq_BodyLimit := Some (case rq_BodyLimit r of None \<Rightarrow> a_maxUpload (dp_api d) + multipartOverheadBytes
            | Some l \<Rightarrow> min l (a_maxUpload (dp_api d) + multipartOverheadBytes)),
          rq_Timeout := Some (case rq_Timeout r of None \<Rightarrow> ReadTimeout (dp_HTTP d) | Some t \<Rightarrow> min t (ReadTimeout (dp_HTTP d))),
          rq_WriteDeadline := Some (ReadTimeout (dp_HTTP d) + WriteTimeout (dp_HTTP d))\<rparr>) w"
  by (simp add: chain_def uploading_def maxBytes_def timeout_def extendWriteDeadline_def)


section \<open>A server\<close>

definition http_deps0 :: "unit Deps" where
  "http_deps0 = \<lparr>dp_api = api0,
     dp_HTTP = \<lparr>Addr = '':8080'', ReadHeaderTimeout = Second, ReadTimeout = Minute, WriteTimeout = Minute,
       IdleTimeout = Minute, ShutdownTimeout = Second, RequestTimeout = Second\<rparr>,
     dp_RateLimit = \<lparr>RPS = Finite 1, Burst = 2\<rparr>, dp_allow = (\<lambda>k w. ((False, 7), w)), dp_Web = None,
     dp_static = (\<lambda>r w. (Served, [], w)), dp_Tracing = True, dp_otel = (\<lambda>f h. h), dp_SetName = (\<lambda>s p w. w),
     dp_pattern = (\<lambda>r. ''''), dp_Metrics = Some (\<lambda>m p s w. w), dp_MetricsHandler = None,
     dp_Log = (\<lambda>l p s w. w), dp_NewString = (\<lambda>w. (''new'', w))\<rparr>"

definition health0 :: Request where
  "health0 = request0\<lparr>rq_Path := healthPath, rq_Header := (\<lambda>k. if k = headerRequestID then ''abc'' else '''')\<rparr>"

lemma http_deps0_observes: "observes_only (dp_otel http_deps0) (\<lambda>r w. w) (\<lambda>r w. w)"
  by (auto simp: observes_only_def http_deps0_def split: prod.split)

lemma health_sets: "health a r w = (res, acts, w') \<Longrightarrow> res = Served \<and> list_all (\<lambda>a. \<not> sets headerRequestID a) acts"
  by (auto simp: health_def Let_def writeJSON_def sets_def headerContentType_def headerRequestID_def split: prod.splits)

theorem server_answers_witness:
  "\<exists>acts. ServeHTTP (find_first 0) (New http_deps0) health0 () = (Served, acts, ()) \<and> resp_header acts headerRequestID = Some ''abc''"
proof -
  obtain res acts w' where run: "ServeHTTP (find_first 0) (New http_deps0) health0 () = (res, acts, w')" by (metis prod.collapse)
  have v: "validRequestID (rq_Header health0 headerRequestID)" "rq_Header health0 headerRequestID = ''abc''"
    by (simp_all add: health0_def validRequestID_def maxRequestIDLen_def byte_def)
  from server_answers [OF http_deps0_observes run] v
  obtain w0 rres racts w1 where r: "route (find_first 0) (mx_Entries (New http_deps0)) (health0\<lparr>rq_RequestID := ''abc''\<rparr>) w0 = (rres, racts, w1)"
      "res = (if rres = Panic True then Panic True else Served)"
      "list_all (\<lambda>a. \<not> sets headerRequestID a) racts \<Longrightarrow> resp_header acts headerRequestID = Some ''abc''"
    by auto
  have "\<exists>ps. route (find_first 0) (mx_Entries (New http_deps0)) (health0\<lparr>rq_RequestID := ''abc''\<rparr>) w0
      = health (dp_api http_deps0) (health0\<lparr>rq_RequestID := ''abc''\<rparr>\<lparr>rq_Param := ps\<rparr>) w0"
    by (rule health_routed [OF first_match.chi_tree_axioms]) (simp_all add: health0_def request0_def)
  with r(1) health_sets have "rres = Served \<and> list_all (\<lambda>a. \<not> sets headerRequestID a) racts" by metis
  with r run show ?thesis by auto
qed

definition listing0 :: Request where
  "listing0 = request0\<lparr>rq_Path := ''/api/v1/users/alice/avatars''\<rparr>"


definition large0 :: "int \<Rightarrow> Request" where
  "large0 n = request0\<lparr>rq_Header := (\<lambda>_. ''alice''), rq_FormBytes := n + 300,
     rq_Form := Some \<lparr>f_Value = (\<lambda>_. ''''),
       f_File = (\<lambda>_. Some (Some \<lparr>fh_Filename = ''a.png'', fh_Size = n, fh_File = png0\<rparr>)), f_Temp = 0\<rparr>\<rparr>"


end
