(* ===== verification/WebPages.thy ===== *)
theory WebPages
  imports Web Configuration
begin

text \<open>
  \<open>New\<close> of package \<open>internal/server/web\<close> and what its templates (\<open>web/templates\<close>) expand to. A
  template is the sequence of its pieces: text of the file, and values that \<open>html/template\<close>
  escapes where they stand. Whether the embedded files parse is a parameter.
\<close>

section \<open>Pieces\<close>

text \<open>
  \<open>Txt\<close> is a value in text, in the title or in a quoted attribute, which are escaped alike;
  \<open>Url\<close> is a value of an attribute that holds an address.
\<close>

datatype piece = Lit string | Txt string | Url string

text \<open>\<open>htmlReplacementTable\<close>; bytes outside of it, valid UTF-8 or not, go through.\<close>

definition entity :: "char \<Rightarrow> string" where
  "entity c =
     (if c = CHR 0x00 then [CHR 0xEF, CHR 0xBF, CHR 0xBD]
      else if c = CHR 0x22 then ''&#34;'' else if c = CHR ''&'' then ''&amp;''
      else if c = CHR 0x27 then ''&#39;'' else if c = CHR ''+'' then ''&#43;''
      else if c = CHR ''<'' then ''&lt;'' else if c = CHR ''>'' then ''&gt;'' else [c])"

definition htmlReplacer :: "string \<Rightarrow> string" where
  "htmlReplacer s = concat (map entity s)"

text \<open>
  \<open>urlfilter\<close>: an address with a scheme is replaced. The few schemes it lets through never occur:
  all addresses of the pages are paths.
\<close>

definition urlFilter :: "string \<Rightarrow> string" where
  "urlFilter s =
     (if CHR '':'' \<in> set s \<and> CHR ''/'' \<notin> set (takeWhile (\<lambda>c. c \<noteq> CHR '':'') s) then ''#ZgotmplZ'' else s)"

definition lowerhex :: string where "lowerhex = ''0123456789abcdef''"

definition url_kept :: "char \<Rightarrow> bool" where
  "url_kept c \<longleftrightarrow> unreserved c \<or> c \<in> set ''!#$&*+,/:;=?@[]''"

fun urlNormalizer :: "string \<Rightarrow> string" where
  "urlNormalizer [] = []"
| "urlNormalizer (c # s) =
     (if url_kept c
         \<or> c = CHR ''%'' \<and> 2 \<le> length s \<and> unhex (s ! 0) \<noteq> None \<and> unhex (s ! 1) \<noteq> None
      then [c] else [CHR ''%'', lowerhex ! (byte c div 16), lowerhex ! (byte c mod 16)]) @ urlNormalizer s"

fun expand :: "piece \<Rightarrow> string" where
  "expand (Lit s) = s"
| "expand (Txt s) = htmlReplacer s"
| "expand (Url s) = htmlReplacer (urlNormalizer (urlFilter s))"

section \<open>The templates\<close>

definition nl :: string where "nl = [CHR 0x0A]"

text \<open>A dash, in UTF-8.\<close>

definition em_dash :: string where "em_dash = [CHR 0xE2, CHR 0x80, CHR 0x94]"

definition base_html :: "piece list \<Rightarrow> piece list \<Rightarrow> piece list" where
  "base_html title body =
     [Lit (''<!doctype html>'' @ nl
        @ ''<html lang=\"en\">'' @ nl
        @ ''<head>'' @ nl
        @ ''    <meta charset=\"utf-8\">'' @ nl
        @ ''    <meta name=\"viewport\" content=\"width=device-width, initial-scale=1\">'' @ nl
        @ ''    <title>'')]
     @ title
     @ [Lit ('' '' @ em_dash @ '' GophProfile</title>'' @ nl
        @ ''    <link rel=\"stylesheet\" href=\"''),
        Url (staticURL ''style.css''),
        Lit (''\">'' @ nl
        @ ''</head>'' @ nl
        @ ''<body>'' @ nl
        @ ''<header class=\"topbar\">'' @ nl
        @ ''    <a class=\"brand\" href=\"''),
        Url (uploadURL ''''),
        Lit (''\">GophProfile</a>'' @ nl
        @ ''    <span class=\"tagline\">avatars for everyone</span>'' @ nl
        @ ''</header>'' @ nl
        @ ''<main>'' @ nl
        @ ''    '')]
     @ body
     @ [Lit (nl @ ''</main>'' @ nl @ ''</body>'' @ nl @ ''</html>'' @ nl)]"

definition error_html :: "errorView \<Rightarrow> piece list" where
  "error_html v =
     base_html
       [Lit ''Error '', Txt (decimal (ev_Status v))]
       [Lit (nl @ ''<h1>Error ''),
        Txt (decimal (ev_Status v)),
        Lit (''</h1>'' @ nl
        @ nl
        @ ''<p class=\"error\" role=\"alert\">''),
        Txt (ev_Message v),
        Lit (''</p>'' @ nl
        @ nl
        @ ''<p><a href=\"''),
        Url (uploadURL ''''),
        Lit (''\">Back to the upload form</a></p>'' @ nl)]"

text \<open>One card of the gallery, the body of \<open>range\<close>.\<close>

definition card_html :: "avatarView \<Rightarrow> piece list" where
  "card_html v =
     [Lit (nl @ ''    <li class=\"card avatar'')]
     @ (if av_IsCurrent v then [Lit '' current''] else [])
     @ [Lit (''\">'' @ nl
        @ ''        <a href=\"''),
        Url (av_OriginalURL v),
        Lit (''\">'' @ nl
        @ ''            <img class=\"thumb\" src=\"''),
        Url (av_ThumbnailURL v),
        Lit ''\" alt=\"'',
        Txt (av_FileName v),
        Lit (''\"'' @ nl
        @ ''                 width=\"100\" height=\"100\" loading=\"lazy\">'' @ nl
        @ ''        </a>'' @ nl
        @ ''        <p class=\"name\">''),
        Txt (av_FileName v),
        Lit (''</p>'' @ nl
        @ ''        <dl>'' @ nl
        @ ''            <dt>Size</dt><dd>''),
        Txt (av_Size v),
        Lit (''</dd>'' @ nl
        @ ''            <dt>Dimensions</dt><dd>''),
        Txt (av_Dimensions v),
        Lit (''</dd>'' @ nl
        @ ''            <dt>Uploaded</dt><dd>''),
        Txt (av_CreatedAt v),
        Lit (''</dd>'' @ nl
        @ ''            <dt>State</dt><dd>''),
        Txt (av_Status v),
        Lit (''</dd>'' @ nl
        @ ''        </dl>'' @ nl
        @ ''        '')]
     @ (if av_IsCurrent v then [Lit ''<p class=\"badge\">current avatar</p>''] else [])
     @ [Lit (nl @ ''    </li>'' @ nl @ ''    '')]"

definition gallery_html :: "galleryView \<Rightarrow> piece list" where
  "gallery_html v =
     base_html
       [Lit ''Gallery of '', Txt (gv_UserID v)]
       ([Lit (nl @ ''<h1>Avatars of ''),
         Txt (gv_UserID v),
         Lit (''</h1>'' @ nl
         @ nl
         @ ''<p><a href=\"''),
         Url (uploadURL (gv_UserID v)),
         Lit (''\">Upload another one</a></p>'' @ nl
         @ nl)]
        @ (if gv_Avatars v \<noteq> []
           then [Lit (nl @ ''<ul class=\"gallery\">'' @ nl @ ''    '')]
             @ concat (map card_html (gv_Avatars v))
             @ [Lit (nl @ ''</ul>'' @ nl)]
           else [Lit (nl @ ''<p class=\"empty\">No avatars yet '' @ em_dash
             @ '' the default one is served instead.</p>'' @ nl)])
        @ [Lit nl])"

definition upload_html :: "uploadView \<Rightarrow> piece list" where
  "upload_html v =
     base_html
       [Lit ''Upload'']
       ([Lit (nl @ ''<h1>Upload an avatar</h1>'' @ nl @ nl)]
        @ (if uv_Error v \<noteq> ''''
           then [Lit ''<p class=\"error\" role=\"alert\">'', Txt (uv_Error v), Lit ''</p>''] else [])
        @ [Lit (nl
         @ nl
         @ ''<form class=\"card\" action=\"''),
         Url (uploadURL ''''),
         Lit (''\" method=\"post\" enctype=\"multipart/form-data\">'' @ nl
         @ ''    <label for=\"user_id\">User ID</label>'' @ nl
         @ ''    <input id=\"user_id\" name=\"user_id\" type=\"text\" value=\"''),
         Txt (uv_UserID v),
         Lit (''\"'' @ nl
         @ ''           maxlength=\"255\" autocomplete=\"off\" required'')]
        @ (if uv_Fixed v then [Lit '' readonly''] else [])
        @ [Lit (''>'' @ nl
         @ nl
         @ ''    <label for=\"file\">Image</label>'' @ nl
         @ ''    <input id=\"file\" name=\"file\" type=\"file\"'' @ nl
         @ ''           accept=\"image/jpeg,image/png,image/webp\" required>'' @ nl
         @ nl
         @ ''    <img id=\"preview\" class=\"preview\" alt=\"Preview of the selected image\" hidden>'' @ nl
         @ nl
         @ ''    <p class=\"hint\">JPEG, PNG or WebP, up to ''),
         Txt (uv_MaxSize v),
         Lit (''.</p>'' @ nl
         @ nl
         @ ''    <button type=\"submit\">Upload</button>'' @ nl
         @ ''</form>'' @ nl
         @ nl)]
        @ (if uv_UserID v \<noteq> ''''
           then [Lit ''<p><a href=\"'', Url (GalleryURL (uv_UserID v)), Lit ''\">Open the gallery of '',
             Txt (uv_UserID v), Lit ''</a></p>''] else [])
        @ [Lit (nl
         @ nl
         @ ''<script src=\"''),
         Url (staticURL ''preview.js''),
         Lit (''\"></script>'' @ nl)])"

fun page_pieces :: "page \<Rightarrow> piece list" where
  "page_pieces (UploadPage v) = upload_html v"
| "page_pieces (GalleryPage v) = gallery_html v"
| "page_pieces (FailurePage v) = error_html v"

definition page_html :: "page \<Rightarrow> string" where
  "page_html p = concat (map expand (page_pieces p))"

section \<open>New\<close>

text \<open>What the embedded files answer: \<open>ParseFS\<close> for a list of paths, \<open>fs.Sub\<close> for a directory.\<close>

record web_files =
  wf_ParseFS :: "string list \<Rightarrow> error option"
  wf_Sub :: "string \<Rightarrow> error option"

datatype template = UploadTemplate | GalleryTemplate | ErrorTemplate

definition baseTemplate :: string where "baseTemplate = ''base.html''"
definition templatesDir :: string where "templatesDir = ''templates''"
definition staticDir :: string where "staticDir = ''static''"

text \<open>The name of a template is the name of the file with its blocks.\<close>

definition parsePage :: "web_files \<Rightarrow> string \<Rightarrow> error + string" where
  "parsePage L name =
     (case wf_ParseFS L [templatesDir @ ''/'' @ baseTemplate, templatesDir @ ''/'' @ name] of
        Some e \<Rightarrow> Inl (wrapf e)
      | None \<Rightarrow> Inr name)"

record pages =
  pg_upload :: string
  pg_gallery :: string
  pg_failure :: string

text \<open>\<open>ExecuteTemplate\<close> fails when the blocks name fields that the data does not have.\<close>

definition ExecuteTemplate :: "string \<Rightarrow> page \<Rightarrow> string option" where
  "ExecuteTemplate name p =
     (if name = (case p of UploadPage _ \<Rightarrow> ''upload.html'' | GalleryPage _ \<Rightarrow> ''gallery.html'' | FailurePage _ \<Rightarrow> ''error.html'')
      then Some (page_html p) else None)"

definition page_template :: "pages \<Rightarrow> page \<Rightarrow> string" where
  "page_template ps p = (case p of UploadPage _ \<Rightarrow> pg_upload ps | GalleryPage _ \<Rightarrow> pg_gallery ps | FailurePage _ \<Rightarrow> pg_failure ps)"

definition parse_pages :: "web_files \<Rightarrow> error + pages" where
  "parse_pages L =
     (case parsePage L ''upload.html'' of
        Inl e \<Rightarrow> Inl e
      | Inr upload \<Rightarrow>
          (case parsePage L ''gallery.html'' of
             Inl e \<Rightarrow> Inl e
           | Inr gallery \<Rightarrow>
               (case parsePage L ''error.html'' of
                  Inl e \<Rightarrow> Inl e
                | Inr failure \<Rightarrow>
                    (case wf_Sub L staticDir of
                       Some e \<Rightarrow> Inl (wrapf e)
                     | None \<Rightarrow> Inr \<lparr>pg_upload = upload, pg_gallery = gallery, pg_failure = failure\<rparr>))))"

text \<open>
  \<open>New\<close>, with the handlers and \<open>Static\<close> as its result; \<open>FileServer\<close> is \<open>http.FileServerFS\<close>, the last
  four arguments are the format of dates and of identifiers and what a form leaves on disk.
\<close>

record 'w web_Deps =
  wb_Upload :: "UploadInput \<Rightarrow> 'w \<Rightarrow> (error + Avatar) \<times> 'w"
  wb_ListByUser :: "string \<Rightarrow> 'w \<Rightarrow> (error + Avatar list) \<times> 'w"
  wb_MaxUploadBytes :: int

definition web_New ::
  "web_files \<Rightarrow> 'w web_Deps \<Rightarrow> 'w handler \<Rightarrow> (time \<Rightarrow> string) \<Rightarrow> (uuid \<Rightarrow> string) \<Rightarrow> (nat \<Rightarrow> 'w \<Rightarrow> 'w)
     \<Rightarrow> (nat \<Rightarrow> 'w \<Rightarrow> 'w) \<Rightarrow> error + 'w Handlers \<times> 'w handler" where
  "web_New L d FileServer date us spill remove_files =
     (case parse_pages L of
        Inl e \<Rightarrow> Inl e
      | Inr ps \<Rightarrow>
          Inr (\<lparr>h_Upload = wb_Upload d, h_ListByUser = wb_ListByUser d, h_maxUpload = wb_MaxUploadBytes d,
                h_pages = (\<lambda>p. ExecuteTemplate (page_template ps p) p), h_date = date, h_us = us,
                h_spill = spill, h_removeAll = remove_files\<rparr>,
               cacheControl staticMaxAge FileServer))"

section \<open>The log of a failure\<close>

definition failure_level :: "nat \<Rightarrow> int" where
  "failure_level status = (if status \<ge> 500 then LevelError else LevelWarn)"

text \<open>The level, the message and the attributes; an error is its text, given by the caller.\<close>

definition logFailure :: "(error \<Rightarrow> string) \<Rightarrow> Request \<Rightarrow> nat \<Rightarrow> error \<Rightarrow> int \<times> string \<times> (string \<times> string) list" where
  "logFailure txt r status err =
     (failure_level status, ''web request failed'',
      [(''error'', txt err), (''method'', rq_Method r), (''path'', rq_Path r), (''status'', decimal status)])"

section \<open>What users write stays text\<close>

definition markup :: "char \<Rightarrow> bool" where
  "markup c \<longleftrightarrow> c \<in> {CHR ''<'', CHR ''>'', CHR 0x22, CHR 0x27}"

text \<open>A page of the same shape with the same harmless text in every place.\<close>

definition blank :: "string \<Rightarrow> string" where
  "blank s = (if s = '''' then '''' else ''x'')"

fun blank_page :: "page \<Rightarrow> page" where
  "blank_page (UploadPage v) = UploadPage \<lparr>uv_UserID = blank (uv_UserID v), uv_Fixed = uv_Fixed v,
     uv_Error = blank (uv_Error v), uv_MaxSize = blank (uv_MaxSize v)\<rparr>"
| "blank_page (GalleryPage v) = GalleryPage \<lparr>gv_UserID = blank (gv_UserID v),
     gv_Avatars = map (\<lambda>a. \<lparr>av_FileName = blank (av_FileName a), av_ThumbnailURL = blank (av_ThumbnailURL a),
       av_OriginalURL = blank (av_OriginalURL a), av_Size = blank (av_Size a), av_Dimensions = blank (av_Dimensions a),
       av_CreatedAt = blank (av_CreatedAt a), av_Status = blank (av_Status a), av_IsCurrent = av_IsCurrent a\<rparr>) (gv_Avatars v)\<rparr>"
| "blank_page (FailurePage v) = FailurePage \<lparr>ev_Status = 0, ev_Message = blank (ev_Message v)\<rparr>"

definition in_site :: "piece \<Rightarrow> bool" where
  "in_site p \<longleftrightarrow> (case p of Url u \<Rightarrow> HasPrefix u ''/web/'' \<or> HasPrefix u ''/api/v1/'' | _ \<Rightarrow> True)"

fun frame :: "piece \<Rightarrow> string option" where
  "frame (Lit s) = Some s"
| "frame _ = None"

lemma if_cases: "(b \<Longrightarrow> \<forall>x\<in>set s. \<not> markup x) \<Longrightarrow> (\<not> b \<Longrightarrow> \<forall>x\<in>set t. \<not> markup x) \<Longrightarrow>
    \<forall>x\<in>set (if b then s else t). \<not> markup x"
  by simp

lemma entity_plain: "\<forall>x\<in>set (entity c). \<not> markup x"
  unfolding entity_def by (intro if_cases) (simp_all add: markup_def)

lemma htmlReplacer_plain [simp]: "filter markup (htmlReplacer s) = []"
  using entity_plain by (auto simp: htmlReplacer_def filter_empty_conv)

lemma filter_expand: "filter markup (expand p) = (case frame p of Some s \<Rightarrow> filter markup s | None \<Rightarrow> [])"
  by (cases p) simp_all

lemma markup_of_frames:
  "filter markup (concat (map expand ps)) = concat (map (\<lambda>q. case q of Some s \<Rightarrow> filter markup s | None \<Rightarrow> []) (map frame ps))"
  by (induction ps) (simp_all add: filter_expand)

lemma blank_empty [simp]: "blank s = '''' \<longleftrightarrow> s = ''''"
  by (simp add: blank_def)

lemma frames_base: "map frame t = map frame t' \<Longrightarrow> map frame b = map frame b' \<Longrightarrow>
    map frame (base_html t b) = map frame (base_html t' b')"
  by (simp add: base_html_def)

lemma frames_card: "av_IsCurrent v = av_IsCurrent v' \<Longrightarrow> map frame (card_html v) = map frame (card_html v')"
  by (simp add: card_html_def)

lemma frames_cards:
  "list_all2 (\<lambda>v v'. av_IsCurrent v = av_IsCurrent v') vs vs' \<Longrightarrow>
    map frame (concat (map card_html vs)) = map frame (concat (map card_html vs'))"
proof (induction rule: list_all2_induct)
  case (Cons v vs v' vs')
  with frames_card [OF Cons.hyps(1)] show ?case by simp
qed simp

lemma frames_blank: "map frame (page_pieces p) = map frame (page_pieces (blank_page p))"
proof (cases p)
  case (UploadPage v)
  then show ?thesis by (auto simp: upload_html_def intro!: frames_base)
next
  case (GalleryPage v)
  let ?b = "\<lambda>a. \<lparr>av_FileName = blank (av_FileName a), av_ThumbnailURL = blank (av_ThumbnailURL a),
       av_OriginalURL = blank (av_OriginalURL a), av_Size = blank (av_Size a), av_Dimensions = blank (av_Dimensions a),
       av_CreatedAt = blank (av_CreatedAt a), av_Status = blank (av_Status a), av_IsCurrent = av_IsCurrent a\<rparr>"
  have "map frame (concat (map card_html (gv_Avatars v))) = map frame (concat (map card_html (map ?b (gv_Avatars v))))"
    by (rule frames_cards) (simp add: list_all2_conv_all_nth)
  then show ?thesis using GalleryPage by (auto simp: gallery_html_def simp del: map_map intro!: frames_base)
next
  case (FailurePage v)
  then show ?thesis by (auto simp: error_html_def intro!: frames_base)
qed

lemma site_addresses:
  "in_site (Url (staticURL n))" "in_site (Url (uploadURL u))" "in_site (Url (GalleryURL u))"
  "in_site (Url (web_avatarURL us i))" "in_site (Url (web_thumbnailURL us i sz))"
  by (simp_all add: in_site_def staticURL_def StaticPath_def uploadURL_def UploadPath_def GalleryURL_def GalleryPath_def
      web_avatarURL_def web_thumbnailURL_def apiAvatarsPath_def HasPrefix_def)

lemma in_site_text [simp]: "in_site (Lit s)" "in_site (Txt s)"
  by (simp_all add: in_site_def)

lemma in_site_base: "list_all in_site t \<Longrightarrow> list_all in_site b \<Longrightarrow> list_all in_site (base_html t b)"
  by (simp add: base_html_def site_addresses)

lemma in_site_card: "list_all in_site (card_html (avatar_view h i av))"
  by (simp add: card_html_def avatar_view_def site_addresses)

lemma in_site_cards: "list_all in_site (concat (map card_html (gv_Avatars (newGalleryView h u avs))))"
proof -
  have "\<forall>a\<in>set (gv_Avatars (newGalleryView h u avs)). list_all in_site (card_html a)"
    by (auto simp: newGalleryView_def intro: in_site_card)
  then show ?thesis by (auto simp: list_all_iff)
qed

text \<open>The pages that the handlers show are always rendered, by the template of their kind.\<close>

lemma web_New_pages:
  assumes "web_New L d fs date us spill remove_files = Inr (h, static)"
  shows "h_pages h p = Some (page_html p)" and "static = cacheControl staticMaxAge fs"
  using assms
  by (auto simp: web_New_def parse_pages_def parsePage_def ExecuteTemplate_def page_template_def
      split: option.splits page.splits)

text \<open>
  (C32) What users write stays text: whatever user ids, file names and messages a page shows, its
  angle brackets and quotes are those of the page of the same shape with the letter x in every
  place, so nothing a user writes begins a tag or ends an attribute; and every address on the
  pages the handlers build is a path of the site itself.
\<close>

theorem pages_escape:
  "filter markup (page_html p) = filter markup (page_html (blank_page p))
   \<and> list_all in_site (page_pieces (UploadPage (newUploadView h u fixed failure)))
   \<and> list_all in_site (page_pieces (GalleryPage (newGalleryView h u avs)))
   \<and> list_all in_site (page_pieces (FailurePage v))"
proof (intro conjI)
  show "filter markup (page_html p) = filter markup (page_html (blank_page p))"
    unfolding page_html_def markup_of_frames by (simp only: frames_blank [of p])
  show "list_all in_site (page_pieces (UploadPage (newUploadView h u fixed failure)))"
    by (auto simp: upload_html_def site_addresses intro!: in_site_base)
  show "list_all in_site (page_pieces (GalleryPage (newGalleryView h u avs)))"
    using in_site_cards [of h u avs] by (auto simp: gallery_html_def site_addresses simp del: map_map intro!: in_site_base)
  show "list_all in_site (page_pieces (FailurePage v))"
    by (auto simp: error_html_def site_addresses intro!: in_site_base)
qed

end
