(* ===== verification/ServerMain.thy ===== *)
theory ServerMain
  imports Lifecycle HttpServer WebPages
begin

text \<open>
  \<open>cmd/server\<close>: what the process opens and in which order it closes it (\<open>run\<close>, \<open>setup\<close>,
  \<open>close\<close>), and the routes over the open dependencies (\<open>router\<close>).
\<close>

section \<open>The routes\<close>

text \<open>The service as the handlers call it. Files of a form are no part of this world.\<close>

definition http_service :: "'w Service \<Rightarrow> 'w http_Service" where
  "http_service V =
     \<lparr>hs_Upload = Upload V, hs_AvatarContent = AvatarContent V, hs_UserAvatarContent = UserAvatarContent V,
      hs_Metadata = Metadata V, hs_ListByUser = ListByUser V, hs_Delete = Delete V, hs_DeleteCurrent = DeleteCurrent V\<rparr>"

text \<open>
  What the router needs besides the dependencies: the embedded files and the format of dates,
  the limiters made for the process, the libraries' handlers, the log, and how the deadline of a
  check ends a call of the broker's client.
\<close>

record 'w web_outside =
  wo_embedded :: web_files
  wo_date :: "time \<Rightarrow> string"
  wo_allow :: "string \<Rightarrow> 'w \<Rightarrow> (bool \<times> int) \<times> 'w"
  wo_files :: "'w handler"
  wo_otel :: "(string \<Rightarrow> bool) \<Rightarrow> 'w mid"
  wo_SetName :: "string \<Rightarrow> string \<Rightarrow> 'w \<Rightarrow> 'w"
  wo_pattern :: "Request \<Rightarrow> string"
  wo_Observe :: "string \<Rightarrow> string \<Rightarrow> nat \<Rightarrow> 'w \<Rightarrow> 'w"
  wo_metrics :: "'w handler"
  wo_Log :: "int \<Rightarrow> string \<Rightarrow> nat \<Rightarrow> 'w \<Rightarrow> 'w"
  wo_expired :: "'w \<Rightarrow> lib_error option"

definition lift_mq :: "('c \<Rightarrow> 'r \<times> 'c) \<Rightarrow> ('s, 'c, 'b) world \<Rightarrow> 'r \<times> ('s, 'c, 'b) world" where
  "lift_mq f w = (let (r, c) = f (w_mq w) in (r, w\<lparr>w_mq := c\<rparr>))"

definition ComponentDB :: string where "ComponentDB = ''db''"
definition ComponentS3 :: string where "ComponentS3 = ''s3''"
definition ComponentBroker :: string where "ComponentBroker = ''broker''"

text \<open>The checks ask the dependencies themselves and not the breakers in front of them.\<close>

definition checks ::
  "('s, 'c, 'b, 'img) deps \<Rightarrow> (('s, 'c, 'b) world \<Rightarrow> lib_error option) \<Rightarrow> (string \<times> ('s, 'c, 'b) world Checker) list" where
  "checks D expired =
     [(ComponentDB, lift_pg postgres_Ping), (ComponentS3, lift_s3 (s3_Ping (d_storage D))),
      (ComponentBroker, \<lambda>w. lift_mq (broker_Ping (d_amqp D) (expired w)) w)]"

definition server_api ::
  "('s, 'c, 'b, 'img) deps \<Rightarrow> (('s, 'c, 'b) world \<Rightarrow> lib_error option) \<Rightarrow> ('s, 'c, 'b) world api" where
  "server_api D expired =
     \<lparr>a_svc = http_service (server_service D), a_checks = checks D expired, a_maxUpload = d_maxUploadBytes D,
      a_us = d_us D, a_up = d_up D, a_spill = (\<lambda>n w. w), a_removeAll = (\<lambda>n w. w)\<rparr>"

definition server_pages ::
  "('s, 'c, 'b, 'img) deps \<Rightarrow> ('s, 'c, 'b) world web_outside
     \<Rightarrow> error + ('s, 'c, 'b) world Handlers \<times> ('s, 'c, 'b) world handler" where
  "server_pages D X =
     web_New (wo_embedded X)
       \<lparr>wb_Upload = Upload (server_service D), wb_ListByUser = ListByUser (server_service D),
        wb_MaxUploadBytes = d_maxUploadBytes D\<rparr>
       (wo_files X) (wo_date X) (d_us D) (\<lambda>n w. w) (\<lambda>n w. w)"

definition router ::
  "('s, 'c, 'b, 'img) deps \<Rightarrow> Config \<Rightarrow> ('s, 'c, 'b) world web_outside \<Rightarrow> error + ('s, 'c, 'b) world mux" where
  "router D cfg X =
     (case server_pages D X of
        Inl e \<Rightarrow> Inl (wrapf e)
      | Inr (pages, static) \<Rightarrow>
          Inr (New \<lparr>dp_api = server_api D (wo_expired X), dp_HTTP = cfg_HTTP cfg, dp_RateLimit = cfg_RateLimit cfg,
            dp_allow = wo_allow X, dp_Web = Some pages, dp_static = static,
            dp_Tracing = (OtelEndpoint (cfg_Otel cfg) \<noteq> ''''), dp_otel = wo_otel X, dp_SetName = wo_SetName X,
            dp_pattern = wo_pattern X, dp_Metrics = Some (wo_Observe X), dp_MetricsHandler = Some (wo_metrics X),
            dp_Log = wo_Log X, dp_NewString = (\<lambda>w. tick (w_ids w) w)\<rparr>))"

section \<open>Opening and closing\<close>

record 's server_deps =
  sd_repo :: "Repository option"
  sd_storage :: "'s s3_Storage option"
  sd_broker :: "Conn option"

definition server_close :: "'c amqp \<Rightarrow> 's server_deps \<Rightarrow> ('s, 'c) plant \<Rightarrow> ('s, 'c) plant" where
  "server_close C d pl = close_all C (sd_broker d \<noteq> None) (sd_storage d \<noteq> None) (sd_repo d \<noteq> None) pl"

definition server_setup ::
  "('s, 'c, 'b, 'img) outside \<Rightarrow> Config \<Rightarrow> ('s, 'c) plant \<Rightarrow> (error + 's server_deps) \<times> ('s, 'c) plant" where
  "server_setup os cfg pl =
     (let d = \<lparr>sd_repo = None, sd_storage = None, sd_broker = None\<rparr>; (s, c, lg) = pl
      in case postgres_New (os_pgx os) (cfg_DB cfg) lg of
           (Inl e, lg) \<Rightarrow> (Inl (wrapf e), s, c, lg)
         | (Inr repo, lg) \<Rightarrow>
             (let d = d\<lparr>sd_repo := Some repo\<rparr>
              in case open_storage (os_minio os (cfg_S3 cfg)) (cfg_S3 cfg) (s, lg) of
                   (Inl e, s, lg) \<Rightarrow> (Inl (wrapf e), server_close (os_amqp os) d (s, c, lg))
                 | (Inr storage, s, lg) \<Rightarrow>
                     (let d = d\<lparr>sd_storage := Some storage\<rparr>
                      in case open_broker (os_amqp os) (os_dial os (URL (cfg_AMQP cfg))) (cfg_AMQP cfg) [] (c, lg) of
                           (Inl e, c, lg) \<Rightarrow> (Inl (wrapf e), server_close (os_amqp os) d (s, c, lg))
                         | (Inr conn, c, lg) \<Rightarrow> (Inr (d\<lparr>sd_broker := Some conn\<rparr>), s, c, lg))))"

section \<open>The run\<close>

text \<open>The error of \<open>router\<close> does not depend on the dependencies.\<close>

definition router_err :: "web_files \<Rightarrow> error option" where
  "router_err L = (case parse_pages L of Inl e \<Rightarrow> Some (wrapf e) | Inr _ \<Rightarrow> None)"

lemma router_fails: "(case router D cfg X of Inl e \<Rightarrow> Some e | Inr _ \<Rightarrow> None) = router_err (wo_embedded X)"
  by (auto simp: router_def server_pages_def web_New_def router_err_def split: sum.split)

text \<open>
  How serving ends: the listener fails or is closed, or a signal comes and \<open>Shutdown\<close> drains the
  requests or gives up with an error, after which \<open>Close\<close> cuts the connections but does not
  wait for the handlers.
\<close>

datatype serving = ListenFailed error | ServerClosed | Drained | NotDrained error

definition serve :: "serving \<Rightarrow> life list \<Rightarrow> error option \<times> life list" where
  "serve how lg =
     (let lg = lg @ [Acquire Requests]
      in case how of
           ListenFailed e \<Rightarrow> (Some (wrapf e), lg @ [Release Requests])
         | ServerClosed \<Rightarrow> (None, lg @ [Release Requests])
         | Drained \<Rightarrow> (None, lg @ [Release Requests])
         | NotDrained e \<Rightarrow> (Some (wrapf e), lg))"

definition server_run ::
  "('s, 'c, 'b, 'img) outside \<Rightarrow> parsers \<Rightarrow> getenv \<Rightarrow> web_files \<Rightarrow> serving \<Rightarrow> 's \<Rightarrow> 'c
     \<Rightarrow> error option \<times> ('s, 'c) plant" where
  "server_run os P env L how s c =
     (case loadServer P env of
        Inl e \<Rightarrow> (Some e, s, c, [])
      | Inr cfg \<Rightarrow>
          (case server_setup os cfg (s, c, []) of
             (Inl e, pl) \<Rightarrow> (Some e, pl)
           | (Inr app, s, c, lg) \<Rightarrow>
               (case observability_Setup (os_otel os) (cfg_Otel cfg) lg of
                  (Inl e, lg) \<Rightarrow> (Some (wrapf e), server_close (os_amqp os) app (s, c, lg))
                | (Inr tp, lg) \<Rightarrow>
                    (let (err, lg) = (case router_err L of Some e \<Rightarrow> (Some e, lg) | None \<Rightarrow> serve how lg);
                         (_, lg) = Provider_Shutdown (os_otel os) tp lg
                     in (err, server_close (os_amqp os) app (s, c, lg))))))"

section \<open>Everything is closed\<close>

lemma server_setup_log:
  assumes "server_setup os cfg (s, c, []) = (res, s', c', lg)"
  shows "case res of
      Inl e \<Rightarrow> orderly [] lg = Some []
    | Inr d \<Rightarrow> orderly [] lg = Some [Connection, Transport, Pool]
        \<and> sd_repo d \<noteq> None \<and> sd_storage d \<noteq> None \<and> sd_broker d \<noteq> None"
proof -
  obtain r1 l1 where p: "postgres_New (os_pgx os) (cfg_DB cfg) [] = (r1, l1)" by fastforce
  note p' = postgres_New_log [OF p, of "[]" "[]", simplified]
  show ?thesis
  proof (cases r1)
    case (Inl e)
    with assms p p' show ?thesis by (auto simp: server_setup_def Let_def)
  next
    case r1: (Inr repo)
    with p' have l1: "orderly [] l1 = Some [Pool]" by simp
    obtain r2 s2 l2 where q: "open_storage (os_minio os (cfg_S3 cfg)) (cfg_S3 cfg) (s, l1) = (r2, s2, l2)" by (metis prod.collapse)
    note q' = open_storage_log [OF q l1, simplified]
    show ?thesis
    proof (cases r2)
      case (Inl e)
      with q' have l2: "orderly [] l2 = Some [Pool]" by simp
      have e: "res = Inl (wrapf e)" and cl: "close_all (os_amqp os) False False True (s2, c, l2) = (s', c', lg)"
        using assms [unfolded server_setup_def server_close_def Let_def prod.case p r1 sum.case q Inl] by simp_all
      have "orderly [] lg = Some []" by (rule close_all_log [OF cl l2]) simp_all
      with e show ?thesis by simp
    next
      case r2: (Inr storage)
      with q' have l2: "orderly [] l2 = Some [Transport, Pool]" by simp
      obtain r3 c3 l3 where b: "open_broker (os_amqp os) (os_dial os (URL (cfg_AMQP cfg))) (cfg_AMQP cfg) [] (c, l2) = (r3, c3, l3)"
        by (metis prod.collapse)
      note b' = open_broker_log [OF b l2, simplified]
      show ?thesis
      proof (cases r3)
        case (Inl e)
        with b' have l3: "orderly [] l3 = Some [Transport, Pool]" by simp
        have e: "res = Inl (wrapf e)" and cl: "close_all (os_amqp os) False True True (s2, c3, l3) = (s', c', lg)"
          using assms [unfolded server_setup_def server_close_def Let_def prod.case p r1 sum.case q r2 b Inl] by simp_all
        have "orderly [] lg = Some []" by (rule close_all_log [OF cl l3]) simp_all
        with e show ?thesis by simp
      next
        case (Inr conn)
        have out: "Inr \<lparr>sd_repo = Some repo, sd_storage = Some storage, sd_broker = Some conn\<rparr> = res" "l3 = lg"
          using assms [unfolded server_setup_def Let_def prod.case p r1 sum.case q r2 b Inr] by simp_all
        have "orderly [] l3 = Some [Connection, Transport, Pool]" using b' Inr by simp
        then show ?thesis unfolding out(1) [symmetric] out(2) by simp
      qed
    qed
  qed
qed


lemma serve_log:
  assumes "serve how lg = (err, lg')" and "orderly [] lg = Some h" and "idle h" and "\<forall>e. how \<noteq> NotDrained e"
  shows "orderly [] lg' = Some h"
  using assms by (auto simp: serve_def Let_def orderly_append split: serving.splits)

lemma serving_log:
  assumes "(case failed of Some e \<Rightarrow> (Some e, lg) | None \<Rightarrow> serve how lg) = (out, lg')"
    and "orderly [] lg = Some h" and "idle h" and "\<forall>e. how \<noteq> NotDrained e"
  shows "orderly [] lg' = Some h"
    and "out = None \<Longrightarrow> how \<in> {ServerClosed, Drained} \<and> Acquire Requests \<in> set lg'"
proof -
  show "orderly [] lg' = Some h"
  proof (cases failed)
    case None
    with assms(1) have "serve how lg = (out, lg')" by simp
    then show ?thesis by (rule serve_log [OF _ assms(2,3,4)])
  next
    case (Some e)
    with assms(1,2) show ?thesis by simp
  qed
  show "out = None \<Longrightarrow> how \<in> {ServerClosed, Drained} \<and> Acquire Requests \<in> set lg'"
    using assms(1) by (auto simp: serve_def Let_def split: option.splits serving.splits)
qed

end
