(* ===== verification/WorkerMain.thy ===== *)
theory WorkerMain
  imports Lifecycle HttpServer
begin

text \<open>
  \<open>cmd/worker\<close>: opening and closing (\<open>run\<close>, \<open>setup\<close>, \<open>close\<close>) and the small listener of
  the metrics. What \<open>handler\<close> and \<open>reconciler\<close> build is in \<open>World\<close>.
\<close>

section \<open>The listener of the metrics\<close>

text \<open>The patterns of its \<open>http.ServeMux\<close>; \<open>reg\<close> is the handler of the registry.\<close>

definition metricsServer :: "'w handler \<Rightarrow> 'w endpoint list" where
  "metricsServer reg = [get metricsPath [] reg, get livenessPath [] (\<lambda>r w. (Served, [WriteHeader 200], w))]"

section \<open>Opening and closing\<close>

record 's worker_deps =
  wd_repo :: "Repository option"
  wd_storage :: "'s s3_Storage option"
  wd_broker :: "Conn option"
  wd_consumer :: "Consumer option"

definition worker_close :: "'c amqp \<Rightarrow> 's worker_deps \<Rightarrow> ('s, 'c) plant \<Rightarrow> ('s, 'c) plant" where
  "worker_close C d pl = close_all C (wd_broker d \<noteq> None) (wd_storage d \<noteq> None) (wd_repo d \<noteq> None) pl"

definition worker_setup ::
  "('s, 'c, 'b, 'img) outside \<Rightarrow> Config \<Rightarrow> ('s, 'c) plant \<Rightarrow> (error + 's worker_deps) \<times> ('s, 'c) plant" where
  "worker_setup os cfg pl =
     (let d = \<lparr>wd_repo = None, wd_storage = None, wd_broker = None, wd_consumer = None\<rparr>; (s, c, lg) = pl
      in case postgres_New (os_pgx os) (cfg_DB cfg) lg of
           (Inl e, lg) \<Rightarrow> (Inl (wrapf e), s, c, lg)
         | (Inr repo, lg) \<Rightarrow>
             (let d = d\<lparr>wd_repo := Some repo\<rparr>
              in case open_storage (os_minio os (cfg_S3 cfg)) (cfg_S3 cfg) (s, lg) of
                   (Inl e, s, lg) \<Rightarrow> (Inl (wrapf e), worker_close (os_amqp os) d (s, c, lg))
                 | (Inr storage, s, lg) \<Rightarrow>
                     (let d = d\<lparr>wd_storage := Some storage\<rparr>
                      in case open_broker (os_amqp os) (os_dial os (URL (cfg_AMQP cfg))) (cfg_AMQP cfg)
                                [WithProcessTimeout (ProcessTimeout (cfg_Worker cfg))] (c, lg) of
                           (Inl e, c, lg) \<Rightarrow> (Inl (wrapf e), worker_close (os_amqp os) d (s, c, lg))
                         | (Inr conn, c, lg) \<Rightarrow>
                             (let d = d\<lparr>wd_broker := Some conn\<rparr>
                              in case Conn_Consumer (os_amqp os) conn c of
                                   (Inl e, _, c) \<Rightarrow> (Inl (wrapf e), worker_close (os_amqp os) d (s, c, lg))
                                 | (Inr consumer, _, c) \<Rightarrow> (Inr (d\<lparr>wd_consumer := Some consumer\<rparr>), s, c, lg)))))"

section \<open>The goroutines of the run\<close>

text \<open>
  \<open>run\<close> starts the reconciler, the listener of the metrics and the consumer, and waits for the
  first of: the consumer returns, the listener fails, a signal comes. \<open>Cancelled\<close> waits for the
  consumer after a failure of the listener; \<open>Draining\<close> waits for it after a signal, at most for
  the time limit; \<open>Joining\<close> is \<open>wg.Wait\<close>, \<open>Stopping\<close> is \<open>Shutdown\<close> of the listener.
\<close>

datatype main_pc =
  Waiting | Cancelled error | Draining | Joining "error option" | Stopping "error option" | Ended "error option"

datatype consumer_pc = Consuming | Consumed "error option"

text \<open>
  \<open>ctx\<close> is done after the signal, \<open>runCtx\<close> also after \<open>cancel\<close>. \<open>wk_late\<close> is that the timer of the
  drain has fired; \<open>wk_passing\<close>, \<open>wk_scraping\<close> that the reconciler and the listener still run.
\<close>

record working =
  wk_main :: main_pc
  wk_signal :: bool
  wk_cancelled :: bool
  wk_late :: bool
  wk_consumer :: consumer_pc
  wk_metrics :: "error option"
  wk_passing :: bool
  wk_scraping :: bool
  wk_log :: "life list"

definition work_start :: working where
  "work_start =
     \<lparr>wk_main = Waiting, wk_signal = False, wk_cancelled = False, wk_late = False, wk_consumer = Consuming,
      wk_metrics = None, wk_passing = True, wk_scraping = True,
      wk_log = [Acquire Passes, Acquire Scrapes, Acquire Deliveries]\<rparr>"

definition run_done :: "working \<Rightarrow> bool" where
  "run_done s \<longleftrightarrow> wk_signal s \<or> wk_cancelled s"

text \<open>The steps of \<open>run\<close> itself, of its timer and of the reconciler.\<close>

inductive work_step :: "working \<Rightarrow> working \<Rightarrow> bool" where
  consumer_first: "wk_main s = Waiting \<Longrightarrow> wk_consumer s = Consumed cerr \<Longrightarrow>
    work_step s (s\<lparr>wk_main := Joining (map_option wrapf cerr), wk_cancelled := True\<rparr>)"
| metrics_first: "wk_main s = Waiting \<Longrightarrow> wk_metrics s = Some merr \<Longrightarrow>
    work_step s (s\<lparr>wk_main := Cancelled merr, wk_cancelled := True\<rparr>)"
| signal_first: "wk_main s = Waiting \<Longrightarrow> wk_signal s \<Longrightarrow> work_step s (s\<lparr>wk_main := Draining\<rparr>)"
| cancelled: "wk_main s = Cancelled merr \<Longrightarrow> wk_consumer s = Consumed cerr \<Longrightarrow>
    work_step s (s\<lparr>wk_main := Joining (Some (wrapf merr))\<rparr>)"
| drained: "wk_main s = Draining \<Longrightarrow> wk_consumer s = Consumed cerr \<Longrightarrow>
    work_step s (s\<lparr>wk_main := Joining (map_option wrapf cerr), wk_cancelled := True\<rparr>)"
| fire: "wk_main s = Draining \<Longrightarrow> \<not> wk_late s \<Longrightarrow> work_step s (s\<lparr>wk_late := True\<rparr>)"
| too_late: "wk_main s = Draining \<Longrightarrow> wk_late s \<Longrightarrow>
    work_step s (s\<lparr>wk_main := Joining (Some ErrText), wk_cancelled := True\<rparr>)"
| pass_ends: "wk_passing s \<Longrightarrow> run_done s \<Longrightarrow>
    work_step s (s\<lparr>wk_passing := False, wk_log := wk_log s @ [Release Passes]\<rparr>)"
| joined: "wk_main s = Joining err \<Longrightarrow> \<not> wk_passing s \<Longrightarrow> work_step s (s\<lparr>wk_main := Stopping err\<rparr>)"
| stopped: "wk_main s = Stopping err \<Longrightarrow>
    work_step s (s\<lparr>wk_main := Ended err, wk_scraping := False, wk_log := wk_log s @ [Release Scrapes]\<rparr>)"
| not_stopped: "wk_main s = Stopping err \<Longrightarrow> work_step s (s\<lparr>wk_main := Ended err\<rparr>)"

text \<open>
  The consumer returns an error at any time, and nothing but an error before its context is done
  (\<open>ConsumerPool\<close>); a signal comes, the listener fails.
\<close>

inductive work_env :: "working \<Rightarrow> working \<Rightarrow> bool" where
  consumed: "wk_consumer s = Consuming \<Longrightarrow> cerr \<noteq> None \<or> run_done s \<Longrightarrow>
    work_env s (s\<lparr>wk_consumer := Consumed cerr, wk_log := wk_log s @ [Release Deliveries]\<rparr>)"
| signalled: "work_env s (s\<lparr>wk_signal := True\<rparr>)"
| metrics_failed: "wk_metrics s = None \<Longrightarrow> work_env s (s\<lparr>wk_metrics := Some merr\<rparr>)"

definition work_run :: "working \<Rightarrow> working \<Rightarrow> bool" where
  "work_run = (\<lambda>s s'. work_step s s' \<or> work_env s s')\<^sup>*\<^sup>*"

section \<open>The run\<close>

text \<open>\<open>how\<close> is what the goroutines did until the end: the error of \<open>run\<close> and their log.\<close>

definition worker_run ::
  "('s, 'c, 'b, 'img) outside \<Rightarrow> parsers \<Rightarrow> getenv \<Rightarrow> error option \<times> life list \<Rightarrow> 's \<Rightarrow> 'c \<Rightarrow> error option \<times> ('s, 'c) plant" where
  "worker_run os P env how s c =
     (case loadWorker P env of
        Inl e \<Rightarrow> (Some e, s, c, [])
      | Inr cfg \<Rightarrow>
          (case worker_setup os cfg (s, c, []) of
             (Inl e, pl) \<Rightarrow> (Some e, pl)
           | (Inr app, s, c, lg) \<Rightarrow>
               (case observability_Setup (os_otel os) (cfg_Otel cfg) lg of
                  (Inl e, lg) \<Rightarrow> (Some (wrapf e), worker_close (os_amqp os) app (s, c, lg))
                | (Inr tp, lg) \<Rightarrow>
                    (let (err, work_log) = how; (_, lg) = Provider_Shutdown (os_otel os) tp (lg @ work_log)
                     in (err, worker_close (os_amqp os) app (s, c, lg))))))"

section \<open>Everything is closed\<close>

lemma worker_setup_log:
  assumes "worker_setup os cfg (s, c, []) = (res, s', c', lg)"
  shows "case res of
      Inl e \<Rightarrow> orderly [] lg = Some []
    | Inr d \<Rightarrow> orderly [] lg = Some [Connection, Transport, Pool]
        \<and> wd_repo d \<noteq> None \<and> wd_storage d \<noteq> None \<and> wd_broker d \<noteq> None"
proof -
  obtain r1 l1 where p: "postgres_New (os_pgx os) (cfg_DB cfg) [] = (r1, l1)" by fastforce
  note p' = postgres_New_log [OF p, of "[]" "[]", simplified]
  show ?thesis
  proof (cases r1)
    case (Inl e)
    with assms p p' show ?thesis by (auto simp: worker_setup_def Let_def)
  next
    case r1: (Inr repo)
    with p' have l1: "orderly [] l1 = Some [Pool]" by simp
    obtain r2 s2 l2 where q: "open_storage (os_minio os (cfg_S3 cfg)) (cfg_S3 cfg) (s, l1) = (r2, s2, l2)" by (metis prod.collapse)
    note q' = open_storage_log [OF q l1, simplified]
    show ?thesis
    proof (cases r2)
      case (Inl e)
      with q' have l2: "orderly [] l2 = Some [Pool]" by simp
      have e: "res = Inl (wrapf e)" and cl: "close_all (os_amqp os) False False True (s2, c, l2) = (s', c', lg)"
        using assms [unfolded worker_setup_def worker_close_def Let_def prod.case p r1 sum.case q Inl] by simp_all
      have "orderly [] lg = Some []" by (rule close_all_log [OF cl l2]) simp_all
      with e show ?thesis by simp
    next
      case r2: (Inr storage)
      with q' have l2: "orderly [] l2 = Some [Transport, Pool]" by simp
      obtain r3 c3 l3 where b: "open_broker (os_amqp os) (os_dial os (URL (cfg_AMQP cfg))) (cfg_AMQP cfg)
          [WithProcessTimeout (ProcessTimeout (cfg_Worker cfg))] (c, l2) = (r3, c3, l3)" by (metis prod.collapse)
      note b' = open_broker_log [OF b l2, simplified]
      show ?thesis
      proof (cases r3)
        case (Inl e)
        with b' have l3: "orderly [] l3 = Some [Transport, Pool]" by simp
        have e: "res = Inl (wrapf e)" and cl: "close_all (os_amqp os) False True True (s2, c3, l3) = (s', c', lg)"
          using assms [unfolded worker_setup_def worker_close_def Let_def prod.case p r1 sum.case q r2 b Inl] by simp_all
        have "orderly [] lg = Some []" by (rule close_all_log [OF cl l3]) simp_all
        with e show ?thesis by simp
      next
        case r3: (Inr conn)
        with b' have l3: "orderly [] l3 = Some [Connection, Transport, Pool]" by simp
        obtain r4 p4 c4 where k: "Conn_Consumer (os_amqp os) conn c3 = (r4, p4, c4)" by (metis prod.collapse)
        show ?thesis
        proof (cases r4)
          case (Inl e)
          have e: "res = Inl (wrapf e)" and cl: "close_all (os_amqp os) True True True (s2, c4, l3) = (s', c', lg)"
            using assms [unfolded worker_setup_def worker_close_def Let_def prod.case p r1 sum.case q r2 b r3 k Inl] by simp_all
          have "orderly [] lg = Some []" by (rule close_all_log [OF cl l3]) simp_all
          with e show ?thesis by simp
        next
          case (Inr consumer)
          have out: "Inr \<lparr>wd_repo = Some repo, wd_storage = Some storage, wd_broker = Some conn, wd_consumer = Some consumer\<rparr> = res" "l3 = lg"
            using assms [unfolded worker_setup_def Let_def prod.case p r1 sum.case q r2 b r3 k Inr] by simp_all
          show ?thesis using l3 unfolding out(1) [symmetric] out(2) by simp
        qed
      qed
    qed
  qed
qed

section \<open>How the goroutines end\<close>

definition running :: "working \<Rightarrow> resource list" where
  "running s = (if wk_consumer s = Consuming then [Deliveries] else []) @ (if wk_scraping s then [Scrapes] else [])
     @ (if wk_passing s then [Passes] else [])"

text \<open>What the error of \<open>run\<close> says about the goroutines once it is decided.\<close>

definition decided :: "working \<Rightarrow> error option \<Rightarrow> bool" where
  "decided s err \<longleftrightarrow> run_done s
     \<and> ((\<exists>cerr. wk_consumer s = Consumed cerr \<and> (err = map_option wrapf cerr \<or> (\<exists>merr. wk_metrics s = Some merr \<and> err = Some (wrapf merr))))
      \<or> wk_late s \<and> wk_signal s \<and> err = Some ErrText)"

definition work_inv :: "working \<Rightarrow> bool" where
  "work_inv s \<longleftrightarrow>
     (\<forall>h. idle h \<longrightarrow> orderly h (wk_log s) = Some (running s @ h))
   \<and> Acquire Deliveries \<in> set (wk_log s)
   \<and> (case wk_main s of
        Waiting \<Rightarrow> wk_scraping s
      | Cancelled merr \<Rightarrow> wk_scraping s \<and> run_done s \<and> wk_metrics s = Some merr
      | Draining \<Rightarrow> wk_scraping s \<and> wk_signal s
      | Joining err \<Rightarrow> wk_scraping s \<and> decided s err
      | Stopping err \<Rightarrow> wk_scraping s \<and> \<not> wk_passing s \<and> decided s err
      | Ended err \<Rightarrow> \<not> wk_passing s \<and> decided s err)"

lemma work_inv_start: "work_inv work_start"
  by (simp add: work_inv_def work_start_def running_def)

lemma not_idle: "idle h \<Longrightarrow> r \<in> {Requests, Scrapes, Passes, Deliveries} \<Longrightarrow> r \<notin> set h"
  by (auto simp: idle_def list_all_iff)

lemma work_step_inv: "work_step s s' \<Longrightarrow> work_inv s \<Longrightarrow> work_inv s'"
  by (induction rule: work_step.induct)
    (auto simp: work_inv_def running_def decided_def run_done_def orderly_append split: main_pc.splits if_splits)

lemma work_env_inv: "work_env s s' \<Longrightarrow> work_inv s \<Longrightarrow> work_inv s'"
  by (induction rule: work_env.induct)
    (auto simp: work_inv_def running_def decided_def run_done_def orderly_append split: main_pc.splits if_splits)

lemma work_reachable: "work_run work_start s \<Longrightarrow> work_inv s"
  unfolding work_run_def
  by (induction rule: rtranclp_induct) (auto intro: work_inv_start work_step_inv work_env_inv)

lemma ended_log:
  assumes "work_run work_start s" and "wk_main s = Ended err"
    and "wk_consumer s \<noteq> Consuming" and "\<not> wk_scraping s" and "orderly [] lg = Some h" and "idle h"
  shows "orderly [] (lg @ wk_log s) = Some h"
  using work_reachable [OF assms(1)] assms(2-6) by (simp add: work_inv_def running_def orderly_append)

text \<open>A bound on the steps of \<open>run\<close> and the reconciler.\<close>

fun main_rank :: "main_pc \<Rightarrow> nat" where
  "main_rank Waiting = 5" | "main_rank (Cancelled _) = 4" | "main_rank Draining = 4" | "main_rank (Joining _) = 2"
| "main_rank (Stopping _) = 1" | "main_rank (Ended _) = 0"

definition work_rank :: "working \<Rightarrow> nat" where
  "work_rank s = main_rank (wk_main s) + (if wk_late s then 0 else 1) + (if wk_passing s then 1 else 0)"

lemma work_step_rank: "work_step s s' \<Longrightarrow> work_rank s' < work_rank s"
  by (induction rule: work_step.induct) (simp_all add: work_rank_def)

lemma work_steps_bounded:
  assumes "(work_step ^^ n) s s'"
  shows "n + work_rank s' \<le> work_rank s"
  using assms
proof (induction n arbitrary: s')
  case (Suc n)
  then obtain t where t: "(work_step ^^ n) s t" "work_step t s'" by auto
  from Suc.IH [OF t(1)] work_step_rank [OF t(2)] show ?case by simp
qed simp

lemma work_not_stuck:
  assumes "work_inv s" and "wk_signal s \<or> wk_consumer s \<noteq> Consuming \<or> wk_metrics s \<noteq> None"
    and "\<forall>err. wk_main s \<noteq> Ended err" and "\<forall>merr. wk_main s = Cancelled merr \<longrightarrow> wk_consumer s \<noteq> Consuming"
  shows "\<exists>s'. work_step s s'"
proof (cases "wk_main s")
  case Waiting
  with assms(2) show ?thesis by (cases "wk_consumer s") (auto intro: work_step.intros)
next
  case (Cancelled merr)
  with assms(4) show ?thesis by (cases "wk_consumer s") (auto intro: work_step.intros)
next
  case Draining
  then show ?thesis by (cases "wk_late s") (blast intro: work_step.intros)+
next
  case (Joining err)
  then have "run_done s" using assms(1) by (simp add: work_inv_def decided_def)
  with Joining show ?thesis by (cases "wk_passing s") (blast intro: work_step.intros)+
next
  case (Stopping err)
  then show ?thesis by (blast intro: work_step.intros)
qed (use assms(3) in blast)

lemma work_step_keeps:
  "work_step s s' \<Longrightarrow> wk_signal s' = wk_signal s \<and> wk_consumer s' = wk_consumer s \<and> wk_metrics s' = wk_metrics s"
  by (induction rule: work_step.induct) simp_all

section \<open>The worker stops\<close>


text \<open>A signal comes, the consumer returns, and all steps are done.\<close>

definition work_end :: working where
  "work_end = work_start\<lparr>wk_main := Ended None, wk_signal := True, wk_cancelled := True, wk_consumer := Consumed None,
     wk_passing := False, wk_scraping := False,
     wk_log := [Acquire Passes, Acquire Scrapes, Acquire Deliveries, Release Deliveries, Release Passes, Release Scrapes]\<rparr>"

lemma work_end_steps:
  "\<exists>s. work_run work_start s \<and> wk_signal s \<and> (work_step ^^ 5) s work_end"
proof -
  let ?s1 = "work_start\<lparr>wk_signal := True\<rparr>"
  let ?s2 = "?s1\<lparr>wk_consumer := Consumed None, wk_log := wk_log ?s1 @ [Release Deliveries]\<rparr>"
  let ?s3 = "?s2\<lparr>wk_main := Draining\<rparr>"
  let ?s4 = "?s3\<lparr>wk_main := Joining None, wk_cancelled := True\<rparr>"
  let ?s5 = "?s4\<lparr>wk_passing := False, wk_log := wk_log ?s4 @ [Release Passes]\<rparr>"
  let ?s6 = "?s5\<lparr>wk_main := Stopping None\<rparr>"
  have e1: "work_env work_start ?s1" by (rule work_env.signalled)
  have e2: "work_env ?s1 ?s2" by (rule work_env.consumed) (simp_all add: work_start_def run_done_def)
  have run: "work_run work_start ?s2" unfolding work_run_def
    by (rule converse_rtranclp_into_rtranclp [where r = "\<lambda>s s'. work_step s s' \<or> work_env s s'", OF disjI2 [OF e1]],
        rule r_into_rtranclp [where r = "\<lambda>s s'. work_step s s' \<or> work_env s s'", OF disjI2 [OF e2]])
  have "work_step ?s2 ?s3" by (rule work_step.signal_first) (simp_all add: work_start_def)
  moreover have "work_step ?s3 ?s4" using work_step.drained [of ?s3 None] by simp
  moreover have "work_step ?s4 ?s5" by (rule work_step.pass_ends) (simp_all add: work_start_def run_done_def)
  moreover have "work_step ?s5 ?s6" by (rule work_step.joined) simp_all
  moreover have "work_step ?s6 work_end"
    using work_step.stopped [of ?s6 None] by (simp add: work_end_def work_start_def)
  ultimately have "(work_step ^^ Suc (Suc (Suc (Suc (Suc 0))))) ?s2 work_end"
    by (blast intro: relpowp_Suc_I relpowp_0_I)
  moreover have "Suc (Suc (Suc (Suc (Suc 0)))) = 5" by simp
  ultimately have "(work_step ^^ 5) ?s2 work_end" by (simp only:)
  with run show ?thesis by (intro exI [of _ ?s2]) simp
qed

lemma work_end_reached: "work_run work_start work_end"
proof -
  obtain s where s: "work_run work_start s" "(work_step ^^ 5) s work_end" using work_end_steps by blast
  have "work_step\<^sup>*\<^sup>* s work_end" by (rule relpowp_imp_rtranclp [OF s(2)])
  then have "(\<lambda>s s'. work_step s s' \<or> work_env s s')\<^sup>*\<^sup>* s work_end"
    by (rule rtranclp_mono [THEN predicate2D, rotated]) auto
  with s(1) show ?thesis unfolding work_run_def by (rule rtranclp_trans)
qed


end
