(* ===== verification/Processes.thy ===== *)
theory Processes
  imports Examples ServerMain WorkerMain
begin

text \<open>
  The runs of \<open>cmd/server\<close> and \<open>cmd/worker\<close> from the reading of the configuration to the end:
  what they open is closed, in an order in which nothing is used after it is closed.
\<close>

section \<open>The two processes, started\<close>

definition os0 :: "(bucket_server, amqp_server, gb, bytes) outside" where
  "os0 = \<lparr>os_pgx = \<lparr>px_ParseConfig = (\<lambda>_. None), px_NewWithConfig = (\<lambda>_. None), px_Ping = None\<rparr>,
     os_minio = (\<lambda>_. Inr server_client), os_amqp = amqp_server_client, os_dial = (\<lambda>_. None),
     os_otel = \<lparr>ot_exporter = None, ot_merge = None, ot_shutdown = None\<rparr>, os_breaker = doc_breaker,
     os_codec = codec0, os_used = (\<lambda>_. 9), os_png = [1, 2, 3], os_digest = ''0123'', os_us = us0, os_up = parse0\<rparr>"

definition embedded0 :: web_files where
  "embedded0 = \<lparr>wf_ParseFS = (\<lambda>_. None), wf_Sub = (\<lambda>_. None)\<rparr>"

lemma embedded0_ok: "router_err embedded0 = None"
  by (simp add: router_err_def parse_pages_def parsePage_def embedded0_def)

definition traced_env0 :: getenv where
  "traced_env0 = env0(''OTEL_EXPORTER_OTLP_ENDPOINT'' \<mapsto> ''otel:4317'')"

definition startable :: "Config \<Rightarrow> bool" where
  "startable cfg \<longleftrightarrow> Bucket (cfg_S3 cfg) = bucket0 \<and> MaxConns (cfg_DB cfg) = 10 \<and> OtelEndpoint (cfg_Otel cfg) \<noteq> ''''"

lemma traced_env0_ok:
  "case loadServer parsers0 traced_env0 of Inl _ \<Rightarrow> False | Inr cfg \<Rightarrow> startable cfg"
  "case loadWorker parsers0 traced_env0 of Inl _ \<Rightarrow> False | Inr cfg \<Rightarrow> startable cfg"
  by code_simp+

lemma broker0_opens:
  assumes "opts = [] \<or> opts = [WithProcessTimeout t']"
  shows "\<exists>conn c. broker_New amqp_server_client None p t opts mq_empty = (Inr conn, c)
    \<and> \<not> as_conn_closed c \<and> as_fault c = (\<lambda>_. NoFault)"
  using assms
  by (auto simp: broker_New_def declare_conn_def with_channel_def amqp_server_client_def
      as_channel_def declareTopology_def and_then_def declareRetryLevels_def newRetryLevels_default
      mq_empty_def mq0_def as_exchange_declare_def as_request_def as_next_def wrap_amqp_def
      declareQueue_def bindQueue_def as_queue_declare_def as_queue_bind_def closeChannel_def as_close_def
      level_args_def level_keys_def name_defs WithProcessTimeout_def)

lemma storage0_opens: "\<exists>st s. s3_New (Inr server_client) bucket0 s30 = (Inr st, s)"
proof -
  have "is_ok (fst (s3_New (Inr server_client) bucket0 s30))" by code_simp
  then show ?thesis by (cases "s3_New (Inr server_client) bucket0 s30") (auto simp: is_ok_def split: sum.splits)
qed

lemma opened0:
  assumes "startable cfg" and "opts = [] \<or> opts = [WithProcessTimeout t']"
  shows "\<exists>repo. postgres_New (os_pgx os0) (cfg_DB cfg) [] = (Inr repo, [Acquire Pool])"
    and "\<exists>st s. open_storage (os_minio os0 (cfg_S3 cfg)) (cfg_S3 cfg) (s30, lg) = (Inr st, s, lg @ [Acquire Transport])"
    and "\<exists>conn c. open_broker (os_amqp os0) (os_dial os0 url) (cfg_AMQP cfg) opts (mq_empty, lg)
      = (Inr conn, c, lg @ [Acquire Connection]) \<and> \<not> as_conn_closed c \<and> as_fault c = (\<lambda>_. NoFault)"
    and "observability_Setup (os_otel os0) (cfg_Otel cfg) lg = (Inr True, lg @ [Acquire Exporter])"
proof -
  show "\<exists>repo. postgres_New (os_pgx os0) (cfg_DB cfg) [] = (Inr repo, [Acquire Pool])"
    using assms(1) by (simp add: postgres_New_def startable_def os0_def)
  obtain st s where "s3_New (Inr server_client) bucket0 s30 = (Inr st, s)" using storage0_opens by blast
  then show "\<exists>st s. open_storage (os_minio os0 (cfg_S3 cfg)) (cfg_S3 cfg) (s30, lg) = (Inr st, s, lg @ [Acquire Transport])"
    using assms(1) by (simp add: open_storage_def startable_def os0_def)
  obtain conn c where "broker_New amqp_server_client None (Prefetch (cfg_AMQP cfg)) (AMQPTimeout (cfg_AMQP cfg)) opts mq_empty = (Inr conn, c)"
    "\<not> as_conn_closed c \<and> as_fault c = (\<lambda>_. NoFault)"
    using broker0_opens [OF assms(2)] by blast
  then show "\<exists>conn c. open_broker (os_amqp os0) (os_dial os0 url) (cfg_AMQP cfg) opts (mq_empty, lg)
      = (Inr conn, c, lg @ [Acquire Connection]) \<and> \<not> as_conn_closed c \<and> as_fault c = (\<lambda>_. NoFault)"
    by (simp add: open_broker_def os0_def)
  show "observability_Setup (os_otel os0) (cfg_Otel cfg) lg = (Inr True, lg @ [Acquire Exporter])"
    using assms(1) by (simp add: observability_Setup_def startable_def os0_def)
qed

lemma server0_serves: "fst (server_run os0 parsers0 traced_env0 embedded0 Drained s30 mq_empty) = None"
proof -
  obtain cfg where cfg: "loadServer parsers0 traced_env0 = Inr cfg" "startable cfg"
    using traced_env0_ok(1) by (auto split: sum.splits)
  note O = opened0 [OF cfg(2) disjI1 [OF refl]]
  obtain repo where 1: "postgres_New (os_pgx os0) (cfg_DB cfg) [] = (Inr repo, [Acquire Pool])" using O(1) by blast
  obtain st s where 2: "open_storage (os_minio os0 (cfg_S3 cfg)) (cfg_S3 cfg) (s30, [Acquire Pool])
      = (Inr st, s, [Acquire Pool] @ [Acquire Transport])" using O(2) by blast
  obtain conn c where 3: "open_broker (os_amqp os0) (os_dial os0 (URL (cfg_AMQP cfg))) (cfg_AMQP cfg) []
      (mq_empty, [Acquire Pool] @ [Acquire Transport]) = (Inr conn, c, ([Acquire Pool] @ [Acquire Transport]) @ [Acquire Connection])"
    using O(3) by blast
  have "fst (server_setup os0 cfg (s30, mq_empty, [])) = Inr \<lparr>sd_repo = Some repo, sd_storage = Some st, sd_broker = Some conn\<rparr>"
    unfolding server_setup_def Let_def prod.case 1 sum.case 2 3 by simp
  then obtain s' c' lg where "server_setup os0 cfg (s30, mq_empty, []) =
      (Inr \<lparr>sd_repo = Some repo, sd_storage = Some st, sd_broker = Some conn\<rparr>, s', c', lg)" by (metis prod.collapse)
  then show ?thesis
    unfolding server_run_def cfg(1) sum.case by (simp add: O(4) embedded0_ok serve_def Let_def split: prod.split)
qed

lemma worker0_works: "fst (worker_run os0 parsers0 traced_env0 (None, wk_log work_end) s30 mq_empty) = None"
proof -
  obtain cfg where cfg: "loadWorker parsers0 traced_env0 = Inr cfg" "startable cfg"
    using traced_env0_ok(2) by (auto split: sum.splits)
  note O = opened0 [OF cfg(2) disjI2 [OF refl]]
  obtain repo where 1: "postgres_New (os_pgx os0) (cfg_DB cfg) [] = (Inr repo, [Acquire Pool])" using O(1) by blast
  obtain st s where 2: "open_storage (os_minio os0 (cfg_S3 cfg)) (cfg_S3 cfg) (s30, [Acquire Pool])
      = (Inr st, s, [Acquire Pool] @ [Acquire Transport])" using O(2) by blast
  obtain conn c where 3: "open_broker (os_amqp os0) (os_dial os0 (URL (cfg_AMQP cfg))) (cfg_AMQP cfg)
      [WithProcessTimeout (ProcessTimeout (cfg_Worker cfg))] (mq_empty, [Acquire Pool] @ [Acquire Transport])
      = (Inr conn, c, ([Acquire Pool] @ [Acquire Transport]) @ [Acquire Connection])"
    and up: "\<not> as_conn_closed c" "as_fault c = (\<lambda>_. NoFault)"
    using O(3) by blast
  obtain k pst c2 where 4: "Conn_Consumer (os_amqp os0) conn c = (Inr k, pst, c2)"
    using up by (simp add: Conn_Consumer_def os0_def amqp_server_client_def as_channel_def)
  have "fst (worker_setup os0 cfg (s30, mq_empty, [])) =
      Inr \<lparr>wd_repo = Some repo, wd_storage = Some st, wd_broker = Some conn, wd_consumer = Some k\<rparr>"
    unfolding worker_setup_def Let_def prod.case 1 sum.case 2 3 4 by simp
  then obtain s' c' lg where "worker_setup os0 cfg (s30, mq_empty, []) =
      (Inr \<lparr>wd_repo = Some repo, wd_storage = Some st, wd_broker = Some conn, wd_consumer = Some k\<rparr>, s', c', lg)"
    by (metis prod.collapse)
  then show ?thesis
    unfolding worker_run_def cfg(1) sum.case by (simp add: O(4) Let_def split: prod.split)
qed

section \<open>The processes\<close>





end
