(* ===== verification/ConfigDefaults.thy ===== *)
theory ConfigDefaults
  imports Configuration
begin

text \<open>
  The variables and the defaults of \<open>internal/config\<close>: which part of the environment a process
  depends on, and what it runs with when nothing but the addresses and keys is declared.
\<close>

section \<open>The variables\<close>

definition variables :: "string list" where
  "variables =
     [''APP_ENV'', ''LOG_LEVEL'', ''LOG_FORMAT'',
      ''HTTP_ADDR'', ''HTTP_READ_HEADER_TIMEOUT'', ''HTTP_READ_TIMEOUT'', ''HTTP_WRITE_TIMEOUT'', ''HTTP_IDLE_TIMEOUT'',
      ''HTTP_SHUTDOWN_TIMEOUT'', ''HTTP_REQUEST_TIMEOUT'',
      ''RATE_LIMIT_RPS'', ''RATE_LIMIT_BURST'',
      ''DATABASE_DSN'', ''DB_MAX_CONNS'', ''DB_QUERY_TIMEOUT'',
      ''S3_ENDPOINT'', ''S3_ACCESS_KEY'', ''S3_SECRET_KEY'', ''S3_BUCKET'', ''S3_REGION'', ''S3_USE_SSL'', ''S3_TIMEOUT'',
      ''AMQP_URL'', ''AMQP_PREFETCH'', ''AMQP_TIMEOUT'',
      ''OTEL_EXPORTER_OTLP_ENDPOINT'', ''OTEL_EXPORTER_OTLP_INSECURE'', ''OTEL_TRACES_SAMPLE_RATIO'',
      ''IMAGE_MAX_UPLOAD_BYTES'', ''IMAGE_MAX_PIXELS'', ''IMAGE_JPEG_QUALITY'',
      ''WORKER_PROCESS_TIMEOUT'', ''WORKER_RECONCILE_INTERVAL'', ''WORKER_STUCK_AFTER'', ''WORKER_RECONCILE_BATCH'',
      ''WORKER_DECODE_CONCURRENCY'', ''WORKER_METRICS_ADDR'', ''WORKER_SHUTDOWN_TIMEOUT'']"

section \<open>The defaults\<close>

text \<open>The addresses and keys, which have none.\<close>

record required_settings =
  rs_DSN :: string
  rs_Endpoint :: string
  rs_AccessKey :: string
  rs_SecretKey :: string
  rs_URL :: string

definition default_Config :: "required_settings \<Rightarrow> Config" where
  "default_Config r =
     \<lparr>cfg_App = \<lparr>Env = EnvLocal, LogLevel = LevelInfo, LogFormat = FormatText\<rparr>,
      cfg_HTTP = \<lparr>Addr = '':8080'', ReadHeaderTimeout = 5 * Second, ReadTimeout = 3 * Minute, WriteTimeout = 60 * Second,
        IdleTimeout = 2 * Minute, ShutdownTimeout = 15 * Second, RequestTimeout = 30 * Second\<rparr>,
      cfg_RateLimit = \<lparr>RPS = Finite 0, Burst = 0\<rparr>,
      cfg_DB = \<lparr>DSN = rs_DSN r, MaxConns = 10, QueryTimeout = 5 * Second\<rparr>,
      cfg_S3 = \<lparr>Endpoint = rs_Endpoint r, AccessKey = rs_AccessKey r, SecretKey = rs_SecretKey r,
        Bucket = ''avatars'', Region = ''us-east-1'', UseSSL = False, S3Timeout = 15 * Second\<rparr>,
      cfg_AMQP = \<lparr>URL = rs_URL r, Prefetch = 8, AMQPTimeout = 10 * Second\<rparr>,
      cfg_Otel = \<lparr>OtelEndpoint = '''', Insecure = False, SampleRatio = Finite 1\<rparr>,
      cfg_Image = \<lparr>MaxUploadBytes = 10 * 2 ^ 20, MaxPixels = 50000000, JPEGQuality = 85\<rparr>,
      cfg_Worker = \<lparr>ProcessTimeout = 60 * Second, ReconcileInterval = Minute, StuckAfter = 5 * Minute,
        ReconcileBatch = 100, DecodeConcurrency = 2, MetricsAddr = '':9090'', WorkerShutdownTimeout = 75 * Second\<rparr>\<rparr>"

text \<open>An environment that declares these five and nothing else.\<close>

definition required_env :: "required_settings \<Rightarrow> getenv" where
  "required_env r =
     [''DATABASE_DSN'' \<mapsto> rs_DSN r, ''S3_ENDPOINT'' \<mapsto> rs_Endpoint r, ''S3_ACCESS_KEY'' \<mapsto> rs_AccessKey r,
      ''S3_SECRET_KEY'' \<mapsto> rs_SecretKey r, ''AMQP_URL'' \<mapsto> rs_URL r]"

section \<open>Loading\<close>

text \<open>Nothing else of the environment matters.\<close>

lemma load_variables:
  assumes "\<forall>v\<in>set variables. env v = env' v"
  shows "load P env = load P env'"
proof -
  have "run_state (read_all P env) [] = run_state (read_all P env') []"
    unfolding read_all_def section_defs reader_defs using assms
    by (simp add: State_Monad.bind_def read_val_def read_err_def variables_def)
  then show ?thesis by (simp add: load_def)
qed

lemma load_required: "load P (required_env r) = Inr (default_Config r)"
proof -
  have "run_state (read_all P (required_env r)) [] = (default_Config r, [])"
    unfolding read_all_def section_defs reader_defs
    by (simp add: State_Monad.bind_def read_val_def read_err_def required_env_def default_Config_def
        defaultLogFormat_def EnvLocal_def)
  then show ?thesis by (simp add: load_def errors_Join_def)
qed

definition given :: "required_settings \<Rightarrow> bool" where
  "given r \<longleftrightarrow> rs_DSN r \<noteq> '''' \<and> rs_Endpoint r \<noteq> '''' \<and> rs_AccessKey r \<noteq> '''' \<and> rs_SecretKey r \<noteq> '''' \<and> rs_URL r \<noteq> ''''"

text \<open>
  A process that is given the addresses of its dependencies and the keys of its storage, and
  nothing else of its own variables, starts, and with the documented defaults; it does not start
  if one of the five is empty. What else the environment has does not matter.
\<close>

theorem minimal_environment_starts:
  assumes "\<forall>v\<in>set variables. env v = required_env r v"
  shows "(loadServer P env = Inr cfg \<longleftrightarrow> given r \<and> cfg = default_Config r)
    \<and> (loadWorker P env = Inr cfg \<longleftrightarrow> given r \<and> cfg = default_Config r)
    \<and> (loadMigrator P env = Inr cfg \<longleftrightarrow> rs_DSN r \<noteq> '''' \<and> cfg = default_Config r)"
proof -
  have load: "load P env = Inr (default_Config r)"
    using load_variables [OF assms] load_required by simp
  have v: "App_validate (cfg_App (default_Config r)) = None" "HTTP_validate (cfg_HTTP (default_Config r)) = None"
    "RateLimit_validate (cfg_RateLimit (default_Config r)) = None"
    "DB_validate (cfg_DB (default_Config r)) = None \<longleftrightarrow> rs_DSN r \<noteq> ''''"
    "S3_validate (cfg_S3 (default_Config r)) = None \<longleftrightarrow> rs_Endpoint r \<noteq> '''' \<and> rs_AccessKey r \<noteq> '''' \<and> rs_SecretKey r \<noteq> ''''"
    "AMQP_validate (cfg_AMQP (default_Config r)) = None \<longleftrightarrow> rs_URL r \<noteq> ''''"
    "Otel_validate (cfg_Otel (default_Config r)) = None" "Image_validate (cfg_Image (default_Config r)) = None"
    "Worker_validate (cfg_Worker (default_Config r)) = None"
    by (simp_all add: default_Config_def validate_None required_def positive_def positiveDuration_def EnvLocal_def)
  have "loadServer P env = Inr cfg \<longleftrightarrow> given r \<and> cfg = default_Config r"
    using v by (auto simp: loadServer_ok load given_def)
  moreover have "loadWorker P env = Inr cfg \<longleftrightarrow> given r \<and> cfg = default_Config r"
    using v by (auto simp: loadWorker_ok load given_def)
  moreover have "loadMigrator P env = Inr cfg \<longleftrightarrow> rs_DSN r \<noteq> '''' \<and> cfg = default_Config r"
  proof -
    show ?thesis using v(1,4)
      by (cases "DB_validate (cfg_DB (default_Config r))")
        (auto simp: loadMigrator_def load errors_Join_def List.map_filter_def)
  qed
  ultimately show ?thesis by blast
qed

theorem minimal_environment_starts_witness:
  "\<exists>cfg. loadServer parsers0 (required_env \<lparr>rs_DSN = ''d'', rs_Endpoint = ''e'', rs_AccessKey = ''a'', rs_SecretKey = ''s'', rs_URL = ''u''\<rparr>)
     = Inr cfg \<and> Prefetch (cfg_AMQP cfg) = 8"
proof -
  let ?r = "\<lparr>rs_DSN = ''d'', rs_Endpoint = ''e'', rs_AccessKey = ''a'', rs_SecretKey = ''s'', rs_URL = ''u''\<rparr>"
  have "loadServer parsers0 (required_env ?r) = Inr (default_Config ?r)"
    using minimal_environment_starts [of "required_env ?r" ?r parsers0 "default_Config ?r"] by (simp add: given_def)
  then show ?thesis by (simp add: default_Config_def)
qed

end
