(* ===== verification/Connections.thy ===== *)
theory Connections
  imports Lifecycle
begin

text \<open>
  How the processes reach their dependencies, and what says which build they are: \<open>dial\<close> of
  \<open>internal/broker\<close>, the transport of \<open>internal/storage/s3\<close>, the listener of the metrics in
  \<open>cmd/worker\<close>, and package \<open>internal/buildinfo\<close>.
\<close>

section \<open>Dialling the broker\<close>

definition broker_dialTimeout :: duration where "broker_dialTimeout = 5 * Second"

text \<open>
  What the network answers: \<open>DialContext\<close> for a time limit, the clock after it, and \<open>SetDeadline\<close>
  of the connection. The connection is noted like the other resources.
\<close>

record net =
  net_Dial :: "duration \<Rightarrow> error option"
  net_Now :: time
  net_SetDeadline :: "time \<Rightarrow> error option"

text \<open>The result is the deadline of the handshake; \<open>ctx\<close> is the deadline of the context, if any.\<close>

definition dial :: "net \<Rightarrow> time option \<Rightarrow> life list \<Rightarrow> (error + time) \<times> life list" where
  "dial N ctx lg =
     (case net_Dial N broker_dialTimeout of
        Some e \<Rightarrow> (Inl (wrapf e), lg)
      | None \<Rightarrow>
          (let lg = lg @ [Acquire Connection];
               deadline = net_Now N + broker_dialTimeout;
               deadline = (case ctx of Some d \<Rightarrow> if d < deadline then d else deadline | None \<Rightarrow> deadline)
           in case net_SetDeadline N deadline of
                Some e \<Rightarrow> (Inl (wrapf e), lg @ [Release Connection])
              | None \<Rightarrow> (Inr deadline, lg)))"

text \<open>
  The handshake cannot outlast five seconds or the context, and a connection that cannot be
  limited is closed again.
\<close>

theorem dial_limited:
  assumes "dial N ctx lg = (res, lg')" and "orderly st lg = Some h" and "idle h"
  shows "case res of
      Inl e \<Rightarrow> orderly st lg' = Some h
    | Inr d \<Rightarrow> orderly st lg' = Some (Connection # h) \<and> d \<le> net_Now N + broker_dialTimeout
        \<and> (\<forall>c. ctx = Some c \<longrightarrow> d \<le> c) \<and> net_SetDeadline N d = None"
  using assms by (auto simp: dial_def Let_def orderly_append split: option.splits if_splits)

section \<open>Limits of the HTTP clients and listeners\<close>

text \<open>In \<open>net/http\<close> a limit of zero is no limit.\<close>

record http_Transport =
  tr_DialTimeout :: duration
  tr_TLSHandshakeTimeout :: duration
  tr_ResponseHeaderTimeout :: duration
  tr_IdleConnTimeout :: duration
  tr_MaxIdleConnsPerHost :: nat

definition s3_dialTimeout :: duration where "s3_dialTimeout = 5 * Second"
definition tlsHandshakeTimeout :: duration where "tlsHandshakeTimeout = 5 * Second"
definition responseHeaderTimeout :: duration where "responseHeaderTimeout = 10 * Second"
definition idleConnTimeout :: duration where "idleConnTimeout = 90 * Second"
definition maxIdleConnsPerHost :: nat where "maxIdleConnsPerHost = 16"

definition newTransport :: http_Transport where
  "newTransport =
     \<lparr>tr_DialTimeout = s3_dialTimeout, tr_TLSHandshakeTimeout = tlsHandshakeTimeout,
      tr_ResponseHeaderTimeout = responseHeaderTimeout, tr_IdleConnTimeout = idleConnTimeout,
      tr_MaxIdleConnsPerHost = maxIdleConnsPerHost\<rparr>"

record http_Limits =
  hl_ReadHeaderTimeout :: duration
  hl_ReadTimeout :: duration
  hl_WriteTimeout :: duration
  hl_IdleTimeout :: duration

definition metricsReadHeaderTimeout :: duration where "metricsReadHeaderTimeout = 5 * Second"
definition metricsReadTimeout :: duration where "metricsReadTimeout = 10 * Second"
definition metricsWriteTimeout :: duration where "metricsWriteTimeout = 10 * Second"
definition metricsIdleTimeout :: duration where "metricsIdleTimeout = Minute"

definition metrics_limits :: http_Limits where
  "metrics_limits =
     \<lparr>hl_ReadHeaderTimeout = metricsReadHeaderTimeout, hl_ReadTimeout = metricsReadTimeout,
      hl_WriteTimeout = metricsWriteTimeout, hl_IdleTimeout = metricsIdleTimeout\<rparr>"

text \<open>The listener of \<open>cmd/server\<close>.\<close>

definition server_limits :: "HTTP \<Rightarrow> http_Limits" where
  "server_limits c =
     \<lparr>hl_ReadHeaderTimeout = ReadHeaderTimeout c, hl_ReadTimeout = ReadTimeout c,
      hl_WriteTimeout = WriteTimeout c, hl_IdleTimeout = IdleTimeout c\<rparr>"

definition limited :: "http_Limits \<Rightarrow> bool" where
  "limited l \<longleftrightarrow> 0 < hl_ReadHeaderTimeout l \<and> 0 < hl_ReadTimeout l \<and> 0 < hl_WriteTimeout l \<and> 0 < hl_IdleTimeout l"

text \<open>No listener of a process that starts waits for a client without a limit.\<close>

theorem listeners_limited:
  assumes "loadServer P env = Inr cfg"
  shows "limited (server_limits (cfg_HTTP cfg)) \<and> limited metrics_limits"
  using assms
  by (auto simp: loadServer_ok validate_None limited_def server_limits_def metrics_limits_def positiveDuration_def
      metricsReadHeaderTimeout_def metricsReadTimeout_def metricsWriteTimeout_def metricsIdleTimeout_def split: if_splits)

section \<open>Builds\<close>

text \<open>The linker may set the two variables of the package; without it they keep these values.\<close>

record Build =
  Version :: string
  Date :: string

record linked =
  ld_version :: "string option"
  ld_buildDate :: "string option"

definition build_version :: "linked \<Rightarrow> string" where
  "build_version ld = (case ld_version ld of None \<Rightarrow> ''dev'' | Some v \<Rightarrow> v)"

definition buildDate :: "linked \<Rightarrow> string" where
  "buildDate ld = (case ld_buildDate ld of None \<Rightarrow> ''unknown'' | Some d \<Rightarrow> d)"

definition buildinfo_Get :: "linked \<Rightarrow> Build" where
  "buildinfo_Get ld = \<lparr>Version = build_version ld, Date = buildDate ld\<rparr>"

text \<open>A group of attributes.\<close>

definition LogValue :: "Build \<Rightarrow> (string \<times> string) list" where
  "LogValue b = [(''version'', Version b), (''date'', Date b)]"

end
