(* ===== verification/Migrator.thy ===== *)
theory Migrator
  imports Lifecycle
begin

text \<open>
  \<open>cmd/migrator\<close> and \<open>internal/migrate\<close>: the process that applies the embedded migrations and
  ends. Goose is a parameter; what it promises is the locale \<open>goose_up\<close>.
\<close>

section \<open>The libraries\<close>

text \<open>
  The database driver behind \<open>database/sql\<close>, and goose on a database in the state \<open>'t\<close>: building
  the provider over the embedded files, and \<open>Up\<close> with the versions of its results.
\<close>

record sql_db =
  db_Open :: "string \<Rightarrow> error option"
  db_Ping :: "error option"
  db_Close :: "error option"

record 't goose =
  gs_NewProvider :: "error option"
  gs_Up :: "'t \<Rightarrow> (error + int list) \<times> 't"

section \<open>The program\<close>

definition migrate_Up :: "'t goose \<Rightarrow> 't \<Rightarrow> (error + int list) \<times> 't" where
  "migrate_Up G t =
     (case gs_NewProvider G of
        Some e \<Rightarrow> (Inl (wrapf e), t)
      | None \<Rightarrow>
          (case gs_Up G t of
             (Inl e, t) \<Rightarrow> (Inl (wrapf e), t)
           | (Inr versions, t) \<Rightarrow> (Inr versions, t)))"

text \<open>The deferred closing reports its own error only when nothing else has failed.\<close>

definition db_closed :: "sql_db \<Rightarrow> error option \<Rightarrow> life list \<Rightarrow> error option \<times> life list" where
  "db_closed L err lg =
     ((case db_Close L of
         Some closeErr \<Rightarrow> if err = None then Some (wrapf closeErr) else err
       | None \<Rightarrow> err), lg @ [Release Pool])"

definition migrator_run ::
  "sql_db \<Rightarrow> 't goose \<Rightarrow> parsers \<Rightarrow> getenv \<Rightarrow> 't \<Rightarrow> error option \<times> 't \<times> life list" where
  "migrator_run L G P env t =
     (case loadMigrator P env of
        Inl e \<Rightarrow> (Some e, t, [])
      | Inr cfg \<Rightarrow>
          (case db_Open L (DSN (cfg_DB cfg)) of
             Some e \<Rightarrow> (Some (wrapf e), t, [])
           | None \<Rightarrow>
               (let lg = [Acquire Pool];
                    (err, t) =
                      (case db_Ping L of
                         Some e \<Rightarrow> (Some (wrapf e), t)
                       | None \<Rightarrow>
                           (case migrate_Up G t of
                              (Inl e, t) \<Rightarrow> (Some e, t)
                            | (Inr versions, t) \<Rightarrow> (None, t)));
                    (err, lg) = db_closed L err lg
                in (err, t, lg))))"

section \<open>What goose promises\<close>

text \<open>
  \<open>Up\<close> applies the embedded migrations that are not applied yet, in the order of their versions,
  and names them; if one fails, those before it stay applied.
\<close>

definition pending :: "int list \<Rightarrow> int list \<Rightarrow> int list" where
  "pending sources old = filter (\<lambda>v. v \<notin> set old) sources"

locale goose_up =
  fixes G :: "'t goose" and sources :: "int list" and applied :: "'t \<Rightarrow> int list"
  assumes Up_ok: "gs_Up G t = (Inr vs, t') \<Longrightarrow>
      vs = pending sources (applied t) \<and> applied t' = applied t @ vs"
    and Up_err: "gs_Up G t = (Inl e, t') \<Longrightarrow>
      \<exists>k. applied t' = applied t @ take k (pending sources (applied t))"
begin

lemma migrate_Up_cases:
  assumes "migrate_Up G t = (res, t')"
  shows "case res of
      Inr vs \<Rightarrow> vs = pending sources (applied t) \<and> applied t' = applied t @ vs
    | Inl _ \<Rightarrow> (\<exists>k. applied t' = applied t @ take k (pending sources (applied t)))"
proof (cases "gs_NewProvider G")
  case (Some e)
  with assms show ?thesis by (auto simp: migrate_Up_def intro: exI [of _ 0])
next
  case None
  obtain r u where up: "gs_Up G t = (r, u)" by fastforce
  with None assms Up_ok [of t _ u] Up_err [of t _ u] show ?thesis
    by (cases r) (auto simp: migrate_Up_def)
qed

text \<open>
  The migrator that ends without an error leaves the schema up to date; whatever happens, it has
  applied the first so many of the pending migrations and closed the database once if it was open.
\<close>

lemma run_spec:
  assumes "migrator_run L G P env t = (err, t', lg)"
  shows "\<exists>k. applied t' = applied t @ take k (pending sources (applied t))"
    and "err = None \<Longrightarrow> set sources \<subseteq> set (applied t')"
    and "orderly [] lg = Some []"
proof -
  have "(\<exists>k. applied t' = applied t @ take k (pending sources (applied t)))
    \<and> (err = None \<longrightarrow> set sources \<subseteq> set (applied t')) \<and> orderly [] lg = Some []"
  proof (cases "loadMigrator P env")
    case (Inl e)
    with assms show ?thesis by (auto simp: migrator_run_def intro: exI [of _ 0])
  next
    case cfg: (Inr cfg)
    show ?thesis
    proof (cases "db_Open L (DSN (cfg_DB cfg)) \<noteq> None \<or> db_Ping L \<noteq> None")
      case True
      with assms cfg show ?thesis
        by (auto simp: migrator_run_def db_closed_def split: option.splits if_splits intro: exI [of _ 0])
    next
      case False
      obtain res u where up: "migrate_Up G t = (res, u)" by fastforce
      from False cfg up assms have t': "t' = u" and lg: "lg = [Acquire Pool, Release Pool]"
        and err: "err = None \<Longrightarrow> is_ok res"
        by (auto simp: migrator_run_def db_closed_def is_ok_def split: option.splits if_splits sum.splits)
      show ?thesis
      proof (cases res)
        case (Inl e)
        with migrate_Up_cases [OF up] err t' lg show ?thesis by (auto simp: is_ok_def uses_def)
      next
        case (Inr vs)
        with migrate_Up_cases [OF up] have a: "applied u = applied t @ pending sources (applied t)" by simp
        then have "\<exists>k. applied u = applied t @ take k (pending sources (applied t))"
          by (intro exI [of _ "length (pending sources (applied t))"]) simp
        with a t' lg show ?thesis by (auto simp: pending_def uses_def)
      qed
    qed
  qed
  then show "\<exists>k. applied t' = applied t @ take k (pending sources (applied t))"
    and "err = None \<Longrightarrow> set sources \<subseteq> set (applied t')" and "orderly [] lg = Some []" by blast+
qed

end

section \<open>A goose\<close>

text \<open>The two embedded files, applied one after the other until one fails.\<close>

definition embedded :: "int list" where "embedded = [1, 2]"

fun apply_all :: "(int \<Rightarrow> error option) \<Rightarrow> int list \<Rightarrow> int list \<Rightarrow> (error + int list) \<times> int list" where
  "apply_all fault [] t = (Inr [], t)"
| "apply_all fault (v # vs) t =
     (case fault v of
        Some e \<Rightarrow> (Inl e, t)
      | None \<Rightarrow>
          (case apply_all fault vs (t @ [v]) of
             (Inl e, t) \<Rightarrow> (Inl e, t)
           | (Inr ws, t) \<Rightarrow> (Inr (v # ws), t)))"

definition list_goose :: "(int \<Rightarrow> error option) \<Rightarrow> int list goose" where
  "list_goose fault = \<lparr>gs_NewProvider = None, gs_Up = (\<lambda>t. apply_all fault (pending embedded t) t)\<rparr>"

lemma apply_all_spec:
  "apply_all fault vs t = (res, t') \<Longrightarrow>
     (case res of Inr ws \<Rightarrow> ws = vs \<and> t' = t @ vs | Inl _ \<Rightarrow> (\<exists>k. t' = t @ take k vs))"
proof (induction vs arbitrary: t res t')
  case (Cons v vs)
  show ?case
  proof (cases "fault v")
    case (Some e)
    with Cons.prems show ?thesis by (auto intro: exI [of _ 0])
  next
    case None
    obtain r u where r: "apply_all fault vs (t @ [v]) = (r, u)" by fastforce
    note IH = Cons.IH [OF r]
    show ?thesis
    proof (cases r)
      case (Inl e)
      with IH obtain k where "u = t @ take (Suc k) (v # vs)" by auto
      with None r Inl Cons.prems show ?thesis by (auto simp del: take_Suc_Cons)
    next
      case (Inr ws)
      with None r IH Cons.prems show ?thesis by auto
    qed
  qed
qed simp

interpretation gs_list: goose_up "list_goose fault" embedded "\<lambda>t. t"
  by unfold_locales (auto simp: list_goose_def dest: apply_all_spec)

text \<open>
  (C40) However often the migrator is run against a database, and wherever runs fail in between, the
  one that ends without an error leaves both migrations applied, each once.
\<close>

theorem migrator_completes:
  assumes "goose_up G sources applied" and "migrator_run L G P env t = (err, t', lg)"
    and "distinct sources" and "distinct (applied t)"
  shows "distinct (applied t') \<and> orderly [] lg = Some []
    \<and> (err = None \<longrightarrow> set sources \<subseteq> set (applied t')
        \<and> (\<forall>err2 t2 lg2. migrator_run L G P env t' = (err2, t2, lg2) \<longrightarrow> applied t2 = applied t'))"
proof -
  note R = goose_up.run_spec [OF assms(1,2)]
  from R(1) obtain k where k: "applied t' = applied t @ take k (pending sources (applied t))" by blast
  have "distinct (pending sources (applied t))" "set (pending sources (applied t)) \<inter> set (applied t) = {}"
    using assms(3) by (auto simp: pending_def)
  then have "distinct (applied t')" using assms(4) k by (auto dest: in_set_takeD)
  moreover have "applied t2 = applied t'" if "err = None" "migrator_run L G P env t' = (err2, t2, lg2)" for err2 t2 lg2
  proof -
    have "pending sources (applied t') = []" using R(2) [OF that(1)] by (auto simp: pending_def filter_empty_conv)
    with goose_up.run_spec(1) [OF assms(1) that(2)] show ?thesis by simp
  qed
  ultimately show ?thesis using R(2,3) by blast
qed

definition migrator_db0 :: sql_db where
  "migrator_db0 = \<lparr>db_Open = (\<lambda>_. None), db_Ping = None, db_Close = None\<rparr>"

theorem migrator_completes_witness:
  "migrator_run migrator_db0 (list_goose (\<lambda>_. None)) parsers0 env0 [1] = (None, [1, 2], [Acquire Pool, Release Pool])
   \<and> fst (snd (migrator_run migrator_db0 (list_goose (\<lambda>_. None)) parsers0 env0 [1, 2])) = [1, 2]"
proof -
  have run: "migrator_run migrator_db0 (list_goose (\<lambda>_. None)) parsers0 env0 [1] = (None, [1, 2], [Acquire Pool, Release Pool])"
    by code_simp
  obtain err2 t2 lg2 where again: "migrator_run migrator_db0 (list_goose (\<lambda>_. None)) parsers0 env0 [1, 2] = (err2, t2, lg2)"
    by (rule prod_cases3)
  from migrator_completes [OF gs_list.goose_up_axioms run] again run show ?thesis by (simp add: embedded_def)
qed

end
