(* ===== verification/Logging.thy ===== *)
theory Logging
  imports Configuration
begin

text \<open>
  Package \<open>internal/logger\<close>: the logger of a process and what a record takes from the context of
  its request. A handler of \<open>slog\<close> is its format, its level and the scopes opened on it; what it
  writes is a line of these and the record.
\<close>

section \<open>Handlers of slog\<close>

type_synonym attr = "string \<times> string"

datatype scope = With "attr list" | WithGroup string

record slog_Handler =
  sh_Format :: string
  sh_Level :: int
  sh_Scopes :: "scope list"

record Record =
  rec_Level :: int
  rec_Message :: string
  rec_Attrs :: "attr list"

type_synonym line = "string \<times> scope list \<times> Record"

definition NewTextHandler :: "int \<Rightarrow> slog_Handler" where
  "NewTextHandler level = \<lparr>sh_Format = FormatText, sh_Level = level, sh_Scopes = []\<rparr>"

definition NewJSONHandler :: "int \<Rightarrow> slog_Handler" where
  "NewJSONHandler level = \<lparr>sh_Format = FormatJSON, sh_Level = level, sh_Scopes = []\<rparr>"

definition slog_Handle :: "slog_Handler \<Rightarrow> Record \<Rightarrow> line" where
  "slog_Handle h r = (sh_Format h, sh_Scopes h, r)"

text \<open>\<open>Handler.WithAttrs\<close> and \<open>Handler.WithGroup\<close> of the standard handlers.\<close>

definition slog_With :: "scope \<Rightarrow> slog_Handler \<Rightarrow> slog_Handler" where
  "slog_With s h = h\<lparr>sh_Scopes := sh_Scopes h @ [s]\<rparr>"

section \<open>The context\<close>

text \<open>
  The identifier a request was given, if any, and the coordinates of the active span, if there
  is a valid one.
\<close>

record ctx =
  ctx_requestID :: "string option"
  ctx_span :: "(string \<times> string) option"

definition WithRequestID :: "ctx \<Rightarrow> string \<Rightarrow> ctx" where
  "WithRequestID c i = c\<lparr>ctx_requestID := Some i\<rparr>"

definition RequestID :: "ctx \<Rightarrow> string" where
  "RequestID c = (case ctx_requestID c of None \<Rightarrow> '''' | Some i \<Rightarrow> i)"

section \<open>The wrapping handler\<close>

definition requestIDAttr :: string where "requestIDAttr = ''request_id''"
definition traceIDAttr :: string where "traceIDAttr = ''trace_id''"
definition spanIDAttr :: string where "spanIDAttr = ''span_id''"

datatype contextHandler = ContextHandler slog_Handler

definition AddAttrs :: "attr list \<Rightarrow> Record \<Rightarrow> Record" where
  "AddAttrs as r = r\<lparr>rec_Attrs := rec_Attrs r @ as\<rparr>"

fun ctx_Handle :: "contextHandler \<Rightarrow> ctx \<Rightarrow> Record \<Rightarrow> line" where
  "ctx_Handle (ContextHandler h) c r =
     (let i = RequestID c;
          r = (if i \<noteq> '''' then AddAttrs [(requestIDAttr, i)] r else r);
          r = (case ctx_span c of
                 Some (traceID, spanID) \<Rightarrow> AddAttrs [(traceIDAttr, traceID), (spanIDAttr, spanID)] r
               | None \<Rightarrow> r)
      in slog_Handle h r)"

fun ctx_WithAttrs :: "contextHandler \<Rightarrow> attr list \<Rightarrow> contextHandler" where
  "ctx_WithAttrs (ContextHandler h) as = ContextHandler (slog_With (With as) h)"

fun ctx_WithGroup :: "contextHandler \<Rightarrow> string \<Rightarrow> contextHandler" where
  "ctx_WithGroup (ContextHandler h) g = ContextHandler (slog_With (WithGroup g) h)"

definition logger_New :: "int \<Rightarrow> string \<Rightarrow> contextHandler" where
  "logger_New level format =
     (let h = (if format = FormatText then NewTextHandler level
               else if format = FormatJSON then NewJSONHandler level
               else NewJSONHandler level)
      in ContextHandler h)"

text \<open>
  \<open>slog.Logger\<close> on a handler: \<open>With\<close> and \<open>WithGroup\<close> in any order, and a call that is written
  when its level is enabled. An empty list or name changes nothing.
\<close>

fun derive :: "contextHandler \<Rightarrow> scope list \<Rightarrow> contextHandler" where
  "derive h [] = h"
| "derive h (With as # ss) = derive (if as = [] then h else ctx_WithAttrs h as) ss"
| "derive h (WithGroup g # ss) = derive (if g = '''' then h else ctx_WithGroup h g) ss"

fun log_ctx :: "contextHandler \<Rightarrow> ctx \<Rightarrow> Record \<Rightarrow> line option" where
  "log_ctx (ContextHandler h) c r =
     (if sh_Level h \<le> rec_Level r then Some (ctx_Handle (ContextHandler h) c r) else None)"

section \<open>Every record can be traced to its request\<close>

lemma derive_spec:
  "\<exists>ss'. derive (ContextHandler h) ss = ContextHandler (h\<lparr>sh_Scopes := sh_Scopes h @ ss'\<rparr>)"
proof (induction ss arbitrary: h)
  case Nil
  then show ?case by (intro exI [of _ "[]"]) simp
next
  case (Cons s ss)
  have step: "\<exists>h1 xs. derive (ContextHandler h) (s # ss) = derive (ContextHandler h1) ss
      \<and> h1 = h\<lparr>sh_Scopes := sh_Scopes h @ xs\<rparr>"
  proof (cases "s = With [] \<or> s = WithGroup ''''")
    case True
    then show ?thesis by (intro exI [of _ h] exI [of _ "[]"]) auto
  next
    case False
    then show ?thesis by (cases s) (auto simp: slog_With_def)
  qed
  then obtain h1 xs where h1: "derive (ContextHandler h) (s # ss) = derive (ContextHandler h1) ss"
    "h1 = h\<lparr>sh_Scopes := sh_Scopes h @ xs\<rparr>" by blast
  from Cons.IH [of h1] obtain ys where "derive (ContextHandler h1) ss = ContextHandler (h1\<lparr>sh_Scopes := sh_Scopes h1 @ ys\<rparr>)" ..
  with h1 show ?case by (intro exI [of _ "xs @ ys"]) simp
qed

text \<open>
  Whatever loggers were derived from the one of the process, a record is written exactly when its
  level is enabled, as text only in the text format, and carries the identifier of its request
  and the span, if there are such, after its own attributes.
\<close>

theorem log_correlates:
  "log_ctx (derive (logger_New level format) ss) (WithRequestID c i) r =
     (if level \<le> rec_Level r
      then Some (if format = FormatText then FormatText else FormatJSON,
                 sh_Scopes (case derive (logger_New level format) ss of ContextHandler h \<Rightarrow> h),
                 r\<lparr>rec_Attrs := rec_Attrs r @ (if i = '''' then [] else [(requestIDAttr, i)])
                    @ (case ctx_span c of None \<Rightarrow> [] | Some (t, s) \<Rightarrow> [(traceIDAttr, t), (spanIDAttr, s)])\<rparr>)
      else None)"
proof -
  let ?h = "if format = FormatText then NewTextHandler level else NewJSONHandler level"
  have "logger_New level format = ContextHandler ?h" by (simp add: logger_New_def)
  with derive_spec [of ?h ss] obtain xs where
    "derive (logger_New level format) ss = ContextHandler (?h\<lparr>sh_Scopes := sh_Scopes ?h @ xs\<rparr>)" by auto
  then show ?thesis
    by (auto simp: WithRequestID_def RequestID_def AddAttrs_def slog_Handle_def NewTextHandler_def NewJSONHandler_def
        split: option.split)
qed

end
