(* ===== verification/Collectors.thy ===== *)
theory Collectors
  imports Postgres Broker
begin

text \<open>
  Package \<open>internal/metrics\<close>, what a scrape reads: the collector of the connection pool, the
  collector of the stored bytes. The counters are in \<open>Metrics\<close>. A metric of the
  Prometheus client is the data the code hands to it. Floating-point numbers are a parameter
  (record \<open>float64\<close>): the conversion of an integer and \<open>Duration.Seconds\<close>.
\<close>

section \<open>Metrics\<close>

record 'f float64 =
  of_int64 :: "int \<Rightarrow> 'f"
  Seconds :: "duration \<Rightarrow> 'f"

datatype ValueType = GaugeValue | CounterValue

record Desc =
  fqName :: string
  variableLabels :: "string list"

datatype 'f Metric = ConstMetric (m_desc: Desc) (m_type: ValueType) (m_value: 'f) (m_labels: "string list")

definition NewDesc :: "string \<Rightarrow> string list \<Rightarrow> Desc" where
  "NewDesc name labels = \<lparr>fqName = name, variableLabels = labels\<rparr>"

text \<open>\<open>MustNewConstMetric\<close> panics unless there is one value for each label.\<close>

definition labelled :: "'f Metric \<Rightarrow> bool" where
  "labelled m \<longleftrightarrow> length (m_labels m) = length (variableLabels (m_desc m))"

section \<open>The connection pool\<close>

text \<open>A snapshot of \<open>pgxpool\<close>'s statistics.\<close>

record Stat =
  AcquiredConns :: int
  IdleConns :: int
  ConstructingConns :: int
  StatMaxConns :: int
  AcquireCount :: int
  AcquireDuration :: duration
  EmptyAcquireCount :: int
  CanceledAcquireCount :: int
  NewConnsCount :: int
  MaxLifetimeDestroyCount :: int
  MaxIdleDestroyCount :: int

record 'w PoolCollector =
  pc_stat :: "'w \<Rightarrow> Stat \<times> 'w"
  pc_conns :: Desc
  pc_maxConns :: Desc
  pc_acquires :: Desc
  pc_acquireSeconds :: Desc
  pc_emptyAcquires :: Desc
  pc_canceledAcquires :: Desc
  pc_newConns :: Desc
  pc_lifetimeDestroyed :: Desc
  pc_idleDestroyed :: Desc

definition NewPoolCollector :: "('w \<Rightarrow> Stat \<times> 'w) \<Rightarrow> 'w PoolCollector" where
  "NewPoolCollector stat =
     \<lparr>pc_stat = stat,
      pc_conns = NewDesc ''pgxpool_conns'' [''state''],
      pc_maxConns = NewDesc ''pgxpool_max_conns'' [],
      pc_acquires = NewDesc ''pgxpool_acquires_total'' [],
      pc_acquireSeconds = NewDesc ''pgxpool_acquire_duration_seconds_total'' [],
      pc_emptyAcquires = NewDesc ''pgxpool_empty_acquires_total'' [],
      pc_canceledAcquires = NewDesc ''pgxpool_canceled_acquires_total'' [],
      pc_newConns = NewDesc ''pgxpool_new_conns_total'' [],
      pc_lifetimeDestroyed = NewDesc ''pgxpool_max_lifetime_destroys_total'' [],
      pc_idleDestroyed = NewDesc ''pgxpool_max_idle_destroys_total'' []\<rparr>"

text \<open>\<open>Collect\<close>: the metrics in the order they are sent into the channel.\<close>

definition Pool_Collect :: "'f float64 \<Rightarrow> 'w PoolCollector \<Rightarrow> 'w \<Rightarrow> 'f Metric list \<times> 'w" where
  "Pool_Collect F c w =
     (let (s, w) = pc_stat c w
      in ([ConstMetric (pc_conns c) GaugeValue (of_int64 F (AcquiredConns s)) [''acquired''],
           ConstMetric (pc_conns c) GaugeValue (of_int64 F (IdleConns s)) [''idle''],
           ConstMetric (pc_conns c) GaugeValue (of_int64 F (ConstructingConns s)) [''constructing''],
           ConstMetric (pc_maxConns c) GaugeValue (of_int64 F (StatMaxConns s)) [],
           ConstMetric (pc_acquires c) CounterValue (of_int64 F (AcquireCount s)) [],
           ConstMetric (pc_acquireSeconds c) CounterValue (Seconds F (AcquireDuration s)) [],
           ConstMetric (pc_emptyAcquires c) CounterValue (of_int64 F (EmptyAcquireCount s)) [],
           ConstMetric (pc_canceledAcquires c) CounterValue (of_int64 F (CanceledAcquireCount s)) [],
           ConstMetric (pc_newConns c) CounterValue (of_int64 F (NewConnsCount s)) [],
           ConstMetric (pc_lifetimeDestroyed c) CounterValue (of_int64 F (MaxLifetimeDestroyCount s)) [],
           ConstMetric (pc_idleDestroyed c) CounterValue (of_int64 F (MaxIdleDestroyCount s)) []], w))"

section \<open>The stored bytes\<close>

text \<open>The time limit of a read ends it as an error of \<open>bytes\<close>.\<close>

record 'w StorageCollector =
  sc_bytes :: "'w \<Rightarrow> (error + int) \<times> 'w"
  sc_timeout :: duration
  sc_desc :: Desc

definition NewStorageCollector :: "('w \<Rightarrow> (error + int) \<times> 'w) \<Rightarrow> duration \<Rightarrow> 'w StorageCollector" where
  "NewStorageCollector bytes t =
     \<lparr>sc_bytes = bytes, sc_timeout = t, sc_desc = NewDesc ''avatars_storage_bytes'' []\<rparr>"

definition Storage_Collect :: "'f float64 \<Rightarrow> 'w StorageCollector \<Rightarrow> 'w \<Rightarrow> 'f Metric list \<times> 'w" where
  "Storage_Collect F c w =
     (case sc_bytes c w of
        (Inl e, w) \<Rightarrow> ([], w)
      | (Inr n, w) \<Rightarrow> ([ConstMetric (sc_desc c) GaugeValue (of_int64 F n) []], w))"

section \<open>What a scrape shows\<close>

text \<open>
  A scrape of the pool cannot panic and names each series once; the gauge of the stored bytes is
  the sum over the live avatars at the moment of the read, and is absent when the read fails
  instead of being zero or stale.
\<close>

theorem scrape_consistent:
  "distinct (map (\<lambda>m. (fqName (m_desc m), m_labels m)) (fst (Pool_Collect F (NewPoolCollector stat) w)))
   \<and> list_all labelled (fst (Pool_Collect F (NewPoolCollector stat) w))
   \<and> (case Storage_Collect F (NewStorageCollector pg_StorageBytes t) p of (ms, p') \<Rightarrow>
        pg_tbl p' = snapshot p
      \<and> ms = (if pg_fault p (pg_tick p) = NoFault
              then [ConstMetric (NewDesc ''avatars_storage_bytes'' []) GaugeValue
                      (of_int64 F (\<Sum>r\<leftarrow>filter live (snapshot p). size_bytes r)) []]
              else []))"
proof (intro conjI)
  obtain s w' where "stat w = (s, w')" by fastforce
  then show "distinct (map (\<lambda>m. (fqName (m_desc m), m_labels m)) (fst (Pool_Collect F (NewPoolCollector stat) w)))"
    and "list_all labelled (fst (Pool_Collect F (NewPoolCollector stat) w))"
    by (simp_all add: Pool_Collect_def NewPoolCollector_def NewDesc_def labelled_def)
  show "case Storage_Collect F (NewStorageCollector pg_StorageBytes t) p of (ms, p') \<Rightarrow>
        pg_tbl p' = snapshot p
      \<and> ms = (if pg_fault p (pg_tick p) = NoFault
              then [ConstMetric (NewDesc ''avatars_storage_bytes'' []) GaugeValue
                      (of_int64 F (\<Sum>r\<leftarrow>filter live (snapshot p). size_bytes r)) []]
              else [])"
    by (auto simp: Storage_Collect_def NewStorageCollector_def pg_StorageBytes_def storageBytesQuery_def pg_next_def
        split: fault.splits)
qed

end
