(* ===== verification/Metrics.thy ===== *)
theory Metrics
  imports Collectors World
begin

text \<open>
  Package \<open>internal/metrics\<close>, the registry and the counters: what \<open>cmd/server\<close> and \<open>cmd/worker\<close>
  register, and what an observation does. The Prometheus client panics on a registration or on
  labels that do not fit; here a panic is \<open>None\<close>.
\<close>

section \<open>The registry\<close>

text \<open>
  A registry is the list of the descriptions it has. \<open>MustRegister\<close> of one collector panics if it
  describes a name the registry has already, the same name in two ways, or a bad name.
\<close>

type_synonym registry = "Desc list"

definition name_char :: "char \<Rightarrow> bool" where
  "name_char c = (let n = byte c in (65 \<le> n \<and> n \<le> 90) \<or> (97 \<le> n \<and> n \<le> 122) \<or> n = 95)"

definition valid_name :: "string \<Rightarrow> bool" where
  "valid_name s \<longleftrightarrow> s \<noteq> '''' \<and> list_all name_char s"

definition consistent :: "Desc list \<Rightarrow> bool" where
  "consistent ds \<longleftrightarrow> list_all (\<lambda>d. list_all (\<lambda>d'. fqName d = fqName d' \<longrightarrow> d = d') ds) ds
     \<and> list_all (\<lambda>d. valid_name (fqName d) \<and> list_all valid_name (variableLabels d) \<and> distinct (variableLabels d)) ds"

definition register :: "Desc list \<Rightarrow> registry \<Rightarrow> registry option" where
  "register ds reg =
     (if consistent ds \<and> list_all (\<lambda>d. fqName d \<notin> set (map fqName reg)) ds then Some (reg @ remdups ds) else None)"

fun MustRegister :: "Desc list list \<Rightarrow> registry \<Rightarrow> registry option" where
  "MustRegister [] reg = Some reg"
| "MustRegister (ds # rest) reg = Option.bind (register ds reg) (MustRegister rest)"

text \<open>The two collectors of the client describe their metrics themselves.\<close>

record standard =
  std_go :: "Desc list"
  std_process :: "Desc list"

definition NewRegistry :: "standard \<Rightarrow> registry option" where
  "NewRegistry S = MustRegister [std_go S, std_process S] []"

section \<open>Vectors\<close>

text \<open>
  Counters and histograms by the values of their labels; a histogram keeps what it observed and
  panics unless its bounds, in milliseconds, grow.
\<close>

record counter_vec =
  cv_desc :: Desc
  cv_count :: "string list \<Rightarrow> nat"

record histogram_vec =
  hv_desc :: Desc
  hv_buckets :: "nat list"
  hv_observed :: "string list \<Rightarrow> duration list"

definition NewCounterVec :: "string \<Rightarrow> string list \<Rightarrow> counter_vec" where
  "NewCounterVec name labels = \<lparr>cv_desc = NewDesc name labels, cv_count = (\<lambda>_. 0)\<rparr>"

definition NewHistogramVec :: "string \<Rightarrow> nat list \<Rightarrow> string list \<Rightarrow> histogram_vec" where
  "NewHistogramVec name buckets labels = \<lparr>hv_desc = NewDesc name labels, hv_buckets = buckets, hv_observed = (\<lambda>_. [])\<rparr>"

definition Inc :: "string list \<Rightarrow> counter_vec \<Rightarrow> counter_vec option" where
  "Inc vals c =
     (if length vals = length (variableLabels (cv_desc c))
      then Some (c\<lparr>cv_count := (cv_count c)(vals := Suc (cv_count c vals))\<rparr>) else None)"

definition Observe :: "string list \<Rightarrow> duration \<Rightarrow> histogram_vec \<Rightarrow> histogram_vec option" where
  "Observe vals took h =
     (if length vals = length (variableLabels (hv_desc h)) \<and> sorted_wrt (<) (hv_buckets h)
      then Some (h\<lparr>hv_observed := (hv_observed h)(vals := hv_observed h vals @ [took])\<rparr>) else None)"

section \<open>The server's metrics\<close>

definition operationBuckets :: "nat list" where
  "operationBuckets = [50, 100, 250, 500, 1000, 2500, 5000, 10000, 30000, 60000]"

definition httpBuckets :: "nat list" where
  "httpBuckets = [5, 10, 25, 50, 100, 250, 500, 1000, 2500, 5000, 10000, 30000, 60000, 180000]"

record server_metrics =
  sm_uploads :: counter_vec
  sm_uploadDuration :: histogram_vec
  sm_deletes :: counter_vec

definition NewServer :: "registry \<Rightarrow> (server_metrics \<times> registry) option" where
  "NewServer reg =
     (let m = \<lparr>sm_uploads = NewCounterVec ''avatars_uploads_total'' [''status''],
               sm_uploadDuration = NewHistogramVec ''avatars_upload_duration_seconds'' operationBuckets [''status''],
               sm_deletes = NewCounterVec ''avatars_deletes_total'' [''status'']\<rparr>
      in map_option (Pair m)
           (MustRegister [[cv_desc (sm_uploads m)], [hv_desc (sm_uploadDuration m)], [cv_desc (sm_deletes m)]] reg))"

definition Server_ObserveUpload :: "bool \<Rightarrow> duration \<Rightarrow> server_metrics \<Rightarrow> server_metrics option" where
  "Server_ObserveUpload success took m =
     (let s = status_label success
      in Option.bind (Inc [s] (sm_uploads m)) (\<lambda>u.
         Option.bind (Observe [s] took (sm_uploadDuration m)) (\<lambda>d.
         Some (m\<lparr>sm_uploads := u, sm_uploadDuration := d\<rparr>))))"

definition Server_IncDelete :: "bool \<Rightarrow> server_metrics \<Rightarrow> server_metrics option" where
  "Server_IncDelete success m =
     Option.bind (Inc [status_label success] (sm_deletes m)) (\<lambda>d. Some (m\<lparr>sm_deletes := d\<rparr>))"

record http_metrics =
  hm_requests :: counter_vec
  hm_duration :: histogram_vec

definition NewHTTP :: "registry \<Rightarrow> (http_metrics \<times> registry) option" where
  "NewHTTP reg =
     (let m = \<lparr>hm_requests = NewCounterVec ''http_requests_total'' [''method'', ''route'', ''status''],
               hm_duration = NewHistogramVec ''http_request_duration_seconds'' httpBuckets [''method'', ''route'']\<rparr>
      in map_option (Pair m) (MustRegister [[cv_desc (hm_requests m)], [hv_desc (hm_duration m)]] reg))"

definition HTTP_Observe :: "string \<Rightarrow> string \<Rightarrow> nat \<Rightarrow> duration \<Rightarrow> http_metrics \<Rightarrow> http_metrics option" where
  "HTTP_Observe method route status took m =
     Option.bind (Inc [method, route, decimal status] (hm_requests m)) (\<lambda>r.
     Option.bind (Observe [method, route] took (hm_duration m)) (\<lambda>d.
     Some (m\<lparr>hm_requests := r, hm_duration := d\<rparr>)))"

section \<open>The worker's metrics\<close>

record worker_metrics =
  wm_processing :: counter_vec
  wm_processingDuration :: histogram_vec

definition NewWorker :: "registry \<Rightarrow> (worker_metrics \<times> registry) option" where
  "NewWorker reg =
     (let m = \<lparr>wm_processing = NewCounterVec ''avatars_processing_total'' [''status''],
               wm_processingDuration = NewHistogramVec ''avatars_processing_duration_seconds'' operationBuckets [''status'']\<rparr>
      in map_option (Pair m) (MustRegister [[cv_desc (wm_processing m)], [hv_desc (wm_processingDuration m)]] reg))"

definition Worker_ObserveProcessing :: "bool \<Rightarrow> duration \<Rightarrow> worker_metrics \<Rightarrow> worker_metrics option" where
  "Worker_ObserveProcessing success took m =
     (let s = status_label success
      in Option.bind (Inc [s] (wm_processing m)) (\<lambda>p.
         Option.bind (Observe [s] took (wm_processingDuration m)) (\<lambda>d.
         Some (m\<lparr>wm_processing := p, wm_processingDuration := d\<rparr>))))"

section \<open>The collectors in the registry\<close>

text \<open>\<open>Stat\<close> of the repository; the pool's statistics are the library's.\<close>

record 'w pool_api =
  pl_Stat :: "'w \<Rightarrow> Stat \<times> 'w"

definition repository_Stat :: "'w pool_api \<Rightarrow> 'w \<Rightarrow> Stat \<times> 'w" where
  "repository_Stat P w = pl_Stat P w"

text \<open>\<open>Describe\<close> of the pool collects once; that of the storage desc_names its one description.\<close>

definition Pool_Describe :: "'f float64 \<Rightarrow> 'w PoolCollector \<Rightarrow> 'w \<Rightarrow> Desc list" where
  "Pool_Describe F c w = map m_desc (fst (Pool_Collect F c w))"

definition Storage_Describe :: "'w StorageCollector \<Rightarrow> Desc list" where
  "Storage_Describe c = [sc_desc c]"

text \<open>What \<open>router\<close> of \<open>cmd/server\<close> and \<open>run\<close> of \<open>cmd/worker\<close> register, in this order.\<close>

definition server_registry ::
  "standard \<Rightarrow> 'f float64 \<Rightarrow> 'w PoolCollector \<Rightarrow> 'w \<Rightarrow> 'v StorageCollector
     \<Rightarrow> (server_metrics \<times> http_metrics \<times> registry) option" where
  "server_registry S F pc w sc =
     Option.bind (NewRegistry S) (\<lambda>reg.
     Option.bind (MustRegister [Pool_Describe F pc w, Storage_Describe sc] reg) (\<lambda>reg.
     Option.bind (NewServer reg) (\<lambda>(sm, reg).
     Option.bind (NewHTTP reg) (\<lambda>(hm, reg).
     Some (sm, hm, reg)))))"

definition worker_registry ::
  "standard \<Rightarrow> 'f float64 \<Rightarrow> 'w PoolCollector \<Rightarrow> 'w \<Rightarrow> (worker_metrics \<times> registry) option" where
  "worker_registry S F pc w =
     Option.bind (NewRegistry S) (\<lambda>reg.
     Option.bind (MustRegister [Pool_Describe F pc w] reg) (\<lambda>reg.
     NewWorker reg))"

section \<open>No start panics\<close>

text \<open>
  Documented of the standard collectors: their names begin with \<open>go_\<close> and \<open>process_\<close>, and are
  described once.
\<close>

definition standard_ok :: "standard \<Rightarrow> bool" where
  "standard_ok S \<longleftrightarrow> consistent (std_go S) \<and> consistent (std_process S)
     \<and> list_all (\<lambda>d. HasPrefix (fqName d) ''go_'') (std_go S)
     \<and> list_all (\<lambda>d. HasPrefix (fqName d) ''process_'') (std_process S)"

abbreviation desc_names :: "Desc list \<Rightarrow> string set" where
  "desc_names ds \<equiv> fqName ` set ds"

lemma distinct_names: "consistent ds \<Longrightarrow> distinct (map fqName (remdups ds))"
  by (auto simp: consistent_def list_all_iff distinct_map inj_on_def)

lemma MustRegister_ok:
  assumes "\<forall>ds\<in>set dss. consistent ds \<and> desc_names ds \<inter> desc_names reg = {}"
    and "sorted_wrt (\<lambda>ds es. desc_names ds \<inter> desc_names es = {}) dss" and "distinct (map fqName reg)"
  shows "\<exists>reg'. MustRegister dss reg = Some reg' \<and> distinct (map fqName reg') \<and> desc_names reg' = desc_names reg \<union> \<Union> (desc_names ` set dss)"
  using assms
proof (induction dss arbitrary: reg)
  case (Cons ds dss)
  let ?reg = "reg @ remdups ds"
  have "register ds reg = Some ?reg" using Cons.prems(1) by (auto simp: register_def list_all_iff)
  moreover have "distinct (map fqName ?reg)" using Cons.prems(1,3) distinct_names [of ds] by auto
  moreover have "\<forall>es\<in>set dss. consistent es \<and> desc_names es \<inter> desc_names ?reg = {}"
    using Cons.prems(1,2) by (simp add: image_Un Int_Un_distrib) (simp add: Int_commute)
  ultimately show ?case using Cons.IH [of ?reg] Cons.prems(2) by auto
qed simp

lemma MustRegister_append: "MustRegister (dss @ ess) reg = Option.bind (MustRegister dss reg) (MustRegister ess)"
  by (induction dss arbitrary: reg) (auto split: Option.bind_splits)

definition server_descs :: "Desc list list" where
  "server_descs =
     [[NewDesc ''avatars_uploads_total'' [''status'']], [NewDesc ''avatars_upload_duration_seconds'' [''status'']],
      [NewDesc ''avatars_deletes_total'' [''status'']], [NewDesc ''http_requests_total'' [''method'', ''route'', ''status'']],
      [NewDesc ''http_request_duration_seconds'' [''method'', ''route'']]]"

definition worker_descs :: "Desc list list" where
  "worker_descs =
     [[NewDesc ''avatars_processing_total'' [''status'']], [NewDesc ''avatars_processing_duration_seconds'' [''status'']]]"

definition pool_descs :: "Desc list" where
  "pool_descs =
     map (\<lambda>n. NewDesc n (if n = ''pgxpool_conns'' then [''state''] else []))
       [''pgxpool_conns'', ''pgxpool_conns'', ''pgxpool_conns'', ''pgxpool_max_conns'', ''pgxpool_acquires_total'',
        ''pgxpool_acquire_duration_seconds_total'', ''pgxpool_empty_acquires_total'', ''pgxpool_canceled_acquires_total'',
        ''pgxpool_new_conns_total'', ''pgxpool_max_lifetime_destroys_total'', ''pgxpool_max_idle_destroys_total'']"

lemma Pool_Describe_descs: "Pool_Describe F (NewPoolCollector stat) w = pool_descs"
  by (cases "stat w") (simp add: Pool_Describe_def Pool_Collect_def NewPoolCollector_def pool_descs_def)

lemma own_descs:
  "list_all consistent (pool_descs # [NewDesc ''avatars_storage_bytes'' []] # server_descs)"
  "list_all consistent (pool_descs # worker_descs)"
  "list_all (\<lambda>ds. list_all (\<lambda>d. \<not> HasPrefix (fqName d) ''go_'' \<and> \<not> HasPrefix (fqName d) ''process_'') ds)
     (pool_descs # [NewDesc ''avatars_storage_bytes'' []] # server_descs @ worker_descs)"
  by code_simp+

lemma own_disjoint:
  "sorted_wrt (\<lambda>ds es. desc_names ds \<inter> desc_names es = {}) (pool_descs # [NewDesc ''avatars_storage_bytes'' []] # server_descs)"
  "sorted_wrt (\<lambda>ds es. desc_names ds \<inter> desc_names es = {}) (pool_descs # worker_descs)"
  by (simp_all add: pool_descs_def server_descs_def worker_descs_def NewDesc_def)

lemma prefix_clash: "HasPrefix n ''go_'' \<Longrightarrow> \<not> HasPrefix n ''process_''"
  by (cases n) (auto simp: HasPrefix_def)

text \<open>Everything of a process is registered, each name once.\<close>

lemma registered_all:
  assumes "standard_ok S" and "list_all consistent dss"
    and "list_all (\<lambda>ds. list_all (\<lambda>d. \<not> HasPrefix (fqName d) ''go_'' \<and> \<not> HasPrefix (fqName d) ''process_'') ds) dss"
    and "sorted_wrt (\<lambda>ds es. desc_names ds \<inter> desc_names es = {}) dss"
  shows "\<exists>reg. Option.bind (NewRegistry S) (MustRegister dss) = Some reg \<and> distinct (map fqName reg)
    \<and> desc_names reg = desc_names (std_go S) \<union> desc_names (std_process S) \<union> \<Union> (desc_names ` set dss)"
proof -
  have apart: "desc_names (std_go S) \<inter> desc_names (std_process S) = {}"
    "\<forall>ds\<in>set dss. desc_names (std_go S) \<inter> desc_names ds = {} \<and> desc_names (std_process S) \<inter> desc_names ds = {}"
  proof -
    have "fqName x \<noteq> fqName y" if "x \<in> set (std_go S)" "y \<in> set (std_process S)" for x y
      using assms(1) that prefix_clash [of "fqName x"] by (fastforce simp: standard_ok_def list_all_iff)
    then show "desc_names (std_go S) \<inter> desc_names (std_process S) = {}" by blast
    show "\<forall>ds\<in>set dss. desc_names (std_go S) \<inter> desc_names ds = {} \<and> desc_names (std_process S) \<inter> desc_names ds = {}"
      using assms(1,3) by (auto simp: standard_ok_def list_all_iff disjoint_iff)
  qed
  have "\<exists>reg'. MustRegister ([std_go S, std_process S] @ dss) [] = Some reg' \<and> distinct (map fqName reg')
      \<and> desc_names reg' = desc_names [] \<union> \<Union> (desc_names ` set ([std_go S, std_process S] @ dss))"
    by (rule MustRegister_ok) (use assms apart in \<open>auto simp: standard_ok_def list_all_iff\<close>)
  then show ?thesis unfolding MustRegister_append NewRegistry_def [symmetric] by (simp add: Un_assoc)
qed

text \<open>
  Both processes register all their metrics without a panic, each name once, given what is
  documented of the standard collectors.
\<close>

theorem metrics_registered:
  assumes "standard_ok S"
  shows "\<exists>sm hm reg. server_registry S F (NewPoolCollector stat) w (NewStorageCollector bytes t) = Some (sm, hm, reg)
      \<and> distinct (map fqName reg)"
    and "\<exists>wm reg. worker_registry S F (NewPoolCollector stat) w = Some (wm, reg) \<and> distinct (map fqName reg)"
proof -
  obtain reg where reg: "Option.bind (NewRegistry S) (MustRegister (pool_descs # [NewDesc ''avatars_storage_bytes'' []] # server_descs)) = Some reg"
    "distinct (map fqName reg)"
    using registered_all [OF assms own_descs(1) _ own_disjoint(1)] own_descs(3) by auto
  then show "\<exists>sm hm reg. server_registry S F (NewPoolCollector stat) w (NewStorageCollector bytes t) = Some (sm, hm, reg)
      \<and> distinct (map fqName reg)"
    by (auto simp: server_registry_def NewServer_def NewHTTP_def Pool_Describe_descs Storage_Describe_def NewStorageCollector_def
        NewCounterVec_def NewHistogramVec_def server_descs_def Let_def split: Option.bind_splits)
next
  obtain reg where reg: "Option.bind (NewRegistry S) (MustRegister (pool_descs # worker_descs)) = Some reg"
    "distinct (map fqName reg)"
    using registered_all [OF assms own_descs(2) _ own_disjoint(2)] own_descs(3) by auto
  then show "\<exists>wm reg. worker_registry S F (NewPoolCollector stat) w = Some (wm, reg) \<and> distinct (map fqName reg)"
    by (auto simp: worker_registry_def NewWorker_def Pool_Describe_descs
        NewCounterVec_def NewHistogramVec_def worker_descs_def Let_def split: Option.bind_splits)
qed

section \<open>Counters count\<close>

definition http_observed :: "(string \<times> string \<times> nat \<times> duration) list \<Rightarrow> http_metrics \<Rightarrow> http_metrics option" where
  "http_observed = (\<lambda>obs m. fold (\<lambda>(method, route, status, took) m. Option.bind m (HTTP_Observe method route status took)) obs (Some m))"

text \<open>
  No observation of a request panics, and afterwards each counter is the number of requests with
  its method, route and status, each histogram has the durations for its method and route.
\<close>

theorem http_metrics_count:
  assumes "NewHTTP reg = Some (hm, reg')"
  shows "\<exists>m. http_observed obs hm = Some m
    \<and> cv_count (hm_requests m) [method, route, decimal status]
        = length (filter (\<lambda>(me, ro, st, took). me = method \<and> ro = route \<and> decimal st = decimal status) obs)
    \<and> hv_observed (hm_duration m) [method, route]
        = map (\<lambda>(me, ro, st, took). took) (filter (\<lambda>(me, ro, st, took). me = method \<and> ro = route) obs)"
proof -
  have hm: "variableLabels (cv_desc (hm_requests hm)) = [''method'', ''route'', ''status'']"
    "variableLabels (hv_desc (hm_duration hm)) = [''method'', ''route'']" "hv_buckets (hm_duration hm) = httpBuckets"
    "cv_count (hm_requests hm) = (\<lambda>_. 0)" "hv_observed (hm_duration hm) = (\<lambda>_. [])"
    using assms by (auto simp: NewHTTP_def NewCounterVec_def NewHistogramVec_def NewDesc_def Let_def)
  have ok: "sorted_wrt (<) httpBuckets" by (simp add: httpBuckets_def)
  have "\<exists>m. http_observed obs hm = Some m
    \<and> variableLabels (cv_desc (hm_requests m)) = [''method'', ''route'', ''status'']
    \<and> variableLabels (hv_desc (hm_duration m)) = [''method'', ''route''] \<and> hv_buckets (hm_duration m) = httpBuckets
    \<and> cv_count (hm_requests m) [method, route, decimal status]
        = length (filter (\<lambda>(me, ro, st, took). me = method \<and> ro = route \<and> decimal st = decimal status) obs)
    \<and> hv_observed (hm_duration m) [method, route]
        = map (\<lambda>(me, ro, st, took). took) (filter (\<lambda>(me, ro, st, took). me = method \<and> ro = route) obs)"
  proof (induction obs rule: rev_induct)
    case Nil
    show ?case using hm by (simp add: http_observed_def)
  next
    case (snoc ob obs)
    then obtain m where m: "http_observed obs hm = Some m" by blast
    obtain me ro st took where ob: "ob = (me, ro, st, took)" by (cases ob)
    have "http_observed (obs @ [ob]) hm = HTTP_Observe me ro st took m"
      using m by (simp add: http_observed_def ob)
    with snoc m ok show ?case by (auto simp: HTTP_Observe_def Inc_def Observe_def ob)
  qed
  then show ?thesis by blast
qed

end
