(* ===== verification/Tracing.thy ===== *)
theory Tracing
  imports BrokerConsumer
begin

text \<open>
  Traces across the broker: the carrier of \<open>internal/broker/tracing.go\<close>, which lets a propagator
  write the coordinates of a span into the headers of a message and read them back, and
  \<open>SpanError\<close> of \<open>internal/observability\<close>. The propagator is OpenTelemetry's and a parameter.
\<close>

section \<open>The carrier\<close>

type_synonym headerCarrier = amqp_table

definition hc_Get :: "headerCarrier \<Rightarrow> string \<Rightarrow> string" where
  "hc_Get c key = (case table_get c key of Some (VString value) \<Rightarrow> value | _ \<Rightarrow> '''')"

definition hc_Set :: "string \<Rightarrow> string \<Rightarrow> headerCarrier \<Rightarrow> headerCarrier" where
  "hc_Set key value c = table_put key (VString value) c"

definition hc_Keys :: "headerCarrier \<Rightarrow> string list" where
  "hc_Keys c = map fst c"

lemma hc_Get_Set [simp]: "hc_Get (hc_Set k v c) k' = (if k' = k then v else hc_Get c k')"
  by (simp add: hc_Get_def hc_Set_def)

section \<open>Spans\<close>

text \<open>A span as far as the program writes to it: the errors recorded, and whether it failed.\<close>

record span =
  sp_Errors :: "error list"
  sp_Failed :: bool

definition SpanError :: "span \<Rightarrow> error \<Rightarrow> error \<times> span" where
  "SpanError s e = (e, s\<lparr>sp_Errors := sp_Errors s @ [e], sp_Failed := True\<rparr>)"

section \<open>The propagator\<close>

text \<open>
  \<open>TextMapPropagator\<close>: \<open>Inject\<close> by the calls of \<open>Set\<close> it makes for a span context, \<open>Extract\<close> as a
  function of \<open>Get\<close>, and \<open>Fields\<close>.
\<close>

record 'sc propagator =
  pr_Inject :: "'sc \<Rightarrow> (string \<times> string) list"
  pr_Extract :: "(string \<Rightarrow> string) \<Rightarrow> 'sc"
  pr_Fields :: "string set"

definition Inject :: "'sc propagator \<Rightarrow> 'sc \<Rightarrow> headerCarrier \<Rightarrow> headerCarrier" where
  "Inject P sc c = fold (\<lambda>(k, v). hc_Set k v) (pr_Inject P sc) c"

definition Extract :: "'sc propagator \<Rightarrow> headerCarrier \<Rightarrow> 'sc" where
  "Extract P c = pr_Extract P (hc_Get c)"

text \<open>
  What its documentation says: \<open>Fields\<close> are the keys that are set, nothing else is read, and
  what was injected into an empty carrier is extracted from it.
\<close>

locale text_map =
  fixes P :: "'sc propagator"
  assumes sets_fields: "fst ` set (pr_Inject P sc) \<subseteq> pr_Fields P"
    and reads_fields: "(\<And>k. k \<in> pr_Fields P \<Longrightarrow> get k = get' k) \<Longrightarrow> pr_Extract P get = pr_Extract P get'"
    and extracts: "pr_Extract P (hc_Get (Inject P sc [])) = sc"
begin

lemma Inject_other: "k \<notin> pr_Fields P \<Longrightarrow> table_get (Inject P sc c) k = table_get c k"
proof -
  have "fst ` set kvs \<subseteq> pr_Fields P \<Longrightarrow> k \<notin> pr_Fields P \<Longrightarrow>
      table_get (fold (\<lambda>(k, v). hc_Set k v) kvs c) k = table_get c k" for kvs
    by (induction kvs arbitrary: c) (auto simp: hc_Set_def)
  then show "k \<notin> pr_Fields P \<Longrightarrow> table_get (Inject P sc c) k = table_get c k"
    unfolding Inject_def using sets_fields by blast
qed

lemma Extract_same: "(\<And>k. k \<in> pr_Fields P \<Longrightarrow> table_get c k = table_get c' k) \<Longrightarrow> Extract P c = Extract P c'"
  unfolding Extract_def by (rule reads_fields) (simp add: hc_Get_def)

lemma Extract_kept:
  assumes "headerAttempts \<notin> pr_Fields P" and "argDeath \<notin> pr_Fields P"
    and "\<forall>n k. k \<noteq> argDeath \<longrightarrow> table_get (hs (Suc n)) k = table_get (table_put headerAttempts (VInt64 (attemptNumber (hs n))) (hs n)) k"
  shows "Extract P (hs n) = Extract P (hs 0)"
proof (induction n)
  case (Suc n)
  have "Extract P (hs (Suc n)) = Extract P (hs n)"
  proof (rule Extract_same)
    fix k
    assume "k \<in> pr_Fields P"
    with assms(1,2) have "k \<noteq> headerAttempts" "k \<noteq> argDeath" by auto
    with assms(3) show "table_get (hs (Suc n)) k = table_get (hs n) k" by simp
  qed
  with Suc.IH show ?case by simp
qed simp

end

text \<open>The header \<open>traceparent\<close> alone, for a span context given by its text.\<close>

definition traceparent0 :: "string propagator" where
  "traceparent0 = \<lparr>pr_Inject = (\<lambda>sc. if sc = '''' then [] else [(''traceparent'', sc)]),
     pr_Extract = (\<lambda>get. get ''traceparent''), pr_Fields = {''traceparent''}\<rparr>"

interpretation tp0: text_map traceparent0
  by unfold_locales (auto simp: traceparent0_def Inject_def hc_Get_def hc_Set_def)

section \<open>A trace survives the retries\<close>

text \<open>
  The worker continues the trace of the request behind the event, on every attempt: whatever the
  number of times a message was forwarded, and whatever the broker notes about dead letters, the
  span context read from its headers is the one that was injected when it was published; and the
  injected headers do not disturb the counting of attempts, which starts at one.
\<close>

theorem trace_survives_retries:
  assumes "text_map P" and "headerAttempts \<notin> pr_Fields P" and "argDeath \<notin> pr_Fields P"
    and "hs 0 = Headers (newPublishing \<lparr>inject = Inject P sc, rid = r, now = t\<rparr> ev)"
    and "\<forall>n k. k \<noteq> argDeath \<longrightarrow> table_get (hs (Suc n)) k
      = table_get (Headers (forwarded (d n\<lparr>Headers := hs n\<rparr>) (attemptNumber (hs n)))) k"
  shows "Extract P (hs n) = sc \<and> attemptNumber (hs 0) = 1"
proof
  have h0: "hs 0 = Inject P sc []" using assms(4) by (simp add: newPublishing_def)
  have step: "\<forall>n k. k \<noteq> argDeath \<longrightarrow> table_get (hs (Suc n)) k
      = table_get (table_put headerAttempts (VInt64 (attemptNumber (hs n))) (hs n)) k"
    using assms(5) by (simp add: forwarded_def)
  have "Extract P (hs n) = Extract P (hs 0)" by (rule text_map.Extract_kept [OF assms(1-3) step])
  then show "Extract P (hs n) = sc" by (simp add: h0 Extract_def text_map.extracts [OF assms(1)])
  show "attemptNumber (hs 0) = 1"
    using text_map.Inject_other [OF assms(1,2)] text_map.Inject_other [OF assms(1,3)]
    by (simp add: h0 attemptNumber_def headerInt_def deathCount_def)
qed

primrec hops :: "amqp_table \<Rightarrow> nat \<Rightarrow> amqp_table" where
  "hops h 0 = h"
| "hops h (Suc n) = table_put argDeath (VList []) (table_put headerAttempts (VInt64 (attemptNumber (hops h n))) (hops h n))"

theorem trace_survives_retries_witness:
  "Extract traceparent0 (hops (Inject traceparent0 ''00-ab-01'' []) 4) = ''00-ab-01''"
proof -
  have "headerAttempts \<notin> pr_Fields traceparent0" "argDeath \<notin> pr_Fields traceparent0"
    by (simp_all add: traceparent0_def headerAttempts_def argDeath_def)
  from trace_survives_retries [OF tp0.text_map_axioms this,
      of "hops (Inject traceparent0 ''00-ab-01'' [])" "''00-ab-01''" "''r''" 0
        "UploadEvent (NewUploadEvent (\<lambda>_. ''i'') ''m'' 1 ''u'' ''k'')"
        "\<lambda>_. \<lparr>Headers = [], m_ContentType = '''', DeliveryMode = Persistent, MessageId = '''', CorrelationId = '''',
           Type = '''', Timestamp = 0, m_Body = None, d_Tag = 1, d_RoutingKey = ''''\<rparr>" 4]
  show ?thesis by (simp add: newPublishing_def forwarded_def)
qed

end
