(* ===== verification/Spec2Isabelle.thy ===== *)
theory Spec2Isabelle
  imports EndToEnd ConsumerPool Processes ConfigDefaults Connections Migrator Logging Metrics Tracing
begin

text \<open>
  GophProfile stores avatars. A server accepts an upload, checks it, creates a row in PostgreSQL,
  puts the original into an S3 bucket, marks the row uploaded and publishes an event to RabbitMQ;
  a worker consumes the events, renders thumbnails and completes the row, or cleans up the files
  of deleted avatars; a reconciler in the worker announces again what got stuck. This development
  models these parts, the HTTP interface in front of them and the start and the end of both
  processes, and proves what makes them correct together.

  \<^bold>\<open>Theories.\<close>
  \<^item> \<open>Prelude\<close>: errors as trees of wrapped sentinels (\<open>errors.Is\<close>, \<open>fmt.Errorf\<close>,
    \<open>errors.Join\<close>), faults of outside services, strings and time.
  \<^item> \<open>Domain\<close> (\<open>internal/domain\<close>): statuses and their transitions, sizes, storage keys.
  \<^item> \<open>Postgres\<close>, \<open>PostgresRepo\<close> (\<open>internal/repository/postgres\<close>): the table, every SQL
    statement, every repository method; a step relation \<open>db_step\<close> for the statements of all
    processes; the proof that the methods keep the contracts of \<open>Interfaces\<close>.
  \<^item> \<open>Interfaces\<close>: the repository, storage and publisher interfaces of the callers, with the laws
    they rely on as locales.
  \<^item> \<open>Events\<close>, \<open>Amqp\<close>, \<open>Broker\<close>, \<open>BrokerPublisher\<close>, \<open>BrokerConsumer\<close>,
    \<open>AmqpServer\<close> (\<open>internal/broker\<close>): events and their JSON, the AMQP client library as a locale,
    topology and retry counting, publisher, consumer, and a broker in memory that satisfies the locale.
  \<^item> \<open>ConsumerPool\<close> (\<open>internal/broker/consumer.go\<close>): the goroutines of \<open>Consume\<close> as a transition
    system, its invariant, that it always comes to an end, and that it loses no message.
  \<^item> \<open>S3\<close> (\<open>internal/storage/s3\<close>), \<open>ImageProc\<close> (\<open>internal/imageproc\<close>),
    \<open>Breaker\<close> (\<open>internal/breaker\<close>), \<open>Service\<close> (\<open>internal/server/service\<close>,
    \<open>internal/placeholder\<close>), \<open>Handler\<close> (\<open>internal/worker/handler\<close>), \<open>Reconciler\<close>
    (\<open>internal/worker/reconciler\<close>): one theory per package, each with the locale of what it relies on.
  \<^item> \<open>World\<close>: the state of a process, the components put together as \<open>cmd/server\<close> and
    \<open>cmd/worker\<close> do, and the locale \<open>deployed\<close> in which every component's facts hold.
  \<^item> \<open>Configuration\<close> (\<open>internal/config\<close>): every setting of the three programs, the reader that
    collects the errors, and the validations of each program; \<open>ConfigDefaults\<close>: the variables and
    what a process runs with when only the required ones are declared.
  \<^item> \<open>HttpBase\<close>, \<open>HttpApi\<close>, \<open>RateLimiter\<close>, \<open>HttpServer\<close> (\<open>internal/server/http\<close>): requests,
    answers and middleware as functions from handlers to handlers; the REST handlers and the table of
    errors; the limiter; the router of \<open>New\<close> and how a request goes through it.
  \<^item> \<open>Web\<close>, \<open>WebPages\<close> (\<open>internal/server/web\<close>): the form and the gallery; the templates, what they
    expand to, and \<open>New\<close>.
  \<^item> \<open>Lifecycle\<close>, \<open>ServerMain\<close>, \<open>WorkerMain\<close> (\<open>cmd/server\<close>, \<open>cmd/worker\<close>,
    \<open>internal/observability\<close>): what the processes open and close, in which order, on every path, and
    the goroutines of the worker's \<open>run\<close> as a transition system; \<open>Processes\<close>: the two runs as a
    whole; \<open>Connections\<close>: dialling, limits of connections, \<open>internal/buildinfo\<close>.
  \<^item> \<open>Migrator\<close> (\<open>cmd/migrator\<close>, \<open>internal/migrate\<close>), \<open>Logging\<close> (\<open>internal/logger\<close>),
    \<open>Collectors\<close>, \<open>Metrics\<close> (\<open>internal/metrics\<close>), \<open>Tracing\<close> (\<open>internal/broker/tracing.go\<close>,
    \<open>internal/observability/span.go\<close>): the run over goose, records and their request, what a scrape
    reads, the registries and counters, and traces across the broker.
  \<^item> \<open>EndToEnd\<close>: an avatar from the upload to the picture that is served, and from the deletion to
    the empty bucket, through both processes.
  \<^item> \<open>Examples\<close>: a small deployment with concrete clients, on which the witnesses run.

  \<^bold>\<open>State and effects.\<close> An operation takes the world it works on and returns its result and the
  new world. An outside service fails as its environment says: before the effect, after it with the
  answer lost, or in the middle of a stream. Between any two statements other processes may run any
  statements of the program on the table (\<open>pg_fair\<close>); the bucket and the broker change only
  through the operations themselves while one of them runs. The clients of minio, amqp091 and
  gobreaker, the search tree of chi and the bucket of x/time/rate are parameters: \<open>minio_client\<close>,
  \<open>amqp_client\<close>, \<open>counting_breaker\<close>, \<open>chi_tree\<close> and \<open>token_bucket\<close> state what the program
  relies on, \<open>goose_up\<close> and \<open>text_map\<close> do so for goose and the propagator, and each is
  interpreted on a concrete instance. The span handler of otelhttp, whether the embedded templates parse,
  \<open>strconv\<close>'s floats and the parsing of durations are plain arguments. A handler returns
  the calls it makes on the response, from which the status, the headers and the body that are sent
  are computed; the files the form parser spills to disk are counted in a world of their own.

  \<^bold>\<open>Bounds.\<close> Message counters are 64-bit words, pixel products are computed as the code does; other
  integers are unbounded where the code's values stay far from the limits. Loops are structural
  recursions over what they range over, so no fuel is used; the endless loops of the consumer and of the
  reconciler are functions of the finite list of events they have seen so far. Where goroutines wait
  for each other, in \<open>Consume\<close> and in the worker's \<open>run\<close>, every step of the code lowers a rank,
  which bounds the steps that are left, and no state but the last is stuck.

  \<^bold>\<open>Not modelled.\<close> Message texts of errors, the log lines of the components but for the failures
  of the pages, the spans they open, the exposition format of the metrics, the pool settings of the
  database, the delivery of signals, and \<open>main\<close>, which turns an error into an exit code. Within
  one process the workers of the consumer, the reconciler, the listener of the metrics and \<open>run\<close>
  interleave freely, but a worker's processing of one delivery and a handler's answer to one request
  take effect as a whole, except that other processes may change the table between any two of their
  statements; a deadline is the number a handler gets, and what it ends is a fault of the service
  that is called.
\<close>

section \<open>Uploads\<close>

text \<open>
  (C1) An upload that succeeds is durable: the avatar is new, belongs to the requester, its row
  is uploaded, and the bucket differs from before only by the uploaded bytes under the avatar's
  own key, with the recognised type. At most the one upload event is published. This holds for
  any storage and broker clients that behave as documented, whatever other processes do to the
  database in between.
\<close>

theorem upload_durable:
  assumes dep: "deployed MC b objs AC obs D" and inv: "w_fair w" "w_up obs w" "table_ok (w_tbl w)"
    and run: "Upload (server_service D) inp w = (Inr av, w')"
    and unread: "rs_pos (u_File inp) = 0" "u_Size inp = int (length (rs_data (u_File inp)))"
  shows "AvUploadStatus av = UploadStatusUploaded \<and> UserID av = u_UserID inp
    \<and> S3Key av = OriginalKey (d_us D) (ID av) \<and> find_row (ID av) (w_tbl w) = None
    \<and> (\<exists>r. find_row (ID av) (w_tbl w') = Some r \<and> upload_status r = UploadStatusUploaded
         \<and> s3_key r = S3Key av \<and> user_id r = UserID av)
    \<and> (\<exists>et. w_objs objs w' = (w_objs objs w)(S3Key av \<mapsto>
          \<lparr>bl_data = rs_data (u_File inp), bl_type = MimeType av, bl_etag = et\<rparr>))
    \<and> (\<exists>mid. w_sent obs w' = w_sent obs w \<or> w_sent obs w' = w_sent obs w @
          [wire (UploadEvent (NewUploadEvent (d_us D) mid (ID av) (UserID av) (S3Key av)))])"
  by (rule stored_upload [OF assms])

theorem upload_durable_witness:
  "\<exists>av w'. Upload (server_service deps0) upload0 world0 = (Inr av, w') \<and> AvUploadStatus av = UploadStatusUploaded
     \<and> (\<exists>bl. w_objs (bucket_objs bucket0) w' (S3Key av) = Some bl \<and> bl_data bl = jpeg0)"
proof -
  obtain av w' where run: "Upload (server_service deps0) upload0 world0 = (Inr av, w')"
    using upload0_ok by (cases "Upload (server_service deps0) upload0 world0") (auto simp: is_ok_def split: sum.splits)
  have f: "rs_pos (u_File upload0) = 0" "u_Size upload0 = int (length (rs_data (u_File upload0)))"
    "rs_data (u_File upload0) = jpeg0"
    by (simp_all add: upload0_def jpeg0_def jpegSig_def)
  from upload_durable [OF depl.deployed_axioms world0_fair run f(1,2)] run f(3) show ?thesis by fastforce
qed

text \<open>
  (C13) Nothing is stored that cannot be found again: whatever the outcome of an upload, an
  object that changed belongs to a row of this user that did not exist before and names the
  object's key, so the reconciler can clean it up; a failed upload publishes no event; and the
  table only takes statements of the program.
\<close>

theorem upload_leaves_no_orphan:
  assumes "deployed MC b objs AC obs D" and "w_fair w" and "w_up obs w" and "table_ok (w_tbl w)"
    and "Upload (server_service D) inp w = (res, w')"
  shows "db_step\<^sup>*\<^sup>* (w_tbl w) (w_tbl w') \<and> w_up obs w'
    \<and> (is_ok res \<or> w_sent obs w' = w_sent obs w)
    \<and> {k. w_objs objs w' k \<noteq> w_objs objs w k} \<subseteq>
        {k. \<exists>i r. k = OriginalKey (d_us D) i \<and> find_row i (w_tbl w) = None
             \<and> find_row i (w_tbl w') = Some r \<and> s3_key r = k \<and> user_id r = u_UserID inp}"
  using deployed.svc_Upload_any [OF assms] by (cases res) (auto simp: server_service_ops)

theorem upload_leaves_no_orphan_witness:
  "db_step\<^sup>*\<^sup>* (w_tbl world0) (w_tbl world1)
   \<and> {k. w_objs (bucket_objs bucket0) world1 k \<noteq> w_objs (bucket_objs bucket0) world0 k} \<subseteq> range (OriginalKey us0)"
proof -
  have run: "Upload (server_service deps0) upload0 world0 = (fst (Upload (server_service deps0) upload0 world0), world1)"
    by (simp add: world1_def)
  from upload_leaves_no_orphan [OF depl.deployed_axioms world0_fair run] show ?thesis
    by (auto simp: deps0_def)
qed

section \<open>Deletion\<close>

text \<open>Deletion by the service.\<close>

lemma owner_deletes:
  assumes "deployed MC b objs AC obs D" and "w_fair w" and "w_up obs w"
    and "Delete (server_service D) i req w = (res, w')"
  shows "case res of
      None \<Rightarrow> (\<exists>r. live_row i (w_tbl w) = Some r \<and> user_id r = req
        \<and> (\<exists>r'. find_row i (w_tbl w') = Some r' \<and> deleted_at r' \<noteq> None)
        \<and> {k. w_objs objs w' k \<noteq> w_objs objs w k} \<subseteq> set (StorageKeys (d_us D) (scanAvatar r)))
    | Some e \<Rightarrow> w_objs objs w' = w_objs objs w \<and> w_sent obs w' = w_sent obs w"
  using deployed.svc_Delete [OF assms] by (auto simp: server_service_ops split: option.split)



text \<open>
  (C12) The worker's clean-up is done only when it is done: it reports success only after every
  file named by the event is gone and the row carries the mark, and it never marks a row while a
  file of the event is left; no other object changes.
\<close>

theorem cleanup_complete:
  assumes "deployed MC b objs AC obs D" and "w_fair w"
    and "UnmarshalDelete (msg_Body msg) = Inr ev" and "deleted (worker_handler D) msg w = (res, w')"
  shows "(res = None \<longrightarrow> (\<exists>i r. d_up D (de_AvatarID ev) = Some i \<and> find_row i (w_tbl w') = Some r
        \<and> files_removed_at r \<noteq> None \<and> (\<forall>k\<in>set (de_S3Keys ev). w_objs objs w' k = None)))
    \<and> (w_tbl w' \<noteq> w_tbl w \<longrightarrow> (\<forall>k\<in>set (de_S3Keys ev). w_objs objs w' k = None))
    \<and> (\<forall>k. k \<notin> set (de_S3Keys ev) \<longrightarrow> w_objs objs w' k = w_objs objs w k)"
proof -
  note L = deployed.hdl_deleted [OF assms(1,2,4)]
  show ?thesis using L(1,2) L(3) [OF assms(3)] assms(3) by (auto simp: worker_handler_ops)
qed

definition del_ev0 :: AvatarDeleteEvent where
  "del_ev0 = NewDeleteEvent us0 ''m2'' 7 [''originals/seven'', ''thumbnails/seven/100x100'']"

definition del_msg0 :: Message where
  "del_msg0 = msg0\<lparr>msg_Type := RoutingKeyDeleted, msg_Body := Some (Marshal (DeleteEvent del_ev0))\<rparr>"

theorem cleanup_complete_witness:
  "\<exists>w' r. deleted (worker_handler deps0) del_msg0 world1 = (None, w') \<and> find_row 7 (w_tbl w') = Some r
     \<and> files_removed_at r \<noteq> None \<and> w_objs (bucket_objs bucket0) w' ''originals/seven'' = None"
proof -
  have ev: "UnmarshalDelete (msg_Body del_msg0) = Inr del_ev0" by code_simp
  have "fst (deleted (worker_handler deps0) del_msg0 world1) = None" by code_simp
  then obtain w' where run: "deleted (worker_handler deps0) del_msg0 world1 = (None, w')"
    by (cases "deleted (worker_handler deps0) del_msg0 world1") auto
  have "d_up deps0 (de_AvatarID del_ev0) = Some 7" "''originals/seven'' \<in> set (de_S3Keys del_ev0)"
    by (simp_all add: deps0_def del_ev0_def NewDeleteEvent_def us0_def parse0_def)
  with cleanup_complete [OF depl.deployed_axioms world1_fair(1) ev run] run show ?thesis by auto
qed

section \<open>Processing\<close>

text \<open>
  (C3) Completed means complete: when the worker finishes an avatar, its row is completed, names
  the key of every thumbnail size, and under each of these keys a JPEG thumbnail is stored; no
  object other than the avatar's thumbnails changes.
\<close>

theorem processing_complete:
  assumes "deployed MC b objs AC obs D" and "w_fair w" and "table_ok (w_tbl w)"
    and "process_avatar (worker_handler D) a w = (Inr True, w')"
    and "find_row (ID a) (w_tbl w) = Some r" and "processing_status r \<noteq> ProcessingStatusPending"
  shows "(\<exists>r' m. find_row (ID a) (w_tbl w') = Some r' \<and> processing_status r' = ProcessingStatusCompleted
      \<and> thumbnail_s3_keys r' = Some m
      \<and> (\<forall>sz\<in>set ThumbnailSizes. m sz = Some (ThumbnailKey (d_us D) (ID a) sz)
          \<and> (\<exists>d et. w_objs objs w' (ThumbnailKey (d_us D) (ID a) sz)
               = Some \<lparr>bl_data = d, bl_type = ThumbnailMimeType, bl_etag = et\<rparr>)))
    \<and> {k. w_objs objs w' k \<noteq> w_objs objs w k} \<subseteq> ThumbnailKey (d_us D) (ID a) ` set ThumbnailSizes"
proof -
  note P = deployed.hdl_process [OF assms(1-6), unfolded worker_handler_ops]
  from P(2) [OF refl] obtain bl :: blob and th r' where th: "Thumbnails (d_codec D) (d_image D) (bl_data bl, None) ThumbnailSizes = Inr th"
    and row: "find_row (ID a) (w_tbl w') = Some r'" "processing_status r' = ProcessingStatusCompleted"
    and all: "\<forall>sz\<in>set ThumbnailSizes. \<forall>d. th sz = Some d \<longrightarrow>
      (\<exists>m. thumbnail_s3_keys r' = Some m \<and> m sz = Some (ThumbnailKey (d_us D) (ID a) sz))
      \<and> (\<exists>et. w_objs objs w' (ThumbnailKey (d_us D) (ID a) sz)
            = Some \<lparr>bl_data = d, bl_type = ThumbnailMimeType, bl_etag = et\<rparr>)"
    by blast
  note each = all [rule_format]
  from Thumbnails_all [OF th] have some: "\<exists>d. th sz = Some d" if "sz \<in> set ThumbnailSizes" for sz using that by auto
  obtain m where m: "thumbnail_s3_keys r' = Some m"
    using each [of ThumbnailSmall] some [of ThumbnailSmall] by auto
  have "m sz = Some (ThumbnailKey (d_us D) (ID a) sz) \<and> (\<exists>d et. w_objs objs w' (ThumbnailKey (d_us D) (ID a) sz)
      = Some \<lparr>bl_data = d, bl_type = ThumbnailMimeType, bl_etag = et\<rparr>)" if "sz \<in> set ThumbnailSizes" for sz
  proof -
    from some [OF that] obtain d where "th sz = Some d" by blast
    from each [OF that this] m show ?thesis by auto
  qed
  with row m P(4) show ?thesis by blast
qed

text \<open>The row of \<open>world1\<close> once the worker took it up.\<close>

definition started0 :: "(error + Avatar option) \<times> (bucket_server, amqp_server, gb) world" where
  "started0 = start (worker_handler deps0) 7 world1"

theorem processing_complete_witness:
  "\<exists>a w' r'. process_avatar (worker_handler deps0) a (snd started0) = (Inr True, w') \<and> ID a = 7
     \<and> find_row 7 (w_tbl w') = Some r' \<and> processing_status r' = ProcessingStatusCompleted"
proof -
  have st: "start (worker_handler deps0) 7 world1 = (fst started0, snd started0)" by (simp add: started0_def)
  have "(case fst started0 of Inr (Some a) \<Rightarrow> fst (process_avatar (worker_handler deps0) a (snd started0)) = Inr True
      | _ \<Rightarrow> False)" by code_simp
  then obtain a where a: "fst started0 = Inr (Some a)"
    and ok: "fst (process_avatar (worker_handler deps0) a (snd started0)) = Inr True"
    by (auto split: sum.splits option.splits)
  then obtain w' where run: "process_avatar (worker_handler deps0) a (snd started0) = (Inr True, w')"
    by (cases "process_avatar (worker_handler deps0) a (snd started0)") auto
  note S = depl.hdl.start_spec [OF world1_fair(1,3) st]
  from S(3) [OF a] obtain r where i: "ID a = 7" and r: "find_row 7 (w_tbl (snd started0)) = Some r"
    "processing_status r \<noteq> ProcessingStatusPending" by blast
  have "w_fair (snd started0)" "table_ok (w_tbl (snd started0))"
    using S(1) world1_fair(3) db_steps_table_ok by blast+
  from processing_complete [OF depl.deployed_axioms this run] i r run show ?thesis by auto
qed

text \<open>
  (C11) No avatar is forgotten half way: an upload event for an existing row that the worker
  settles before the last attempt, with success or with an error it will not retry, leaves the
  row completed, failed or deleted.
\<close>

theorem settled_means_ended:
  assumes "deployed MC b objs AC obs D" and "w_fair w" and "table_ok (w_tbl w)"
    and "uploaded (worker_handler D) msg w = (res, w')"
    and "UnmarshalUpload (msg_Body msg) = Inr ev" and "d_up D (ue_AvatarID ev) = Some i"
    and "find_row i (w_tbl w) = Some r" and "\<not> Final msg"
    and "res = None \<or> (\<exists>e. res = Some e \<and> errors_Is e ErrNonRetryable)"
  shows "\<exists>r'. find_row i (w_tbl w') = Some r' \<and> (processing_status r' = ProcessingStatusCompleted
    \<or> processing_status r' = ProcessingStatusFailed \<or> deleted_at r' \<noteq> None)"
proof -
  from deployed.hdl_steps [OF assms(1-4)] row_persists [OF _ assms(7)] obtain r'
    where "find_row i (w_tbl w') = Some r'" by blast
  with deployed.hdl_settles [OF assms(1-5) _ assms(7-9)] assms(6) show ?thesis
    by (auto simp: worker_handler_ops ended_def)
qed

theorem settled_means_ended_witness:
  "\<exists>w' r'. uploaded (worker_handler deps0) msg0 world1 = (None, w') \<and> find_row 7 (w_tbl w') = Some r'
     \<and> (processing_status r' = ProcessingStatusCompleted
        \<or> processing_status r' = ProcessingStatusFailed \<or> deleted_at r' \<noteq> None)"
proof -
  let ?ev = "\<lparr>ue_MessageID = ''m'', ue_AvatarID = ''seven'', ue_UserID = ''alice'', ue_S3Key = ''originals/seven''\<rparr>"
  obtain w' where run: "uploaded (worker_handler deps0) msg0 world1 = (None, w')"
    using uploaded0_ok by (cases "uploaded (worker_handler deps0) msg0 world1") auto
  have ev: "UnmarshalUpload (msg_Body msg0) = Inr ?ev" by code_simp
  have i: "d_up deps0 (ue_AvatarID ?ev) = Some 7" by (simp add: deps0_def parse0_def)
  have "7 \<in> row_id ` set (w_tbl world1)" using world1_row by (auto simp: map_eq_Cons_conv)
  then obtain r where r: "find_row 7 (w_tbl world1) = Some r" by (metis find_row_None option.exhaust)
  from settled_means_ended [OF depl.deployed_axioms world1_fair(1,3) run ev i r] run show ?thesis
    by (simp add: msg0_def)
qed

text \<open>
  (C20) A broken connection is never taken for a broken file: the worker gives up on an original
  for good only when it is missing or larger than the limit; if it reads anything, it reads the
  whole object.
\<close>

theorem original_read_whole_or_retried:
  assumes "deployed MC b objs AC obs D" and "readOriginal (worker_handler D) a w = (res, w')"
  shows "case res of
      Inr d \<Rightarrow> (\<exists>bl. w_objs objs w (S3Key a) = Some bl \<and> d = bl_data bl)
    | Inl e \<Rightarrow> errors_Is e ErrNonRetryable \<longrightarrow> (case w_objs objs w (S3Key a) of None \<Rightarrow> True
        | Some bl \<Rightarrow> int (length (bl_data bl)) > d_maxUploadBytes D)"
  using deployed.hdl_readOriginal [OF assms] by (auto simp: worker_handler_ops split: sum.split option.split)

definition broken1 :: "(bucket_server, amqp_server, gb) world" where
  "broken1 = world1\<lparr>w_s3 := (w_s3 world1)\<lparr>bs_fault := (\<lambda>_. FailAfter 2 LibOther)\<rparr>\<rparr>"

theorem original_read_whole_or_retried_witness:
  "\<exists>e w'. readOriginal (worker_handler deps0) (scanAvatar (hd (w_tbl world1))) broken1 = (Inl e, w')
     \<and> errors_Is e ErrNonRetryable = False
     \<and> (errors_Is e ErrNonRetryable \<longrightarrow>
          (case w_objs (bucket_objs bucket0) broken1 (S3Key (scanAvatar (hd (w_tbl world1)))) of None \<Rightarrow> True
           | Some bl \<Rightarrow> int (length (bl_data bl)) > d_maxUploadBytes deps0))"
proof -
  let ?a = "scanAvatar (hd (w_tbl world1))"
  have "(case fst (readOriginal (worker_handler deps0) ?a broken1) of Inl e \<Rightarrow> \<not> errors_Is e ErrNonRetryable
      | Inr _ \<Rightarrow> False)" by code_simp
  then obtain e w' where "readOriginal (worker_handler deps0) ?a broken1 = (Inl e, w')" "\<not> errors_Is e ErrNonRetryable"
    by (cases "readOriginal (worker_handler deps0) ?a broken1") (auto split: sum.splits)
  with original_read_whole_or_retried [OF depl.deployed_axioms this(1)] show ?thesis by auto
qed

text \<open>
  A decode slot that is taken is given back, on every path through the rendering of an
  avatar; so a failing avatar never leaves the worker with fewer slots.
\<close>

theorem decode_slot_returned:
  "w_slots (snd (render (worker_handler D) a w)) = w_slots w"
proof -
  have s3: "w_slots (snd (lift_s3 f v)) = w_slots v" for f :: "'a \<Rightarrow> 'r \<times> 'a" and v :: "('a, 'b, 'c) world"
    by (simp add: lift_s3_def split: prod.splits)
  have rd: "w_slots (snd (readOriginal (worker_handler D) a v)) = w_slots v" for v
    using s3 [of "s3_Get (d_storage D) (S3Key a)" v]
    by (auto simp: readOriginal_def worker_handler_ops w_ops split: prod.splits sum.splits)
  obtain q w1 where acq: "acquire_slot w = (q, w1)" by fastforce
  show ?thesis
  proof (cases q)
    case (Some l)
    with acq show ?thesis
      by (auto simp: render_def worker_handler_ops acquire_slot_def tick_def split: option.splits)
  next
    case None
    with acq have "w_slots w1 = Suc (w_slots w)" by (auto simp: acquire_slot_def tick_def split: option.splits)
    moreover obtain r w2 where rd2: "readOriginal (worker_handler D) a w1 = (r, w2)" by fastforce
    ultimately have "w_slots w2 = Suc (w_slots w)" using rd [of w1] by simp
    with acq None rd2 show ?thesis
      by (auto simp: render_def worker_handler_ops release_slot_def split: sum.splits)
  qed
qed

section \<open>Messages\<close>

text \<open>
  A connection that is handed out has the whole topology behind it: exchanges, the main
  queue with its dead-letter exchange and binding, every level of the retry ladder with its delay
  and its way back, and the queue of the dead.
\<close>

theorem connection_has_topology:
  assumes "amqp_client C obs" and "broker_New C dialled prefetch t opts c = (Inr conn, c')"
  shows "topology_ok (c_levels conn) (obs c')"
proof -
  from assms(2) have "declare_conn C conn c = (None, c')"
    by (auto simp: broker_New_def Let_def split: option.splits prod.splits)
  then show ?thesis by (rule amqp_client.declare_conn_ok [OF assms(1)])
qed

theorem connection_has_topology_witness:
  "\<exists>conn. fst connected0 = Inr conn \<and> topology_ok (c_levels conn) (server_view (snd connected0))"
proof -
  obtain conn where c: "fst connected0 = Inr conn" using connected0_ok by (auto simp: is_ok_def split: sum.splits)
  then have "broker_New amqp_server_client None 4 (5 * Second) [WithProcessTimeout Minute] mq_empty
      = (Inr conn, snd connected0)" by (metis connected0_def prod.collapse)
  from connection_has_topology [OF amqp_mem.amqp_client_axioms this] c show ?thesis by blast
qed

text \<open>
  (C15) A publication that returns nil is in a queue of the broker, exactly once; one that fails
  was taken at most once and changes nothing else that was sent; only the expected sentinels come
  out of it, so a full broker is never mistaken for a missing avatar.
\<close>

theorem publish_confirmed:
  assumes "amqp_client C obs" and "pub_inv obs pc" and "broker_Publish C ctx ev pc = (res, pc')"
  shows "pub_inv obs pc' \<and> (case res of
      None \<Rightarrow> events_sent (obs (snd pc')) = events_sent (obs (snd pc)) @ [wire ev]
    | Some e \<Rightarrow> events_sent (obs (snd pc')) \<in> {events_sent (obs (snd pc)), events_sent (obs (snd pc)) @ [wire ev]}
        \<and> {sn. errors_Is e sn} \<subseteq> {ErrUnavailable, ErrCanceled, ErrDeadlineExceeded})"
  using amqp_client.Publish_spec [OF assms] by (auto split: option.split)

definition up_ev0 :: Event where
  "up_ev0 = UploadEvent (NewUploadEvent us0 ''m'' 7 ''alice'' ''originals/seven'')"

definition ctx0 :: pubctx where "ctx0 = \<lparr>inject = (\<lambda>t. t), rid = ''r'', now = 0\<rparr>"

theorem publish_confirmed_witness:
  "\<exists>pc'. broker_Publish amqp_server_client ctx0 up_ev0 (new_publisher, mq0) = (None, pc')
     \<and> events_sent (server_view (snd pc')) = [wire up_ev0]"
proof -
  have "fst (broker_Publish amqp_server_client ctx0 up_ev0 (new_publisher, mq0)) = None" by code_simp
  then obtain pc' where run: "broker_Publish amqp_server_client ctx0 up_ev0 (new_publisher, mq0) = (None, pc')"
    by (metis prod.collapse)
  from publish_confirmed [OF amqp_mem.amqp_client_axioms new_publisher_inv run] run show ?thesis
    by (auto simp: events_sent_def server_view_def mq0_def)
qed



section \<open>Reading\<close>

text \<open>
  (C21) The picture of a user is the newest one or the placeholder: what is not the placeholder
  is the body of an object of the newest live uploaded avatar of that user, it is cached for at
  most five minutes, and the absence of a picture never surfaces as an error.
\<close>

theorem user_picture_is_newest:
  assumes "deployed MC b objs AC obs D" and "w_fair w"
    and "UserAvatarContent (server_service D) u sz w = (res, w')"
  shows "case res of
      Inr c \<Rightarrow> c_MaxAge c \<le> cacheCurrent \<and> (if c_IsDefault c then c = defaultContent (server_service D)
        else \<exists>r\<in>set (user_rows u UploadStatusUploaded (w_tbl w)).
          (\<forall>r'\<in>set (user_rows u UploadStatusUploaded (w_tbl w)). created_at r' \<le> created_at r)
          \<and> (\<exists>bl. w_objs objs w (fst (served (scanAvatar r) sz)) = Some bl
               \<and> (c_BodyErr c = None \<longrightarrow> c_Body c = bl_data bl)))
    | Inl e \<Rightarrow> \<not> errors_Is e ErrNotFound"
  using deployed.svc_UserAvatarContent [OF assms] by (auto split: sum.split)

theorem user_picture_is_newest_witness:
  "\<exists>c w'. UserAvatarContent (server_service deps0) ''alice'' '''' world1 = (Inr c, w')
     \<and> \<not> c_IsDefault c \<and> c_MaxAge c \<le> cacheCurrent
     \<and> (\<exists>r\<in>set (user_rows ''alice'' UploadStatusUploaded (w_tbl world1)).
          (\<exists>bl. w_objs (bucket_objs bucket0) world1 (fst (served (scanAvatar r) '''')) = Some bl
             \<and> (c_BodyErr c = None \<longrightarrow> c_Body c = bl_data bl)))"
proof -
  have "(case fst (UserAvatarContent (server_service deps0) ''alice'' '''' world1) of
      Inr c \<Rightarrow> \<not> c_IsDefault c | Inl _ \<Rightarrow> False)" by code_simp
  then obtain c w' where run: "UserAvatarContent (server_service deps0) ''alice'' '''' world1 = (Inr c, w')"
    and "\<not> c_IsDefault c"
    by (cases "UserAvatarContent (server_service deps0) ''alice'' '''' world1") (auto split: sum.splits)
  moreover from user_picture_is_newest [OF depl.deployed_axioms world1_fair(1) run] this(2)
  have "c_MaxAge c \<le> cacheCurrent" and "\<exists>r\<in>set (user_rows ''alice'' UploadStatusUploaded (w_tbl world1)).
      (\<exists>bl. w_objs (bucket_objs bucket0) world1 (fst (served (scanAvatar r) '''')) = Some bl
         \<and> (c_BodyErr c = None \<longrightarrow> c_Body c = bl_data bl))"
    by (simp, simp, elim conjE bexE, intro bexI)
  ultimately show ?thesis by (intro exI conjI)
qed

text \<open>
  (C22) A list is complete or an error: if listing succeeds, it returns every live uploaded
  avatar of the user exactly once, the newest first; a connection that breaks half way never
  yields a shorter list.
\<close>

theorem list_is_complete:
  assumes "deployed MC b objs AC obs D" and "w_fair w"
    and "ListByUser (server_service D) u w = (Inr avs, w')"
  shows "mset avs = image_mset scanAvatar (mset (user_rows u UploadStatusUploaded (w_tbl w)))
    \<and> sorted_wrt (\<lambda>a a'. CreatedAt a' \<le> CreatedAt a) avs"
proof -
  from deployed.svc_ListByUser [OF assms] obtain rs
    where m: "mset rs = mset (user_rows u UploadStatusUploaded (w_tbl w))"
      and s: "sorted_wrt (\<lambda>r r'. created_at r' \<le> created_at r) rs" and a: "avs = map scanAvatar rs" by blast
  have "mset avs = image_mset scanAvatar (mset rs)" using a by simp
  moreover have "sorted_wrt (\<lambda>a a'. CreatedAt a' \<le> CreatedAt a) avs"
    using s by (simp add: a sorted_wrt_map scanAvatar_def)
  ultimately show ?thesis using m by simp
qed

theorem list_is_complete_witness:
  "\<exists>avs w'. ListByUser (server_service deps0) ''alice'' world1 = (Inr avs, w')
     \<and> mset avs = image_mset scanAvatar (mset (user_rows ''alice'' UploadStatusUploaded (w_tbl world1)))"
proof -
  have "is_ok (fst (ListByUser (server_service deps0) ''alice'' world1))" by code_simp
  then obtain avs w' where run: "ListByUser (server_service deps0) ''alice'' world1 = (Inr avs, w')"
    by (cases "ListByUser (server_service deps0) ''alice'' world1") (auto simp: is_ok_def split: sum.splits)
  with list_is_complete [OF depl.deployed_axioms world1_fair(1) run] show ?thesis by auto
qed

section \<open>Reconciliation\<close>

text \<open>
  (C10) Nothing stays stuck unnoticed: a pass of the reconciler that reports no error has failed
  the stale uploads, has announced the oldest stuck uploads again, as many as a batch holds, and
  then the oldest rows whose files are to be removed, each with exactly the keys of that row. It
  publishes nothing else.
\<close>

theorem reconcile_pass_complete:
  assumes "deployed MC b objs AC obs D" and "w_fair w" and "w_up obs w"
    and "0 < rc_Batch (d_reconcile D)" and "reconcile (worker_reconciler D) w = (None, w')"
  shows "\<exists>before now t1 t2 stuck unclean new1 new2.
      before = fst (tick (w_clock w) w) - rc_StuckAfter (d_reconcile D)
    \<and> db_step\<^sup>*\<^sup>* (fst (failStaleUploadsQuery UploadStatusFailed UploadStatusUploading before now (w_tbl w))) t1
    \<and> db_step\<^sup>*\<^sup>* t1 t2 \<and> db_step\<^sup>*\<^sup>* t2 (w_tbl w')
    \<and> mset stuck = mset (filter (is_stuck UploadStatusUploaded ProcessingStatusPending before) t1)
    \<and> sorted (map updated_at stuck)
    \<and> mset unclean = mset (filter (is_uncleaned before) t2) \<and> sorted (map updated_at unclean)
    \<and> announced (upload_event (d_us D)) (map scanAvatar (take (nat (rc_Batch (d_reconcile D))) stuck)) new1
    \<and> announced (delete_event (d_us D)) (map scanAvatar (take (nat (rc_Batch (d_reconcile D))) unclean)) new2
    \<and> w_sent obs w' = w_sent obs w @ new1 @ new2"
proof -
  have cut: "take (min m (length xs)) xs = take m xs" for m and xs :: "'x list"
    by (cases "length xs \<le> m") (simp_all add: min_def)
  from deployed.rec_reconcile [OF assms(1-3) _ assms(5), unfolded worker_reconciler_ops, OF assms(4)]
  obtain before t1 t2 f err1 err2 n1 n2 new1 new2
    where R: "before = fst (tick (w_clock w) w) - rc_StuckAfter (d_reconcile D)"
      "db_step\<^sup>*\<^sup>* t1 t2" "db_step\<^sup>*\<^sup>* t2 (w_tbl w')" "w_sent obs w' = w_sent obs w @ new1 @ new2"
      and b1: "batch_sent (rc_Batch (d_reconcile D)) (is_stuck UploadStatusUploaded ProcessingStatusPending before)
            (upload_event (d_us D)) t1 n1 err1 new1"
      and b2: "batch_sent (rc_Batch (d_reconcile D)) (is_uncleaned before) (delete_event (d_us D)) t2 n2 err2 new2"
      and f: "f = None \<longrightarrow> (\<exists>now. db_step\<^sup>*\<^sup>* (fst (failStaleUploadsQuery UploadStatusFailed
            UploadStatusUploading before now (w_tbl w))) t1)"
      and ok: "errors_Join [f, err1, err2] = None"
    by (elim conjE exE) metis
  from ok have none: "f = None" "err1 = None" "err2 = None" by simp_all
  from f none(1) obtain now where "db_step\<^sup>*\<^sup>* (fst (failStaleUploadsQuery UploadStatusFailed
            UploadStatusUploading before now (w_tbl w))) t1" by blast
  with R b1 [unfolded none batch_sent_def] b2 [unfolded none batch_sent_def] show ?thesis
    by (auto simp: cut) blast
qed

text \<open>\<open>world1\<close> an hour later.\<close>

definition late1 :: "(bucket_server, amqp_server, gb) world" where
  "late1 = world1\<lparr>w_clock := (\<lambda>_. Hour)\<rparr>"

theorem reconcile_pass_complete_witness:
  "\<exists>w' stuck new1 new2. reconcile (worker_reconciler deps0) late1 = (None, w')
     \<and> announced (upload_event us0) (map scanAvatar (take 100 stuck)) new1
     \<and> w_sent server_view w' = w_sent server_view late1 @ new1 @ new2
     \<and> length (w_sent server_view w') = Suc (length (w_sent server_view late1))"
proof -
  have "fst (reconcile (worker_reconciler deps0) late1) = None" by code_simp
  then obtain w' where run: "reconcile (worker_reconciler deps0) late1 = (None, w')"
    by (cases "reconcile (worker_reconciler deps0) late1") auto
  have more: "length (w_sent server_view w') = Suc (length (w_sent server_view late1))"
  proof -
    have "length (w_sent server_view (snd (reconcile (worker_reconciler deps0) late1)))
        = Suc (length (w_sent server_view late1))" by code_simp
    with run show ?thesis by simp
  qed
  have b: "0 < rc_Batch (d_reconcile deps0)" by (simp add: deps0_def)
  have f: "w_fair late1" "w_up server_view late1" using world1_fair(1,2) by (simp_all add: late1_def view_defs)
  from reconcile_pass_complete [OF depl.deployed_axioms f b run] obtain stuck new1 new2
    where "announced (upload_event us0) (map scanAvatar (take 100 stuck)) new1"
      "w_sent server_view w' = w_sent server_view late1 @ new1 @ new2" by (auto simp: deps0_def)
  with run more show ?thesis by blast
qed

section \<open>The database and the breakers as the components see them\<close>

text \<open>
  (C18) The repository keeps what the service, the worker and the reconciler are written
  against: on every state of the database whose other clients run the program's own statements,
  its methods satisfy the three contracts, answers lost in transit included.
\<close>

theorem repositories_keep_contracts:
  "service_repo pg_service_repo snapshot pg_fair \<and> handler_repo pg_handler_repo snapshot pg_fair
   \<and> reconciler_repo pg_reconciler_repo snapshot pg_fair"
  by (intro conjI pg_svc.service_repo_axioms pg_hdl.handler_repo_axioms pg_rec.reconciler_repo_axioms)

text \<open>
  An upload is decided once: after one status change of an avatar has succeeded, no second
  one does, and the first decision stands, whatever happens in between. So an upload that
  finishes late and the reconciler that gave it up can not both win.
\<close>

theorem upload_decided_once:
  assumes "pg_fair p" and "table_ok (snapshot p)"
    and "pg_SetUploadStatus i s p = (None, p1)" and "pg_SetUploadStatus i s' p1 = (res, p2)"
  shows "res \<noteq> None \<and> (\<exists>r. find_row i (snapshot p2) = Some r \<and> upload_status r = s)"
proof -
  have id: "row_id (set_upload s0 now r) = row_id r" for s0 now r by (simp add: set_upload_def)
  note L1 = pg_SetUploadStatus_law [OF assms(1,3)]
  then have fair: "pg_fair p1" and law1: "transition_law snapshot i
      (\<lambda>r. upload_status r \<in> set (UploadStatus_AllowedFrom s)) (set_upload s) p None p1" by auto
  note law2 = pg_SetUploadStatus_law [OF fair assms(4), THEN conjunct2]
  from transition_row [OF law1 assms(2) id] obtain now r r' where "upload_status r \<in> set (UploadStatus_AllowedFrom s)"
    and r': "find_row i (snapshot p1) = Some r'" "row_evolves (set_upload s now r) r'" by blast
  then have "upload_step\<^sup>*\<^sup>* s (upload_status r')" "s \<noteq> UploadStatusUploading"
    by (auto simp: row_evolves_def set_upload_def UploadStatus_AllowedFrom_def split: UploadStatus.splits)
  then have st: "upload_status r' = s" "s \<noteq> UploadStatusUploading" using upload_run_terminal by blast+
  from law1 obtain u where "db_step\<^sup>*\<^sup>* (fst (update_where (\<lambda>r. row_id r = i \<and> live r
      \<and> upload_status r \<in> set (UploadStatus_AllowedFrom s)) (set_upload s u) (snapshot p))) (snapshot p1)"
    unfolding transition_law_def by auto
  with rtranclp_trans [OF set_upload_step this] have ok1: "table_ok (snapshot p1)"
    using db_steps_table_ok assms(2) by blast
  have no: "res \<noteq> None"
  proof
    assume "res = None"
    from transition_row [OF law2 [unfolded this] ok1 id] r'(1) st show False
      by (auto simp: UploadStatus_AllowedFrom_def split: UploadStatus.splits)
  qed
  then have "db_step\<^sup>*\<^sup>* (snapshot p1) (snapshot p2)" using law2 by (auto simp: transition_law_def)
  then obtain r2 where "find_row i (snapshot p2) = Some r2" "row_evolves r' r2"
    using r'(1) db_steps_rows_evolve unfolding rows_evolve_def by blast
  moreover have "upload_status r2 = s"
    using \<open>row_evolves r' r2\<close> st upload_run_terminal unfolding row_evolves_def by metis
  ultimately show ?thesis using no by blast
qed

definition created0 :: pg where
  "created0 = snd (pg_Create \<lparr>n_ID = 7, n_UserID = ''alice'', n_FileName = ''a.jpg'', n_MimeType = mimeJPEG,
     n_SizeBytes = 7, n_Width = 1, n_Height = 1, n_S3Key = ''originals/seven''\<rparr> pg0)"

theorem upload_decided_once_witness:
  "\<exists>p1 res p2 r. pg_SetUploadStatus 7 UploadStatusFailed created0 = (None, p1)
     \<and> pg_SetUploadStatus 7 UploadStatusUploaded p1 = (res, p2) \<and> res \<noteq> None
     \<and> find_row 7 (snapshot p2) = Some r \<and> upload_status r = UploadStatusFailed"
proof -
  have fair: "pg_fair created0"
    using world0_fair(1) pg_Create_spec(1) [OF _ prod.collapse [symmetric]]
    by (simp add: created0_def w_fair_def world0_def)
  have ok: "table_ok (snapshot created0)" by code_simp
  have "fst (pg_SetUploadStatus 7 UploadStatusFailed created0) = None" by code_simp
  then obtain p1 where r1: "pg_SetUploadStatus 7 UploadStatusFailed created0 = (None, p1)"
    by (cases "pg_SetUploadStatus 7 UploadStatusFailed created0") auto
  obtain res p2 where r2: "pg_SetUploadStatus 7 UploadStatusUploaded p1 = (res, p2)" by fastforce
  from upload_decided_once [OF fair ok r1 r2] r1 r2 show ?thesis by blast
qed

text \<open>
  A breaker is transparent: a storage behind one is still a storage in the sense of the
  service's contract, so no caller needs to know of it; all it adds is the refusal.
\<close>

theorem breaker_keeps_contract:
  assumes "object_store S objs" and "breaker_keeps objs cb"
  shows "object_store (breaker_Storage cb S) objs"
  using assms by (intro guarded_store.is_object_store guarded_store.intro guarded_store_axioms.intro)

theorem breaker_keeps_contract_witness:
  "object_store (breaker_Storage (storage_breaker doc_breaker)
     (w_storage \<lparr>s3_client = server_client, s3_bucket = bucket0\<rparr> :: (bucket_server, amqp_server, gb) world Storage))
     (w_objs (bucket_objs bucket0))"
  by (rule breaker_keeps_contract [OF depl.w_store]) (rule breakers_keep)

section \<open>The API over the deployment\<close>

lemma resp_status_writeJSON [simp]: "resp_status (writeJSON s b) = s"
  by (simp add: resp_status_find writeJSON_def)

lemma resp_status_respond: "400 \<le> resp_status (respond a e)"
  using mapError_status [of "a_maxUpload a" e]
  by (cases "http_mapError (a_maxUpload a) e") (auto simp: respond_def)

lemma resp_body_writeJSON [simp]: "resp_body (writeJSON s b) = [Json b]"
  by (simp add: resp_body_eq writeJSON_def List.map_filter_simps)

lemma pickFile_in: "pickFile f ks = Inr h \<Longrightarrow> \<exists>k. f_File f k = Some (Some h)"
  by (induction ks) (auto simp: FormFile_def split: sum.splits file_error.splits option.splits)

lemma formFile_picks:
  assumes "formFile a r w = (Inr (h, temp), w1)"
  shows "\<exists>f k. rq_Form r = Some f \<and> f_File f k = Some (Some h) \<and> w1 = a_spill a (f_Temp f) w"
proof -
  from assms obtain f where "rq_Form r = Some f" "pickFile f [fieldFile, fieldImage] = Inr h" "w1 = a_spill a (f_Temp f) w"
    by (auto simp: formFile_def ParseMultipartForm_def simp del: pickFile.simps
        split: sum.splits parse_error.splits option.splits if_splits)
  with pickFile_in show ?thesis by blast
qed

text \<open>
  (C14) A 201 of the API is a promise kept: the user of the header has a new uploaded row, the
  bucket holds the bytes of a file of the form under the key of that row, and the answer names
  the row. The form gives its files unread and with their size.
\<close>

theorem created_is_durable:
  assumes "deployed MC b objs AC obs D" and "w_fair w" "w_up obs w" "table_ok (w_tbl w)"
    and "rq_Form r = Some f"
    and "\<forall>k h. f_File f k = Some (Some h) \<longrightarrow> rs_pos (fh_File h) = 0 \<and> fh_Size h = int (length (rs_data (fh_File h)))"
    and "http_upload (server_api D expired) r w = (res, acts, w')" and "resp_status acts = 201"
  shows "\<exists>av k h. resp_body acts = [Json (JUpload (newUploadResponse (d_us D) av))] \<and> f_File f k = Some (Some h)
    \<and> UserID av = rq_Header r headerUserID \<and> find_row (ID av) (w_tbl w) = None
    \<and> (\<exists>row. find_row (ID av) (w_tbl w') = Some row \<and> upload_status row = UploadStatusUploaded)
    \<and> (\<exists>bl. w_objs objs w' (OriginalKey (d_us D) (ID av)) = Some bl \<and> bl_data bl = rs_data (fh_File h))"
proof (cases rule: http_upload_cases [OF assms(7)])
  case (1 e w1)
  with assms(8) resp_status_respond [of "server_api D expired" e] show ?thesis by simp
next
  case (2 e h temp w1)
  with assms(8) resp_status_respond [of "server_api D expired" e] show ?thesis by simp
next
  case (3 h temp w1 w2 x)
  have ops: "w1 = w" "w' = w2" "hs_Upload (a_svc (server_api D expired)) = Upload (server_service D)" "a_us (server_api D expired) = d_us D"
    using formFile_picks [OF 3(1)] 3(5) by (auto simp: server_api_def http_service_def closeForm_def)
  from formFile_picks [OF 3(1)] assms(5) obtain k where k: "f_File f k = Some (Some h)" by auto
  show ?thesis
  proof (cases x)
    case (Inl e)
    with 3(6) assms(8) resp_status_respond [of "server_api D expired" e] show ?thesis by simp
  next
    case (Inr av)
    let ?inp = "\<lparr>u_UserID = rq_Header r headerUserID, u_FileName = fh_Filename h, u_Size = fh_Size h, u_File = fh_File h\<rparr>"
    have run: "Upload (server_service D) ?inp w = (Inr av, w')" using 3(4) ops Inr by simp
    have acts: "acts = writeJSON 201 (JUpload (newUploadResponse (d_us D) av))" using 3(6) Inr ops(4) by simp
    have unread: "rs_pos (u_File ?inp) = 0" "u_Size ?inp = int (length (rs_data (u_File ?inp)))"
      using assms(6) k by simp_all
    note S = stored_upload [OF assms(1-4) run unread, unfolded UploadInput.simps]
    then have key: "S3Key av = OriginalKey (d_us D) (ID av)" by blast
    from S obtain et where "w_objs objs w' =
        (w_objs objs w)(S3Key av \<mapsto> \<lparr>bl_data = rs_data (fh_File h), bl_type = MimeType av, bl_etag = et\<rparr>)" by blast
    then have "\<exists>bl. w_objs objs w' (OriginalKey (d_us D) (ID av)) = Some bl \<and> bl_data bl = rs_data (fh_File h)"
      by (simp add: key)
    moreover have "resp_body acts = [Json (JUpload (newUploadResponse (d_us D) av))]" using acts by simp
    ultimately show ?thesis using S k by blast
  qed
qed

definition form_upload0 :: Request where
  "form_upload0 = request0\<lparr>rq_Method := ''POST'', rq_Header := (\<lambda>k. if k = headerUserID then ''alice'' else ''''),
     rq_Form := Some \<lparr>f_Value = (\<lambda>_. ''''),
       f_File = (\<lambda>k. if k = fieldFile then Some (Some \<lparr>fh_Filename = ''a.jpg'', fh_Size = 7, fh_File = u_File upload0\<rparr>) else None),
       f_Temp = 0\<rparr>\<rparr>"

lemma form_upload0_runs:
  "http_upload (server_api deps0 expired) form_upload0 world0 =
    (case Upload (server_service deps0) upload0 world0 of
       (Inl e, w) \<Rightarrow> (Served, respond (server_api deps0 expired) e, w)
     | (Inr av, w) \<Rightarrow> (Served, writeJSON 201 (JUpload (newUploadResponse us0 av)), w))"
proof -
  have "requesterID form_upload0 = Inr ''alice''"
    by (simp add: requesterID_def form_upload0_def maxUserIDLen_def headerUserID_def)
  moreover have "formFile (server_api deps0 expired) form_upload0 w =
      (Inr (\<lparr>fh_Filename = ''a.jpg'', fh_Size = 7, fh_File = u_File upload0\<rparr>, 0), w)" for w
    by (simp add: formFile_def ParseMultipartForm_def form_upload0_def request0_def FormFile_def server_api_def)
  moreover have "\<lparr>u_UserID = ''alice'', u_FileName = ''a.jpg'', u_Size = 7, u_File = u_File upload0\<rparr> = upload0"
    by (simp add: upload0_def)
  moreover have "hs_Upload (a_svc (server_api deps0 expired)) = Upload (server_service deps0)"
    "a_maxUpload (server_api deps0 expired) = 64" "a_us (server_api deps0 expired) = us0" "closeForm (server_api deps0 expired) n w = w" for n w
    by (simp_all add: server_api_def http_service_def deps0_def closeForm_def)
  ultimately show ?thesis
    by (simp add: http_upload_def maxFileNameLen_def split: prod.split sum.split)
qed

theorem created_is_durable_witness:
  "\<exists>acts w'. http_upload (server_api deps0 (\<lambda>_. None)) form_upload0 world0 = (Served, acts, w') \<and> resp_status acts = 201
     \<and> (\<exists>i bl. w_objs (bucket_objs bucket0) w' (OriginalKey us0 i) = Some bl \<and> bl_data bl = jpeg0)"
proof -
  obtain av w' where run: "Upload (server_service deps0) upload0 world0 = (Inr av, w')"
    using upload0_ok by (cases "Upload (server_service deps0) upload0 world0") (auto simp: is_ok_def split: sum.splits)
  then have post: "http_upload (server_api deps0 (\<lambda>_. None)) form_upload0 world0
      = (Served, writeJSON 201 (JUpload (newUploadResponse us0 av)), w')" by (simp add: form_upload0_runs)
  have form: "rq_Form form_upload0 = Some (the (rq_Form form_upload0))" by (simp add: form_upload0_def)
  have files: "\<forall>k h. f_File (the (rq_Form form_upload0)) k = Some (Some h) \<longrightarrow>
      rs_pos (fh_File h) = 0 \<and> fh_Size h = int (length (rs_data (fh_File h)))"
    "f_File (the (rq_Form form_upload0)) k = Some (Some h) \<Longrightarrow> rs_data (fh_File h) = jpeg0" for k h
    by (auto simp: form_upload0_def upload0_def jpeg0_def jpegSig_def split: if_splits)
  have status: "resp_status (writeJSON 201 (JUpload (newUploadResponse us0 av))) = 201" by simp
  from created_is_durable [OF depl.deployed_axioms world0_fair form files(1) post status]
  obtain av' :: Avatar and k and h :: FileHeader and bl :: blob
    where "f_File (the (rq_Form form_upload0)) k = Some (Some h)"
    "w_objs (bucket_objs bucket0) w' (OriginalKey (d_us deps0) (ID av')) = Some bl" "bl_data bl = rs_data (fh_File h)" by blast
  with files(2) have "\<exists>i bl. w_objs (bucket_objs bucket0) w' (OriginalKey us0 i) = Some bl \<and> bl_data bl = jpeg0"
    by (auto simp: deps0_def)
  with post status show ?thesis by blast
qed

text \<open>
  Over the API only the owner deletes: the answer 204 means that the user of the header owns
  the live avatar of the path and that its row is marked now; with any other answer no file is
  gone and nothing is published.
\<close>

theorem no_content_only_for_owner:
  assumes "deployed MC b objs AC obs D" and "w_fair w" and "w_up obs w"
    and "deleteAvatar (server_api D expired) r w = (res, acts, w')"
  shows "if resp_status acts = 204
    then \<exists>i row row'. d_up D (rq_Param r paramAvatarID) = Some i \<and> live_row i (w_tbl w) = Some row
       \<and> user_id row = rq_Header r headerUserID \<and> find_row i (w_tbl w') = Some row' \<and> deleted_at row' \<noteq> None
    else w_objs objs w' = w_objs objs w \<and> w_sent obs w' = w_sent obs w"
proof -
  let ?a = "server_api D expired"
  have ops: "a_up ?a = d_up D" "hs_Delete (a_svc ?a) = Delete (server_service D)"
    by (simp_all add: server_api_def http_service_def)
  have refused: "resp_status (respond ?a e) \<noteq> 204" for e using resp_status_respond [of ?a e] by simp
  show ?thesis
  proof (cases "requesterID r")
    case (Inl e)
    with assms(4) refused show ?thesis by (auto simp: deleteAvatar_def)
  next
    case u: (Inr u)
    then have req: "u = rq_Header r headerUserID" unfolding requesterID_ok by blast
    show ?thesis
    proof (cases "avatarID ?a r")
      case (Inl e)
      with assms(4) u refused show ?thesis by (auto simp: deleteAvatar_def)
    next
      case i: (Inr i)
      then have up: "d_up D (rq_Param r paramAvatarID) = Some i" by (auto simp: avatarID_def ops split: option.splits)
      obtain e w2 where d: "Delete (server_service D) i u w = (e, w2)" by fastforce
      note own = owner_deletes [OF assms(1-3) d]
      show ?thesis
      proof (cases e)
        case None
        with assms(4) u i d have "acts = [WriteHeader 204]" "w' = w2" by (auto simp: deleteAvatar_def ops)
        moreover have "resp_status [WriteHeader 204] = 204" by (simp add: resp_status_find)
        ultimately show ?thesis using own None up req by auto
      next
        case (Some x)
        with assms(4) u i d have "acts = respond ?a x" "w' = w2" by (auto simp: deleteAvatar_def ops)
        with own Some refused show ?thesis by simp
      qed
    qed
  qed
qed

theorem no_content_only_for_owner_witness:
  "\<exists>acts w' row'. deleteAvatar (server_api deps0 (\<lambda>_. None))
       (request0\<lparr>rq_Header := (\<lambda>_. ''alice''), rq_Param := (\<lambda>_. ''seven'')\<rparr>) world1 = (Served, acts, w')
     \<and> resp_status acts = 204 \<and> find_row 7 (w_tbl w') = Some row' \<and> deleted_at row' \<noteq> None"
proof -
  let ?r = "request0\<lparr>rq_Header := (\<lambda>_. ''alice''), rq_Param := (\<lambda>_. ''seven'')\<rparr>"
  have "fst (Delete (server_service deps0) 7 ''alice'' world1) = None" by code_simp
  then obtain w' where d: "Delete (server_service deps0) 7 ''alice'' world1 = (None, w')"
    by (cases "Delete (server_service deps0) 7 ''alice'' world1") auto
  have "requesterID ?r = Inr ''alice''" "avatarID (server_api deps0 (\<lambda>_. None)) ?r = Inr 7"
    "hs_Delete (a_svc (server_api deps0 (\<lambda>_. None))) = Delete (server_service deps0)"
    by (simp_all add: requesterID_def maxUserIDLen_def avatarID_def server_api_def http_service_def deps0_def parse0_def)
  with d have run: "deleteAvatar (server_api deps0 (\<lambda>_. None)) ?r world1 = (Served, [WriteHeader 204], w')"
    by (simp add: deleteAvatar_def)
  have "resp_status [WriteHeader 204] = 204" by (simp add: resp_status_find)
  with no_content_only_for_owner [OF depl.deployed_axioms world1_fair(1,2) run] run show ?thesis
    by (auto simp: deps0_def parse0_def)
qed



end
